(* ===== verification/Kernel_Base.thy ===== *)
theory Kernel_Base
  imports Main "HOL-Library.Word" "HOL-Library.Signed_Division" "HOL-Library.Monad_Syntax"
begin

text \<open>
  The prelude of the development: the machine types of the kernel sources, the wrap-around
  of C's \<^verbatim>\<open>int32_t\<close> and \<^verbatim>\<open>size_t\<close> arithmetic, the errno values the drivers return, copies into
  and out of byte arrays that fail on an access outside the array, and the arithmetic of
  circular buffers (\<open>ring_get\<close>, \<open>ring_put\<close>) that the ring buffer component refines.
\<close>

unbundle bit_operations_syntax

section \<open>Machine types\<close>

type_synonym u8 = "8 word"
type_synonym u16 = "16 word"
type_synonym u32 = "32 word"

named_theorems c_arith \<open>wrap-around and range facts of C integer arithmetic\<close>

text \<open>
  A value of C type \<^verbatim>\<open>int32_t\<close> (or \<^verbatim>\<open>int\<close>) is an \<^typ>\<open>int\<close> in range; every arithmetic
  operation of the source is followed by \<open>s32\<close>, which is two's complement wrap-around (the
  kernel is built with \<^verbatim>\<open>-fno-strict-overflow\<close>).  A conversion to \<^verbatim>\<open>size_t\<close> is \<open>u64\<close>, one to
  \<^verbatim>\<open>unsigned int\<close> is \<open>wrap_u32\<close>.
\<close>

definition s32 :: "int \<Rightarrow> int" where
  "s32 x = (x + 2147483648) mod 4294967296 - 2147483648"

definition u64 :: "int \<Rightarrow> int" where
  "u64 x = x mod 18446744073709551616"

definition s64 :: "int \<Rightarrow> int" where
  "s64 x = (x + 9223372036854775808) mod 18446744073709551616 - 9223372036854775808"

definition wrap_u32 :: "int \<Rightarrow> int" where
  "wrap_u32 x = x mod 4294967296"

lemma s32_id [simp, c_arith]: "- 2147483648 \<le> x \<Longrightarrow> x < 2147483648 \<Longrightarrow> s32 x = x"
  by (simp add: s32_def)

lemma s32_range: "- 2147483648 \<le> s32 x \<and> s32 x < 2147483648"
proof -
  have "0 \<le> (x + 2147483648) mod 4294967296" and "(x + 2147483648) mod 4294967296 < 4294967296"
    by simp_all
  then show ?thesis by (simp add: s32_def)
qed

lemma u64_id [simp, c_arith]: "0 \<le> x \<Longrightarrow> x < 18446744073709551616 \<Longrightarrow> u64 x = x"
  by (simp add: u64_def)

lemma s64_id [simp, c_arith]:
  "- 9223372036854775808 \<le> x \<Longrightarrow> x < 9223372036854775808 \<Longrightarrow> s64 x = x"
  by (simp add: s64_def)

lemma wrap_u32_id [simp, c_arith]: "0 \<le> x \<Longrightarrow> x < 4294967296 \<Longrightarrow> wrap_u32 x = x"
  by (simp add: wrap_u32_def)

lemma s64_wrap [c_arith]:
  "9223372036854775808 \<le> x \<Longrightarrow> x < 18446744073709551616 \<Longrightarrow> s64 x = x - 18446744073709551616"
  "- 18446744073709551616 < x \<Longrightarrow> x < - 9223372036854775808 \<Longrightarrow> s64 x = x + 18446744073709551616"
proof -
  show "s64 x = x - 18446744073709551616" if "9223372036854775808 \<le> x" "x < 18446744073709551616"
  proof -
    have "(x + 9223372036854775808) mod 18446744073709551616 = (x - 9223372036854775808) mod 18446744073709551616"
      using mod_add_self2 [of "x - 9223372036854775808" 18446744073709551616] by (simp add: add.commute)
    then show ?thesis using that by (simp add: s64_def)
  qed
  show "s64 x = x + 18446744073709551616" if "- 18446744073709551616 < x" "x < - 9223372036854775808"
  proof -
    have "(x + 9223372036854775808) mod 18446744073709551616 = (x + 27670116110564327424) mod 18446744073709551616"
      using mod_add_self2 [of "x + 9223372036854775808" 18446744073709551616] by (simp add: add.commute)
    then show ?thesis using that by (simp add: s64_def)
  qed
qed

lemma s32_cong_mod: "a mod 4294967296 = b mod 4294967296 \<Longrightarrow> s32 a = s32 b"
  by (drule mod_add_cong [OF _ refl, of _ _ _ 2147483648]) (simp add: s32_def)

lemma s32_u64 [simp, c_arith]: "s32 (u64 x) = s32 x"
proof (rule s32_cong_mod)
  have "(4294967296::int) dvd 18446744073709551616" by simp
  then show "u64 x mod 4294967296 = x mod 4294967296"
    unfolding u64_def by (rule mod_mod_cancel)
qed

lemma s32_wrap_u32 [simp, c_arith]: "s32 (wrap_u32 x) = s32 x"
  by (rule s32_cong_mod) (simp add: wrap_u32_def)

text \<open>C's division and remainder truncate; on non-negative operands they are \<open>div\<close> and \<open>mod\<close>.\<close>

lemma smod_pos [c_arith]: "0 \<le> a \<Longrightarrow> 0 < b \<Longrightarrow> a smod b = a mod (b::int)"
  by (simp add: signed_modulo_int_def signed_divide_int_def minus_div_mult_eq_mod
      sgn_if)

lemma sdiv_pos [c_arith]: "0 \<le> a \<Longrightarrow> 0 < b \<Longrightarrow> a sdiv b = a div (b::int)"
  by (simp add: signed_divide_int_def sgn_if)

lemma div_less_iff_int [c_arith]: "0 < b \<Longrightarrow> a div b < r \<longleftrightarrow> a < r * (b::int)"
proof -
  assume b: "0 < b"
  have m: "a = a div b * b + a mod b" "0 \<le> a mod b" "a mod b < b" using b by simp_all
  show ?thesis
  proof
    assume "a div b < r"
    then have "(a div b + 1) * b \<le> r * b" using b by (intro mult_right_mono) auto
    moreover have "(a div b + 1) * b = a div b * b + b" by (simp add: distrib_right)
    ultimately show "a < r * b" using m by linarith
  next
    assume "a < r * b"
    then have "a div b * b < r * b" using m by linarith
    then show "a div b < r" using b by (simp add: mult_less_cancel_right)
  qed
qed

lemma sdiv_neg [c_arith]: "a < 0 \<Longrightarrow> 0 < b \<Longrightarrow> a sdiv b = - ((- a) div (b::int))"
  by (simp add: signed_divide_int_def sgn_if)

lemma sdiv_between:
  fixes a b lo hi :: int
  assumes "0 < b" "lo * b \<le> a" "a \<le> hi * b"
  shows "lo \<le> a sdiv b \<and> a sdiv b \<le> hi"
proof (cases "0 \<le> a")
  case True
  have "lo \<le> a div b" using zdiv_mono1 [OF assms(2,1)] assms(1) by simp
  moreover have "a div b \<le> hi" using zdiv_mono1 [OF assms(3,1)] assms(1) by simp
  ultimately show ?thesis using True assms(1) by (simp add: sdiv_pos)
next
  case False
  have "(- hi) * b \<le> - a" "- a \<le> (- lo) * b" using assms(2,3) by auto
  then have "(- hi) * b div b \<le> (- a) div b" "(- a) div b \<le> (- lo) * b div b" using assms(1) by (auto intro: zdiv_mono1)
  then have "- hi \<le> (- a) div b" "(- a) div b \<le> - lo"
    using assms(1) nonzero_mult_div_cancel_right [of b "- hi"] nonzero_mult_div_cancel_right [of b "- lo"] by simp_all
  then show ?thesis using False assms(1) by (simp add: sdiv_neg)
qed

text \<open>The negated errno values the drivers return.\<close>

abbreviation (input) EINVAL :: int where "EINVAL \<equiv> 22"
abbreviation (input) ENOMEM :: int where "ENOMEM \<equiv> 12"
abbreviation (input) ENODEV :: int where "ENODEV \<equiv> 19"
abbreviation (input) EEXIST :: int where "EEXIST \<equiv> 17"
abbreviation (input) EPROBE_DEFER :: int where "EPROBE_DEFER \<equiv> 517"
abbreviation (input) EFAULT :: int where "EFAULT \<equiv> 14"
abbreviation (input) ERANGE :: int where "ERANGE \<equiv> 34"
abbreviation (input) ETIMEDOUT :: int where "ETIMEDOUT \<equiv> 110"
abbreviation (input) EPERM :: int where "EPERM \<equiv> 1"
abbreviation (input) ENOENT :: int where "ENOENT \<equiv> 2"
abbreviation (input) EIO :: int where "EIO \<equiv> 5"
abbreviation (input) EAGAIN :: int where "EAGAIN \<equiv> 11"
abbreviation (input) EBUSY :: int where "EBUSY \<equiv> 16"

section \<open>Copies that stay inside their arrays\<close>

text \<open>
  \<open>mem_load\<close> and \<open>mem_store\<close> are \<^verbatim>\<open>memcpy\<close> out of and into one allocated array.  The count is
  a C \<^verbatim>\<open>int\<close> converted to \<^verbatim>\<open>size_t\<close>, so a negative count is a huge one; an access outside the
  array is the result \<^term>\<open>None\<close>.
\<close>

definition mem_load :: "'a list \<Rightarrow> int \<Rightarrow> int \<Rightarrow> 'a list option" where
  "mem_load xs i n =
     (if n = 0 then Some []
      else if 0 < n \<and> 0 \<le> i \<and> i + n \<le> int (length xs)
      then Some (take (nat n) (drop (nat i) xs)) else None)"

definition mem_store :: "'a list \<Rightarrow> int \<Rightarrow> 'a list \<Rightarrow> 'a list option" where
  "mem_store xs i ys =
     (if ys = [] then Some xs
      else if 0 \<le> i \<and> i + int (length ys) \<le> int (length xs)
      then Some (take (nat i) xs @ ys @ drop (nat i + length ys) xs) else None)"

lemma mem_load_ok:
  "0 \<le> n \<Longrightarrow> 0 \<le> i \<Longrightarrow> i + n \<le> int (length xs) \<Longrightarrow>
     mem_load xs i n = Some (take (nat n) (drop (nat i) xs))"
  by (auto simp: mem_load_def)

lemma mem_load_neg: "n < 0 \<Longrightarrow> mem_load xs i n = None"
  by (simp add: mem_load_def)

lemma length_mem_load: "mem_load xs i n = Some ys \<Longrightarrow> int (length ys) = n"
  by (auto simp: mem_load_def split: if_splits)

lemma mem_store_ok:
  "0 \<le> i \<Longrightarrow> i + int (length ys) \<le> int (length xs) \<Longrightarrow>
     mem_store xs i ys = Some (take (nat i) xs @ ys @ drop (nat i + length ys) xs)"
  by (auto simp: mem_store_def)

lemma length_mem_store: "mem_store xs i ys = Some zs \<Longrightarrow> length zs = length xs"
  by (auto simp: mem_store_def split: if_splits)

text \<open>One element of an array, by a C index.\<close>

definition arr_get :: "'a list \<Rightarrow> int \<Rightarrow> 'a option" where
  "arr_get xs i = (if 0 \<le> i \<and> i < int (length xs) then Some (xs ! nat i) else None)"

definition arr_set :: "'a list \<Rightarrow> int \<Rightarrow> 'a \<Rightarrow> 'a list option" where
  "arr_set xs i v = (if 0 \<le> i \<and> i < int (length xs) then Some (xs[nat i := v]) else None)"

lemma arr_get_ok [simp]: "0 \<le> i \<Longrightarrow> i < int (length xs) \<Longrightarrow> arr_get xs i = Some (xs ! nat i)"
  by (simp add: arr_get_def)

lemma arr_set_ok [simp]: "0 \<le> i \<Longrightarrow> i < int (length xs) \<Longrightarrow> arr_set xs i v = Some (xs[nat i := v])"
  by (simp add: arr_set_def)

lemma arr_set_length: "arr_set xs i v = Some ys \<Longrightarrow> length ys = length xs"
  by (auto simp: arr_set_def split: if_splits)

section \<open>Circular arrays\<close>

text \<open>
  \<open>ring_get bs i n\<close> are the \<open>n\<close> elements of \<open>bs\<close> from index \<open>i\<close> on, wrapping at the end;
  \<open>ring_put bs i xs\<close> overwrites the elements from index \<open>i\<close> on with \<open>xs\<close>, wrapping.
\<close>

definition ring_get :: "'a list \<Rightarrow> nat \<Rightarrow> nat \<Rightarrow> 'a list" where
  "ring_get bs i n = map (\<lambda>k. bs ! ((i + k) mod length bs)) [0..<n]"

definition ring_put :: "'a list \<Rightarrow> nat \<Rightarrow> 'a list \<Rightarrow> 'a list" where
  "ring_put bs i xs =
     map (\<lambda>j. let d = (j + length bs - i) mod length bs
              in if d < length xs then xs ! d else bs ! j) [0..<length bs]"

lemma length_ring_get [simp]: "length (ring_get bs i n) = n"
  by (simp add: ring_get_def)

lemma length_ring_put [simp]: "length (ring_put bs i xs) = length bs"
  by (simp add: ring_put_def)

lemma ring_get_0 [simp]: "ring_get bs i 0 = []"
  by (simp add: ring_get_def)

lemma ring_get_nth: "k < n \<Longrightarrow> ring_get bs i n ! k = bs ! ((i + k) mod length bs)"
  by (simp add: ring_get_def)

lemma ring_get_take: "m \<le> n \<Longrightarrow> take m (ring_get bs i n) = ring_get bs i m"
  by (auto simp: ring_get_def take_map)

lemma ring_get_drop:
  "m \<le> n \<Longrightarrow> drop m (ring_get bs i n) = ring_get bs ((i + m) mod length bs) (n - m)"
  by (rule nth_equalityI) (auto simp: ring_get_nth mod_add_left_eq add.assoc)

lemma ring_get_split:
  assumes "m \<le> n"
  shows "ring_get bs i n = ring_get bs i m @ ring_get bs ((i + m) mod length bs) (n - m)"
  using assms append_take_drop_id [of m "ring_get bs i n"]
  by (simp add: ring_get_take ring_get_drop)

lemma ring_get_straight:
  assumes "i + n \<le> length bs"
  shows "ring_get bs i n = take n (drop i bs)"
  by (rule nth_equalityI) (use assms in \<open>auto simp: ring_get_nth\<close>)

lemma ring_put_nth:
  assumes "j < length bs"
  shows "ring_put bs i xs ! j =
     (if (j + length bs - i) mod length bs < length xs
      then xs ! ((j + length bs - i) mod length bs) else bs ! j)"
  using assms by (simp add: ring_put_def Let_def)

lemma mod_wrap_nat: "N \<le> x \<Longrightarrow> x < 2 * N \<Longrightarrow> x mod N = x - (N::nat)"
  by (simp add: le_mod_geq)

lemma ring_index:
  fixes i j N :: nat
  assumes "j < N" "i \<le> N"
  shows "(j + N - i) mod N = (if i \<le> j then j - i else j + N - i)"
  using assms mod_wrap_nat [of N "j + N - i"] by (cases "i \<le> j") simp_all

lemma ring_dist:
  fixes i k N :: nat
  assumes "i < N" "k < N"
  shows "((i + k) mod N + N - i) mod N = k"
proof (cases "i + k < N")
  case True
  then show ?thesis using assms by simp
next
  case False
  then have "(i + k) mod N = i + k - N"
    using assms by (intro mod_wrap_nat) auto
  then show ?thesis using assms False by simp
qed

lemma ring_get_put_same:
  assumes "i < length bs" "length xs \<le> length bs"
  shows "ring_get (ring_put bs i xs) i (length xs) = xs"
proof (rule nth_equalityI)
  fix k assume "k < length (ring_get (ring_put bs i xs) i (length xs))"
  then have k: "k < length xs" by simp
  have lt: "(i + k) mod length bs < length bs" using assms(1) by (intro mod_less_divisor) auto
  have "((i + k) mod length bs + length bs - i) mod length bs = k"
    using assms k by (intro ring_dist) auto
  then show "ring_get (ring_put bs i xs) i (length xs) ! k = xs ! k"
    using k lt by (simp add: ring_get_nth ring_put_nth)
qed simp

lemma ring_dist_before:
  fixes j m N :: nat
  assumes "j < N" "0 < m" "m \<le> N"
  shows "(j + N - (j + m) mod N) mod N = N - m"
proof (cases "j + m < N")
  case True
  then show ?thesis using assms by simp
next
  case False
  then have "(j + m) mod N = j + m - N"
    using assms by (intro mod_wrap_nat) auto
  then have "j + N - (j + m) mod N = N + N - m" using assms False by simp
  then show ?thesis using assms mod_wrap_nat [of N "N + N - m"] by simp
qed

lemma ring_get_put_before:
  assumes "s < length bs" "n + length xs \<le> length bs" "i = (s + n) mod length bs"
  shows "ring_get (ring_put bs i xs) s n = ring_get bs s n"
proof (rule nth_equalityI)
  let ?N = "length bs"
  fix k assume "k < length (ring_get (ring_put bs i xs) s n)"
  then have k: "k < n" by simp
  define j where "j = (s + k) mod ?N"
  have lt: "j < ?N" unfolding j_def using assms(1) by (intro mod_less_divisor) auto
  have "(j + (n - k)) mod ?N = ((s + k) + (n - k)) mod ?N"
    unfolding j_def by (rule mod_add_left_eq)
  then have "i = (j + (n - k)) mod ?N" using k assms(3) by simp
  then have "(j + ?N - i) mod ?N = ?N - (n - k)"
    using ring_dist_before [of j ?N "n - k"] lt k assms(2) by simp
  then have "\<not> (j + ?N - i) mod ?N < length xs" using assms(2) by simp
  then show "ring_get (ring_put bs i xs) s n ! k = ring_get bs s n ! k"
    using k lt by (simp add: ring_get_nth ring_put_nth j_def)
qed simp

lemma ring_get_put_append:
  assumes "s < length bs" "n + length xs \<le> length bs" "i = (s + n) mod length bs"
  shows "ring_get (ring_put bs i xs) s (n + length xs) = ring_get bs s n @ xs"
proof -
  have "0 < length bs" using assms(1) by auto
  then have "i < length bs" using assms(3) by simp
  then show ?thesis
    using ring_get_split [of n "n + length xs" "ring_put bs i xs" s] assms
    by (simp add: ring_get_put_before ring_get_put_same)
qed

lemma ring_put_straight:
  assumes "i + length xs \<le> length bs"
  shows "ring_put bs i xs = take i bs @ xs @ drop (i + length xs) bs"
proof (rule nth_equalityI)
  fix j assume "j < length (ring_put bs i xs)"
  then have j: "j < length bs" by simp
  have d: "(j + length bs - i) mod length bs = (if i \<le> j then j - i else j + length bs - i)"
    using j assms by (intro ring_index) auto
  show "ring_put bs i xs ! j = (take i bs @ xs @ drop (i + length xs) bs) ! j"
    using j assms by (auto simp: ring_put_nth d nth_append)
qed (use assms in simp)

lemma ring_put_wrap:
  assumes "i < length bs" "length xs \<le> length bs" "length bs \<le> i + length xs"
  shows "ring_put bs i xs =
     drop (length bs - i) xs @ drop (i + length xs - length bs) (take i bs) @ take (length bs - i) xs"
proof (rule nth_equalityI)
  fix j assume "j < length (ring_put bs i xs)"
  then have j: "j < length bs" by simp
  have d: "(j + length bs - i) mod length bs = (if i \<le> j then j - i else j + length bs - i)"
    using j assms by (intro ring_index) auto
  show "ring_put bs i xs ! j = (drop (length bs - i) xs @
      drop (i + length xs - length bs) (take i bs) @ take (length bs - i) xs) ! j"
    using j assms by (auto simp: ring_put_nth d nth_append add.commute)
qed (use assms in simp)

end
