(* ===== verification/Adf_Ringbuf.thy ===== *)
theory Adf_Ringbuf
  imports Kernel_Base
begin

text \<open>
  The ring buffer of the Amazon DSP framework
  (\<^verbatim>\<open>drivers/staging/amazon/dspframework/src/ringbuf.c\<close> and \<^verbatim>\<open>include/ringbuf.h\<close>), in the
  configuration the build uses, \<^verbatim>\<open>CFG_RINGBUF_USE_PTR == 0\<close>: the four positions are
  \<^verbatim>\<open>int32_t\<close> offsets from the struct, not from the buffer.

  The struct is the record \<open>adfRingbuf_t\<close>.  Its last two fields are the memory behind it: the
  bytes of the buffer and their offset from the struct; every \<^verbatim>\<open>memcpy\<close> of the code is a
  \<open>rb_load\<close> or \<open>rb_store\<close> on these bytes, and \<^term>\<open>None\<close> is an access outside them.  A pointer
  argument that may be \<^verbatim>\<open>NULL\<close> is an option.

  The lemmas show that the buffer refines a bounded queue of bytes (\<open>contents\<close>), first operation
  by operation, then for every sequence of operations through the interface \<open>byte_fifo\<close>, and
  what the code does when data does not fit.
\<close>

section \<open>The struct and the pointer macros\<close>

record adfRingbuf_t =
  rb_base :: int
  rb_limit :: int
  rb_wp :: int
  rb_rp :: int
  rb_drop :: int
  rb_dropunit :: int
  rb_rsvd :: "u32 list"
  rb_buf_at :: int
  rb_bytes :: "u8 list"

abbreviation (input) ADF_STATUS_OK :: int where "ADF_STATUS_OK \<equiv> 0"
abbreviation (input) ADF_STATUS_GENERAL_ERROR :: int where "ADF_STATUS_GENERAL_ERROR \<equiv> - 1"
abbreviation (input) ADF_STATUS_NOT_SUPPORTED :: int where "ADF_STATUS_NOT_SUPPORTED \<equiv> - 6"

definition ADF_RINGBUF_MOVE_PTR :: "int \<Rightarrow> int \<Rightarrow> int \<Rightarrow> int \<Rightarrow> int" where
  "ADF_RINGBUF_MOVE_PTR ptr offset base limit =
     (if s32 (limit - ptr) > offset then s32 (ptr + offset)
      else s32 (s32 (ptr + offset) - s32 (limit - base)))"

definition ADF_RINGBUF_IN_RANGE :: "int \<Rightarrow> int \<Rightarrow> int \<Rightarrow> bool" where
  "ADF_RINGBUF_IN_RANGE ptr base limit \<longleftrightarrow> ptr \<ge> base \<and> ptr < limit"

definition ADF_RINGBUF_CALC_RW_SIZE :: "int \<Rightarrow> int \<Rightarrow> int \<Rightarrow> int \<Rightarrow> int" where
  "ADF_RINGBUF_CALC_RW_SIZE ptrS ptrE base limit =
     (if ptrS \<le> ptrE then s32 (ptrE - ptrS)
      else s32 (s32 (limit - ptrS) + s32 (ptrE - base)))"

definition ADF_RINGBUF_CALC_WR_SIZE :: "int \<Rightarrow> int \<Rightarrow> int \<Rightarrow> int \<Rightarrow> int" where
  "ADF_RINGBUF_CALC_WR_SIZE ptrS ptrE base limit =
     (if ptrS < ptrE then s32 (ptrE - ptrS)
      else s32 (s32 (limit - ptrS) + s32 (ptrE - base)))"

text \<open>\<^verbatim>\<open>memcpy\<close> from and to the struct-relative offset \<open>p\<close>.\<close>

definition rb_load :: "adfRingbuf_t \<Rightarrow> int \<Rightarrow> int \<Rightarrow> u8 list option" where
  "rb_load r p n = mem_load (rb_bytes r) (p - rb_buf_at r) n"

definition rb_store :: "adfRingbuf_t \<Rightarrow> int \<Rightarrow> u8 list \<Rightarrow> adfRingbuf_t option" where
  "rb_store r p xs =
     (case mem_store (rb_bytes r) (p - rb_buf_at r) xs of
        None \<Rightarrow> None | Some bs \<Rightarrow> Some (r\<lparr>rb_bytes := bs\<rparr>))"

section \<open>The operations\<close>

definition adfRingbuf_checkDrop :: "adfRingbuf_t \<Rightarrow> int \<Rightarrow> int \<times> adfRingbuf_t" where
  "adfRingbuf_checkDrop r len =
     (let available = ADF_RINGBUF_CALC_WR_SIZE (rb_wp r) (rb_rp r) (rb_base r) (rb_limit r) in
      if len \<ge> available then
        if rb_dropunit r > 0 then
          let dropLen = s32 (s32 (s32 (len - available) + rb_dropunit r) - 1);
              dropLen = s32 (dropLen - (dropLen smod rb_dropunit r))
          in (len, r\<lparr>rb_drop := s32 (rb_drop r + dropLen),
                     rb_rp := ADF_RINGBUF_MOVE_PTR (rb_rp r) dropLen (rb_base r) (rb_limit r)\<rparr>)
        else (s32 (available - 4), r)
      else (len, r))"

definition adfRingbuf_checkValid :: "adfRingbuf_t \<Rightarrow> int \<Rightarrow> int \<Rightarrow> bool" where
  "adfRingbuf_checkValid r buf sz =
     (if rb_base r \<noteq> buf \<or> s32 (rb_limit r - rb_base r) \<noteq> sz then False
      else if ADF_RINGBUF_IN_RANGE (rb_rp r) (rb_base r) (rb_limit r) \<and>
              ADF_RINGBUF_IN_RANGE (rb_wp r) (rb_base r) (rb_limit r) then True
      else False)"

definition adfRingbuf_getUsedSize :: "adfRingbuf_t option \<Rightarrow> int" where
  "adfRingbuf_getUsedSize rBuf =
     (case rBuf of None \<Rightarrow> 0
      | Some r \<Rightarrow> ADF_RINGBUF_CALC_RW_SIZE (rb_rp r) (rb_wp r) (rb_base r) (rb_limit r))"

definition adfRingbuf_getFreeSize :: "adfRingbuf_t option \<Rightarrow> int" where
  "adfRingbuf_getFreeSize rBuf =
     (case rBuf of None \<Rightarrow> 0
      | Some r \<Rightarrow> ADF_RINGBUF_CALC_WR_SIZE (rb_wp r) (rb_rp r) (rb_base r) (rb_limit r))"

text \<open>
  The result of a read is the returned length and the bytes placed in the caller's buffer;
  \<open>has_data\<close> says that \<^verbatim>\<open>data != NULL\<close>.
\<close>

definition adfRingbuf_read :: "adfRingbuf_t option \<Rightarrow> bool \<Rightarrow> int \<Rightarrow> (int \<times> u8 list) option" where
  "adfRingbuf_read rBuf has_data len =
     (case rBuf of None \<Rightarrow> Some (0, [])
      | Some r \<Rightarrow>
          if \<not> has_data \<or> len = 0 then Some (0, [])
          else
            let remain = ADF_RINGBUF_CALC_RW_SIZE (rb_rp r) (rb_wp r) (rb_base r) (rb_limit r);
                len = (if len > remain then remain else len);
                lenToEnd = s32 (rb_limit r - rb_rp r)
            in if lenToEnd \<ge> len
               then do { xs \<leftarrow> rb_load r (rb_rp r) len; Some (len, xs) }
               else do { xs \<leftarrow> rb_load r (rb_rp r) lenToEnd;
                         ys \<leftarrow> rb_load r (rb_base r) (s32 (len - lenToEnd));
                         Some (len, xs @ ys) })"

definition adfRingbuf_flush :: "adfRingbuf_t option \<Rightarrow> int \<Rightarrow> int \<times> adfRingbuf_t option" where
  "adfRingbuf_flush rBuf len =
     (case rBuf of None \<Rightarrow> (0, None)
      | Some r \<Rightarrow>
          if len = 0 then (0, Some r)
          else
            let remain = ADF_RINGBUF_CALC_RW_SIZE (rb_rp r) (rb_wp r) (rb_base r) (rb_limit r);
                len = (if len > remain then remain else len)
            in (len, Some (r\<lparr>rb_rp :=
                 ADF_RINGBUF_MOVE_PTR (rb_rp r) len (rb_base r) (rb_limit r)\<rparr>)))"

text \<open>\<^verbatim>\<open>available % rBuf->dropunit\<close> traps when \<^verbatim>\<open>dropunit\<close> is 0: the result is \<^term>\<open>None\<close>.\<close>

definition adfRingbuf_reserve ::
    "adfRingbuf_t option \<Rightarrow> int \<Rightarrow> (int \<times> adfRingbuf_t option) option" where
  "adfRingbuf_reserve rBuf len =
     (case rBuf of None \<Rightarrow> Some (0, None)
      | Some r \<Rightarrow>
          if len = 0 then Some (0, Some r)
          else
            let available = ADF_RINGBUF_CALC_WR_SIZE (rb_wp r) (rb_rp r) (rb_base r) (rb_limit r)
            in if len \<ge> available \<and> rb_dropunit r = 0 then None
               else
                 let len = (if len \<ge> available
                            then s32 (available - (available smod rb_dropunit r)) else len)
                 in Some (len, Some (r\<lparr>rb_rp := ADF_RINGBUF_MOVE_PTR (rb_rp r)
                      (s32 (s32 (rb_limit r - rb_base r) - len)) (rb_base r) (rb_limit r)\<rparr>)))"

definition adfRingbuf_write ::
    "adfRingbuf_t option \<Rightarrow> u8 list option \<Rightarrow> int \<Rightarrow> (int \<times> adfRingbuf_t option) option" where
  "adfRingbuf_write rBuf data len =
     (case (rBuf, data) of
        (None, _) \<Rightarrow> Some (0, None)
      | (Some r, None) \<Rightarrow> Some (0, Some r)
      | (Some r, Some src) \<Rightarrow>
          if len = 0 then Some (0, Some r)
          else
            let (len, r) = adfRingbuf_checkDrop r len;
                lenToEnd = s32 (rb_limit r - rb_wp r)
            in do {
                 r' \<leftarrow> (if lenToEnd \<ge> len
                   then do { xs \<leftarrow> mem_load src 0 len; rb_store r (rb_wp r) xs }
                   else do { xs \<leftarrow> mem_load src 0 lenToEnd;
                             r1 \<leftarrow> rb_store r (rb_wp r) xs;
                             ys \<leftarrow> mem_load src lenToEnd (s32 (len - lenToEnd));
                             rb_store r1 (rb_base r) ys });
                 Some (len, Some (r'\<lparr>rb_wp :=
                   ADF_RINGBUF_MOVE_PTR (rb_wp r') len (rb_base r') (rb_limit r')\<rparr>)) })"

definition adfRingbuf_add :: "adfRingbuf_t option \<Rightarrow> int \<Rightarrow> int \<times> adfRingbuf_t option" where
  "adfRingbuf_add rBuf len =
     (case rBuf of None \<Rightarrow> (0, None)
      | Some r \<Rightarrow>
          if len = 0 then (0, Some r)
          else
            let (len, r) = adfRingbuf_checkDrop r len
            in (len, Some (r\<lparr>rb_wp :=
                 ADF_RINGBUF_MOVE_PTR (rb_wp r) len (rb_base r) (rb_limit r)\<rparr>)))"

text \<open>\<open>ptr\<close> is the new write position as an offset from the struct (\<^verbatim>\<open>ptr - (char *)rBuf\<close>).\<close>

definition adfRingbuf_apply :: "adfRingbuf_t option \<Rightarrow> int \<Rightarrow> int \<times> adfRingbuf_t option" where
  "adfRingbuf_apply rBuf ptr =
     (case rBuf of None \<Rightarrow> (0, None)
      | Some r \<Rightarrow>
          let new = s32 ptr in
          if new = rb_wp r \<or> \<not> ADF_RINGBUF_IN_RANGE new (rb_base r) (rb_limit r)
          then (0, Some r)
          else
            let len = ADF_RINGBUF_CALC_RW_SIZE (rb_wp r) new (rb_base r) (rb_limit r);
                (len, r) = adfRingbuf_checkDrop r len
            in (len, Some (r\<lparr>rb_wp :=
                 ADF_RINGBUF_MOVE_PTR (rb_wp r) len (rb_base r) (rb_limit r)\<rparr>)))"

definition adfRingbuf_reset :: "adfRingbuf_t option \<Rightarrow> int \<times> adfRingbuf_t option" where
  "adfRingbuf_reset rBuf =
     (case rBuf of None \<Rightarrow> (ADF_STATUS_NOT_SUPPORTED, None)
      | Some r \<Rightarrow>
          if rb_base r = 0 \<or> rb_limit r = 0 then (ADF_STATUS_NOT_SUPPORTED, Some r)
          else (ADF_STATUS_OK, Some (r\<lparr>rb_rp := rb_base r, rb_wp := rb_base r, rb_drop := 0\<rparr>)))"

text \<open>
  \<open>buf\<close> is the buffer handed in: its offset from the struct (\<^verbatim>\<open>(char *)buf - (char *)rBuf\<close>) and
  its bytes, which become the memory behind the struct.
\<close>

definition adfRingbuf_init ::
    "adfRingbuf_t option \<Rightarrow> (int \<times> u8 list) option \<Rightarrow> int \<Rightarrow> int \<Rightarrow> int \<times> adfRingbuf_t option" where
  "adfRingbuf_init rBuf buf sz dropunit =
     (case (rBuf, buf) of
        (None, _) \<Rightarrow> (ADF_STATUS_NOT_SUPPORTED, None)
      | (Some r, None) \<Rightarrow> (ADF_STATUS_NOT_SUPPORTED, Some r)
      | (Some r, Some (at, bytes)) \<Rightarrow>
          if sz = 0 \<or> (sz AND 3) \<noteq> 0 then (ADF_STATUS_NOT_SUPPORTED, Some r)
          else
            let base = s32 at
            in adfRingbuf_reset (Some (r\<lparr>rb_base := base, rb_limit := s32 (base + sz),
                 rb_dropunit := dropunit, rb_rsvd := [0, 0],
                 rb_buf_at := at, rb_bytes := bytes\<rparr>)))"

definition adfRingbuf_deinit :: "adfRingbuf_t option \<Rightarrow> int" where
  "adfRingbuf_deinit rBuf =
     (case rBuf of None \<Rightarrow> ADF_STATUS_NOT_SUPPORTED | Some _ \<Rightarrow> ADF_STATUS_OK)"

lemmas rb_macro_defs = ADF_RINGBUF_MOVE_PTR_def ADF_RINGBUF_IN_RANGE_def
  ADF_RINGBUF_CALC_RW_SIZE_def ADF_RINGBUF_CALC_WR_SIZE_def

section \<open>The abstraction: a bounded queue of bytes\<close>

text \<open>
  The well-formed states.  The bound on the offsets (512 MiB either side of the struct) is what
  keeps the code's \<^verbatim>\<open>int32_t\<close> sums from wrapping.
\<close>

definition rb_inv :: "adfRingbuf_t \<Rightarrow> bool" where
  "rb_inv r \<longleftrightarrow>
     - 536870912 \<le> rb_base r \<and> rb_limit r \<le> 536870912 \<and> rb_base r < rb_limit r \<and>
     ADF_RINGBUF_IN_RANGE (rb_rp r) (rb_base r) (rb_limit r) \<and>
     ADF_RINGBUF_IN_RANGE (rb_wp r) (rb_base r) (rb_limit r) \<and>
     rb_buf_at r = rb_base r \<and> int (length (rb_bytes r)) = rb_limit r - rb_base r"

definition rb_cap :: "adfRingbuf_t \<Rightarrow> nat" where
  "rb_cap r = nat (rb_limit r - rb_base r)"

definition contents :: "adfRingbuf_t \<Rightarrow> u8 list" where
  "contents r = ring_get (rb_bytes r) (nat (rb_rp r - rb_base r))
     (nat (adfRingbuf_getUsedSize (Some r)))"

lemma rb_invD:
  assumes "rb_inv r"
  shows "- 536870912 \<le> rb_base r" "rb_limit r \<le> 536870912" "rb_base r < rb_limit r"
    "rb_base r \<le> rb_rp r" "rb_rp r < rb_limit r" "rb_base r \<le> rb_wp r" "rb_wp r < rb_limit r"
    "rb_buf_at r = rb_base r" "length (rb_bytes r) = rb_cap r" "int (rb_cap r) = rb_limit r - rb_base r"
  using assms by (auto simp: rb_inv_def rb_cap_def ADF_RINGBUF_IN_RANGE_def)

lemma calc_rw:
  assumes "- 536870912 \<le> b" "l \<le> 536870912" "b \<le> s" "s \<le> l" "b \<le> e" "e < l"
  shows "ADF_RINGBUF_CALC_RW_SIZE s e b l = (if s \<le> e then e - s else (l - s) + (e - b))"
  using assms by (simp add: ADF_RINGBUF_CALC_RW_SIZE_def)

lemma calc_wr:
  assumes "- 536870912 \<le> b" "l \<le> 536870912" "b \<le> s" "s < l" "b \<le> e" "e < l"
  shows "ADF_RINGBUF_CALC_WR_SIZE s e b l = (if s < e then e - s else (l - s) + (e - b))"
  using assms by (simp add: ADF_RINGBUF_CALC_WR_SIZE_def)

lemma move_ptr:
  assumes "- 536870912 \<le> b" "l \<le> 536870912" "b \<le> p" "p < l" "0 \<le> n" "n \<le> l - b"
  shows "ADF_RINGBUF_MOVE_PTR p n b l = (if l - p > n then p + n else p + n - (l - b))"
  using assms by (simp add: ADF_RINGBUF_MOVE_PTR_def)

lemma move_ptr_range:
  assumes "- 536870912 \<le> b" "l \<le> 536870912" "b \<le> p" "p < l" "0 \<le> n" "n \<le> l - b"
  shows "b \<le> ADF_RINGBUF_MOVE_PTR p n b l" "ADF_RINGBUF_MOVE_PTR p n b l < l"
  using assms by (simp_all add: move_ptr)

lemma move_ptr_index:
  assumes "- 536870912 \<le> b" "l \<le> 536870912" "b \<le> p" "p < l" "0 \<le> n" "n \<le> l - b"
  shows "nat (ADF_RINGBUF_MOVE_PTR p n b l - b) = (nat (p - b) + nat n) mod nat (l - b)"
proof (cases "l - p > n")
  case True
  then show ?thesis using assms by (simp add: move_ptr flip: nat_add_distrib)
next
  case False
  have "nat (p - b) + nat n = nat (p - b + n)" using assms by arith
  moreover have "nat (p - b + n) mod nat (l - b) = nat (p - b + n) - nat (l - b)"
    using False assms by (intro mod_wrap_nat) auto
  moreover have "nat (p - b + n) - nat (l - b) = nat (p + n - (l - b) - b)" using assms by arith
  ultimately show ?thesis using False assms by (simp only: move_ptr if_False)
qed

lemma calc_wr_rw:
  assumes "- 536870912 \<le> b" "l \<le> 536870912" "b \<le> p" "p < l" "b \<le> w" "w < l"
  shows "ADF_RINGBUF_CALC_WR_SIZE w p b l = (l - b) - ADF_RINGBUF_CALC_RW_SIZE p w b l"
    "ADF_RINGBUF_CALC_RW_SIZE p w b l < l - b"
  using assms by (simp_all add: calc_rw calc_wr)

text \<open>Moving the read position on by \<open>n\<close>, or the write position, changes the used size by \<open>n\<close>.\<close>

lemma calc_rw_move_rp:
  assumes "- 536870912 \<le> b" "l \<le> 536870912" "b \<le> p" "p < l" "b \<le> w" "w < l"
    and "0 \<le> n" "n \<le> ADF_RINGBUF_CALC_RW_SIZE p w b l"
  shows "ADF_RINGBUF_CALC_RW_SIZE (ADF_RINGBUF_MOVE_PTR p n b l) w b l =
     ADF_RINGBUF_CALC_RW_SIZE p w b l - n"
proof -
  have n: "n \<le> (if p \<le> w then w - p else (l - p) + (w - b))" using assms by (simp add: calc_rw)
  then have "n \<le> l - b" using assms(1-7) by (auto split: if_splits)
  then have m: "ADF_RINGBUF_MOVE_PTR p n b l = (if l - p > n then p + n else p + n - (l - b))"
    using assms(1-7) by (simp add: move_ptr)
  show ?thesis
  proof (cases "l - p > n")
    case True
    then show ?thesis using n m assms(1-7) by (cases "p \<le> w") (simp_all add: calc_rw)
  next
    case False
    then show ?thesis using n m assms(1-7) by (cases "p \<le> w") (simp_all add: calc_rw)
  qed
qed

lemma calc_rw_move_wp:
  assumes "- 536870912 \<le> b" "l \<le> 536870912" "b \<le> p" "p < l" "b \<le> w" "w < l"
    and "0 \<le> n" "ADF_RINGBUF_CALC_RW_SIZE p w b l + n < l - b"
  shows "ADF_RINGBUF_CALC_RW_SIZE p (ADF_RINGBUF_MOVE_PTR w n b l) b l =
     ADF_RINGBUF_CALC_RW_SIZE p w b l + n"
proof -
  have n: "(if p \<le> w then w - p else (l - p) + (w - b)) + n < l - b" using assms by (simp add: calc_rw)
  then have "n \<le> l - b" using assms(1-7) by (auto split: if_splits)
  then have m: "ADF_RINGBUF_MOVE_PTR w n b l = (if l - w > n then w + n else w + n - (l - b))"
    using assms(1-7) by (simp add: move_ptr)
  show ?thesis
  proof (cases "l - w > n")
    case True
    then show ?thesis using n m assms(1-7) by (cases "p \<le> w") (simp_all add: calc_rw)
  next
    case False
    then show ?thesis using n m assms(1-7) by (cases "p \<le> w") (simp_all add: calc_rw)
  qed
qed

text \<open>Used and free space: they add up to the size, and the free size is never 0.\<close>

lemma rb_used_range:
  assumes "rb_inv r"
  shows "0 \<le> adfRingbuf_getUsedSize (Some r)"
    "adfRingbuf_getUsedSize (Some r) < rb_limit r - rb_base r"
  using rb_invD [OF assms] by (simp_all add: adfRingbuf_getUsedSize_def calc_rw)

lemma rb_used_plus_free:
  assumes "rb_inv r"
  shows "adfRingbuf_getUsedSize (Some r) + adfRingbuf_getFreeSize (Some r) = rb_limit r - rb_base r"
  using rb_invD [OF assms]
  by (simp add: adfRingbuf_getUsedSize_def adfRingbuf_getFreeSize_def calc_rw calc_wr)

lemma length_contents:
  assumes "rb_inv r"
  shows "int (length (contents r)) = adfRingbuf_getUsedSize (Some r)"
  using rb_used_range [OF assms] by (simp add: contents_def)

lemma free_contents:
  assumes "rb_inv r"
  shows "adfRingbuf_getFreeSize (Some r) = int (rb_cap r) - int (length (contents r))"
  using rb_used_plus_free [OF assms] length_contents [OF assms] rb_invD(10) [OF assms] by simp

lemma rb_wp_index:
  assumes "rb_inv r"
  shows "nat (rb_wp r - rb_base r) =
     (nat (rb_rp r - rb_base r) + length (contents r)) mod length (rb_bytes r)"
proof -
  note inv = rb_invD [OF assms]
  have "rb_wp r = ADF_RINGBUF_MOVE_PTR (rb_rp r) (adfRingbuf_getUsedSize (Some r)) (rb_base r) (rb_limit r)"
    using inv by (simp add: adfRingbuf_getUsedSize_def calc_rw move_ptr)
  then show ?thesis
    using move_ptr_index [of "rb_base r" "rb_limit r" "rb_rp r" "adfRingbuf_getUsedSize (Some r)"]
      inv rb_used_range [OF assms] by (simp add: contents_def rb_cap_def)
qed

section \<open>Reading and flushing\<close>

lemma rb_load_ring:
  assumes "rb_inv r" "rb_base r \<le> p" "p < rb_limit r" "0 \<le> n" "n \<le> rb_limit r - rb_base r"
  shows "(if rb_limit r - p \<ge> n then rb_load r p n
          else do { xs \<leftarrow> rb_load r p (rb_limit r - p);
                    ys \<leftarrow> rb_load r (rb_base r) (n - (rb_limit r - p)); Some (xs @ ys) })
     = Some (ring_get (rb_bytes r) (nat (p - rb_base r)) (nat n))"
proof (cases "rb_limit r - p \<ge> n")
  case True
  then have "rb_load r p n = Some (take (nat n) (drop (nat (p - rb_base r)) (rb_bytes r)))"
    using assms rb_invD [OF assms(1)] unfolding rb_load_def by (subst mem_load_ok) auto
  moreover have "nat (p - rb_base r) + nat n \<le> length (rb_bytes r)"
    using True assms rb_invD(9,10) [OF assms(1)] by arith
  ultimately show ?thesis using True by (simp add: ring_get_straight)
next
  case False
  let ?i = "nat (p - rb_base r)" and ?m = "nat (rb_limit r - p)"
  have len: "length (rb_bytes r) = ?i + ?m"
    using assms rb_invD(9,10) [OF assms(1)] by arith
  have "rb_load r p (rb_limit r - p) = Some (take ?m (drop ?i (rb_bytes r)))"
    using assms rb_invD [OF assms(1)] unfolding rb_load_def by (subst mem_load_ok) auto
  moreover have "rb_load r (rb_base r) (n - (rb_limit r - p)) = Some (take (nat n - ?m) (rb_bytes r))"
    using False assms rb_invD [OF assms(1)] unfolding rb_load_def
    by (subst mem_load_ok) (auto simp: nat_diff_distrib)
  moreover have "ring_get (rb_bytes r) ?i (nat n) =
      take ?m (drop ?i (rb_bytes r)) @ take (nat n - ?m) (rb_bytes r)"
  proof -
    have "?m \<le> nat n" using False assms by arith
    moreover have "nat n \<le> length (rb_bytes r)"
      using assms rb_invD(9,10) [OF assms(1)] by arith
    moreover have "0 + (nat n - ?m) \<le> length (rb_bytes r)" using calculation by arith
    ultimately show ?thesis
      using ring_get_split [of ?m "nat n" "rb_bytes r" ?i] len ring_get_straight [of 0 "nat n - ?m" "rb_bytes r"]
      by (simp add: ring_get_straight)
  qed
  ultimately show ?thesis using False by simp
qed

lemma rb_read_contents:
  assumes "rb_inv r" "0 < len"
  shows "adfRingbuf_read (Some r) True len =
     Some (min len (int (length (contents r))), take (nat len) (contents r))"
proof -
  note inv = rb_invD [OF assms(1)]
  define u where "u = adfRingbuf_getUsedSize (Some r)"
  define n where "n = min len u"
  have u: "0 \<le> u" "u < rb_limit r - rb_base r" "u = int (length (contents r))"
    using rb_used_range [OF assms(1)] length_contents [OF assms(1)] by (simp_all add: u_def)
  have n: "0 \<le> n" "n \<le> rb_limit r - rb_base r" "(if len > u then u else len) = n"
    using u assms(2) by (auto simp: n_def)
  have taken: "take (nat len) (contents r) = ring_get (rb_bytes r) (nat (rb_rp r - rb_base r)) (nat n)"
  proof (cases "len \<le> u")
    case True
    then show ?thesis using assms(2) by (simp add: contents_def u_def n_def ring_get_take)
  next
    case False
    then show ?thesis using u(1) by (simp add: contents_def u_def n_def)
  qed
  have rw: "ADF_RINGBUF_CALC_RW_SIZE (rb_rp r) (rb_wp r) (rb_base r) (rb_limit r) = u"
    by (simp add: u_def adfRingbuf_getUsedSize_def)
  have e: "s32 (rb_limit r - rb_rp r) = rb_limit r - rb_rp r"
    "s32 (n - (rb_limit r - rb_rp r)) = n - (rb_limit r - rb_rp r)" using inv n by simp_all
  note load = rb_load_ring [OF assms(1) inv(4,5) n(1,2)]
  have "min len (int (length (contents r))) = n" unfolding n_def u(3) ..
  then have goal: "?thesis \<longleftrightarrow> adfRingbuf_read (Some r) True len =
      Some (n, ring_get (rb_bytes r) (nat (rb_rp r - rb_base r)) (nat n))"
    by (simp add: taken)
  show ?thesis
  proof (cases "rb_limit r - rb_rp r \<ge> n")
    case True
    with load have "rb_load r (rb_rp r) n = Some (ring_get (rb_bytes r) (nat (rb_rp r - rb_base r)) (nat n))"
      by simp
    then show ?thesis
      unfolding goal using True assms(2) by (simp add: adfRingbuf_read_def Let_def rw n(3) e(1))
  next
    case False
    with load obtain xs ys where "rb_load r (rb_rp r) (rb_limit r - rb_rp r) = Some xs"
      "rb_load r (rb_base r) (n - (rb_limit r - rb_rp r)) = Some ys"
      "xs @ ys = ring_get (rb_bytes r) (nat (rb_rp r - rb_base r)) (nat n)"
      by (auto simp: bind_eq_Some_conv)
    then show ?thesis
      unfolding goal using False assms(2) by (simp add: adfRingbuf_read_def Let_def rw n(3) e)
  qed
qed

lemma rb_advance:
  assumes "rb_inv r" "0 \<le> n" "n \<le> int (length (contents r))"
  defines "r' \<equiv> r\<lparr>rb_rp := ADF_RINGBUF_MOVE_PTR (rb_rp r) n (rb_base r) (rb_limit r)\<rparr>"
  shows "rb_inv r'" "contents r' = drop (nat n) (contents r)" "rb_cap r' = rb_cap r"
proof -
  note inv = rb_invD [OF assms(1)]
  define u where "u = adfRingbuf_getUsedSize (Some r)"
  have u: "u < rb_limit r - rb_base r" "n \<le> u"
    using rb_used_range [OF assms(1)] length_contents [OF assms(1)] assms(3) by (simp_all add: u_def)
  have ruse: "adfRingbuf_getUsedSize (Some r') = u - n"
    using calc_rw_move_rp [of "rb_base r" "rb_limit r" "rb_rp r" "rb_wp r" n] inv assms(2) u(2)
    by (simp add: r'_def u_def adfRingbuf_getUsedSize_def)
  show "rb_inv r'"
    using assms(1,2) inv u move_ptr_range [of "rb_base r" "rb_limit r" "rb_rp r" n]
    by (simp add: r'_def rb_inv_def ADF_RINGBUF_IN_RANGE_def)
  have "nat (rb_rp r' - rb_base r') = (nat (rb_rp r - rb_base r) + nat n) mod length (rb_bytes r)"
    using inv assms(2) u by (simp add: r'_def move_ptr_index rb_cap_def)
  then have "contents r' = ring_get (rb_bytes r)
      ((nat (rb_rp r - rb_base r) + nat n) mod length (rb_bytes r)) (nat u - nat n)"
    using assms(2) u(2) by (simp add: contents_def ruse nat_diff_distrib) (simp add: r'_def)
  then show "contents r' = drop (nat n) (contents r)"
    using u(2) by (simp add: contents_def ring_get_drop flip: u_def)
  show "rb_cap r' = rb_cap r" by (simp add: r'_def rb_cap_def)
qed

lemma rb_flush_advance:
  assumes "rb_inv r" "len \<noteq> 0"
  shows "adfRingbuf_flush (Some r) len =
     (min len (int (length (contents r))), Some (r\<lparr>rb_rp := ADF_RINGBUF_MOVE_PTR (rb_rp r)
        (min len (int (length (contents r)))) (rb_base r) (rb_limit r)\<rparr>))"
proof -
  have "ADF_RINGBUF_CALC_RW_SIZE (rb_rp r) (rb_wp r) (rb_base r) (rb_limit r) = int (length (contents r))"
    using length_contents [OF assms(1)] by (simp add: adfRingbuf_getUsedSize_def)
  then show ?thesis using assms(2) by (simp add: adfRingbuf_flush_def Let_def min_def)
qed

lemma rb_flush_contents:
  assumes "rb_inv r" "0 < len"
  obtains r' where
    "adfRingbuf_flush (Some r) len = (min len (int (length (contents r))), Some r')"
    "rb_inv r'" "contents r' = drop (nat len) (contents r)" "rb_cap r' = rb_cap r"
proof -
  let ?n = "min len (int (length (contents r)))"
  have n: "0 \<le> ?n" "?n \<le> int (length (contents r))" using assms(2) by simp_all
  have "drop (nat ?n) (contents r) = drop (nat len) (contents r)" by (auto simp: min_def)
  then show ?thesis
    using that [OF rb_flush_advance [OF assms(1)] rb_advance(1) [OF assms(1) n]] assms(2)
      rb_advance(2,3) [OF assms(1) n] by simp
qed

section \<open>Writing\<close>

lemma rb_store_ring:
  assumes "rb_inv r" "rb_base r \<le> p" "p < rb_limit r" "length xs \<le> rb_cap r"
  shows "(if rb_limit r - p \<ge> int (length xs) then rb_store r p xs
          else do { r1 \<leftarrow> rb_store r p (take (nat (rb_limit r - p)) xs);
                    rb_store r1 (rb_base r) (drop (nat (rb_limit r - p)) xs) })
     = Some (r\<lparr>rb_bytes := ring_put (rb_bytes r) (nat (p - rb_base r)) xs\<rparr>)"
proof -
  note inv = rb_invD [OF assms(1)]
  let ?i = "nat (p - rb_base r)" and ?m = "nat (rb_limit r - p)" and ?bs = "rb_bytes r"
  have len: "length ?bs = ?i + ?m" using assms inv(9,10) by arith
  show ?thesis
  proof (cases "rb_limit r - p \<ge> int (length xs)")
    case True
    then have le: "?i + length xs \<le> length ?bs" using len by arith
    have "mem_store ?bs (p - rb_buf_at r) xs = Some (take ?i ?bs @ xs @ drop (?i + length xs) ?bs)"
      using assms inv le by (subst mem_store_ok) auto
    then show ?thesis using True by (simp add: rb_store_def ring_put_straight [OF le])
  next
    case False
    then have m: "?m < length xs" using assms by arith
    have lx: "length xs \<le> length ?bs" using assms(4) inv(9) by simp
    have i: "?i < length ?bs" using len assms(3) by simp
    let ?bs1 = "take ?i ?bs @ take ?m xs"
    have "mem_store ?bs (p - rb_buf_at r) (take ?m xs) = Some ?bs1"
      using assms inv len m by (subst mem_store_ok) auto
    moreover have "mem_store ?bs1 0 (drop ?m xs) = Some (drop ?m xs @ drop (length xs - ?m) ?bs1)"
      using len m lx by (subst mem_store_ok) auto
    moreover have "drop ?m xs @ drop (length xs - ?m) ?bs1 = ring_put ?bs ?i xs"
      using ring_put_wrap [OF i lx] len m lx by simp
    ultimately show ?thesis using False inv(8) by (simp add: rb_store_def)
  qed
qed

text \<open>What a write does once \<open>adfRingbuf_checkDrop\<close> has fixed the length.\<close>

lemma rb_write_core:
  assumes chk: "adfRingbuf_checkDrop r0 len0 = (len, r)" "len0 \<noteq> 0"
    and inv: "rb_inv r" and len: "0 \<le> len" "len \<le> rb_limit r - rb_base r" "len \<le> int (length src)"
  shows "adfRingbuf_write (Some r0) (Some src) len0 =
     Some (len, Some (r\<lparr>
       rb_bytes := ring_put (rb_bytes r) (nat (rb_wp r - rb_base r)) (take (nat len) src),
       rb_wp := ADF_RINGBUF_MOVE_PTR (rb_wp r) len (rb_base r) (rb_limit r)\<rparr>))"
proof -
  note i = rb_invD [OF inv]
  let ?xs = "take (nat len) src" and ?k = "rb_limit r - rb_wp r"
  have lx: "int (length ?xs) = len" "length ?xs \<le> rb_cap r" using len i(10) by auto
  have e: "s32 ?k = ?k" "s32 (len - ?k) = len - ?k" using i len by simp_all
  have l1: "mem_load src 0 len = Some ?xs" using len by (subst mem_load_ok) auto
  note st = rb_store_ring [OF inv i(6,7) lx(2)]
  have copied: "(if ?k \<ge> len
         then do { xs \<leftarrow> mem_load src 0 len; rb_store r (rb_wp r) xs }
         else do { xs \<leftarrow> mem_load src 0 ?k; r1 \<leftarrow> rb_store r (rb_wp r) xs;
                   ys \<leftarrow> mem_load src ?k (len - ?k); rb_store r1 (rb_base r) ys })
      = Some (r\<lparr>rb_bytes := ring_put (rb_bytes r) (nat (rb_wp r - rb_base r)) ?xs\<rparr>)"
  proof (cases "?k \<ge> len")
    case True
    then show ?thesis using st l1 lx(1) by simp
  next
    case False
    have "mem_load src 0 ?k = Some (take (nat ?k) ?xs)"
      using False len i by (subst mem_load_ok) (auto simp: min_def)
    moreover have "mem_load src ?k (len - ?k) = Some (drop (nat ?k) ?xs)"
      using False len i by (subst mem_load_ok) (auto simp: nat_diff_distrib drop_take)
    ultimately show ?thesis using st False lx(1) by simp
  qed
  show ?thesis
    unfolding adfRingbuf_write_def using chk(2)
    by (simp only: chk(1) prod.case option.case Let_def e copied Option.bind.simps if_False simp_thms)
      simp
qed

lemma rb_put_contents:
  assumes "rb_inv r" "length (contents r) + length xs < rb_cap r"
  defines "r' \<equiv> r\<lparr>rb_bytes := ring_put (rb_bytes r) (nat (rb_wp r - rb_base r)) xs,
     rb_wp := ADF_RINGBUF_MOVE_PTR (rb_wp r) (int (length xs)) (rb_base r) (rb_limit r)\<rparr>"
  shows "rb_inv r'" "contents r' = contents r @ xs" "rb_cap r' = rb_cap r"
proof -
  note inv = rb_invD [OF assms(1)]
  let ?n = "int (length xs)"
  have n: "0 \<le> ?n" "?n \<le> rb_limit r - rb_base r" using assms(2) inv(10) by simp_all
  show cap: "rb_cap r' = rb_cap r" by (simp add: r'_def rb_cap_def)
  show "rb_inv r'"
    using assms(1) inv n move_ptr_range [of "rb_base r" "rb_limit r" "rb_wp r" ?n]
    by (simp add: r'_def rb_inv_def ADF_RINGBUF_IN_RANGE_def)
  have "adfRingbuf_getUsedSize (Some r') = adfRingbuf_getUsedSize (Some r) + ?n"
    using calc_rw_move_wp [of "rb_base r" "rb_limit r" "rb_rp r" "rb_wp r" ?n] inv n
      length_contents [OF assms(1)] assms(2)
    by (simp add: r'_def adfRingbuf_getUsedSize_def)
  then have u: "nat (adfRingbuf_getUsedSize (Some r')) = length (contents r) + length xs"
    using length_contents [OF assms(1)] by simp
  have "contents r' = ring_get (ring_put (rb_bytes r) (nat (rb_wp r - rb_base r)) xs)
      (nat (rb_rp r - rb_base r)) (length (contents r) + length xs)"
    unfolding contents_def u by (simp add: r'_def)
  also have "\<dots> = ring_get (rb_bytes r) (nat (rb_rp r - rb_base r)) (length (contents r)) @ xs"
    using assms(2) inv rb_wp_index [OF assms(1)]
    by (intro ring_get_put_append) auto
  also have "ring_get (rb_bytes r) (nat (rb_rp r - rb_base r)) (length (contents r)) = contents r"
    using length_contents [OF assms(1)] by (simp add: contents_def)
  finally show "contents r' = contents r @ xs" .
qed

lemma rb_write_fits:
  assumes "rb_inv r" "0 < len" "len < adfRingbuf_getFreeSize (Some r)" "len \<le> int (length src)"
  obtains r' where "adfRingbuf_write (Some r) (Some src) len = Some (len, Some r')"
    "rb_inv r'" "contents r' = contents r @ take (nat len) src" "rb_cap r' = rb_cap r"
    "rb_drop r' = rb_drop r"
proof -
  note inv = rb_invD [OF assms(1)]
  have "adfRingbuf_checkDrop r len = (len, r)"
    using assms(3) by (simp add: adfRingbuf_checkDrop_def adfRingbuf_getFreeSize_def)
  moreover have "len \<le> rb_limit r - rb_base r"
    using assms(3) free_contents [OF assms(1)] inv(10) by simp
  ultimately have w: "adfRingbuf_write (Some r) (Some src) len =
     Some (len, Some (r\<lparr>
       rb_bytes := ring_put (rb_bytes r) (nat (rb_wp r - rb_base r)) (take (nat len) src),
       rb_wp := ADF_RINGBUF_MOVE_PTR (rb_wp r) len (rb_base r) (rb_limit r)\<rparr>))"
    using assms by (intro rb_write_core) auto
  have l: "int (length (take (nat len) src)) = len" using assms(2,4) by simp
  have "length (contents r) + length (take (nat len) src) < rb_cap r"
    using assms(3) l free_contents [OF assms(1)] by linarith
  from rb_put_contents [OF assms(1) this] show ?thesis
    using that [OF w] by (simp only: l) simp
qed

section \<open>Writing more than fits\<close>

text \<open>The length \<open>adfRingbuf_checkDrop\<close> discards: \<open>k\<close> rounded up to a multiple of the drop unit.\<close>

definition rb_droplen :: "int \<Rightarrow> int \<Rightarrow> int" where
  "rb_droplen k du = (k + du - 1) - (k + du - 1) mod du"

lemma rb_droplen_bounds:
  assumes "0 \<le> k" "0 < du"
  shows "k \<le> rb_droplen k du" "rb_droplen k du < k + du"
proof -
  have "0 \<le> (k + du - 1) mod du" "(k + du - 1) mod du < du" using assms(2) by simp_all
  then show "k \<le> rb_droplen k du" "rb_droplen k du < k + du" by (simp_all add: rb_droplen_def)
qed

lemma rb_droplen_dvd: "du dvd k \<Longrightarrow> 0 < du \<Longrightarrow> rb_droplen k du = k"
proof -
  assume "du dvd k" "0 < du"
  then have "(k + (du - 1)) mod du = du - 1" by (auto elim!: dvdE simp: zmod_minus1)
  then show ?thesis by (simp add: rb_droplen_def algebra_simps)
qed

lemma rb_droplen_strict: "\<not> du dvd k \<Longrightarrow> 0 < du \<Longrightarrow> 0 \<le> k \<Longrightarrow> k < rb_droplen k du"
proof -
  assume a: "\<not> du dvd k" "0 < du" "0 \<le> k"
  have "du dvd rb_droplen k du" by (simp add: rb_droplen_def)
  then show ?thesis using a rb_droplen_bounds(1) [of k du] by (cases "rb_droplen k du = k") auto
qed

lemma rb_checkDrop_drops:
  assumes "rb_inv r" "0 < rb_dropunit r" "rb_dropunit r \<le> 536870912"
    and "adfRingbuf_getFreeSize (Some r) \<le> len" "len \<le> rb_limit r - rb_base r"
  shows "adfRingbuf_checkDrop r len =
     (let d = rb_droplen (len - adfRingbuf_getFreeSize (Some r)) (rb_dropunit r)
      in (len, r\<lparr>rb_drop := s32 (rb_drop r + d),
                 rb_rp := ADF_RINGBUF_MOVE_PTR (rb_rp r) d (rb_base r) (rb_limit r)\<rparr>))"
proof -
  note inv = rb_invD [OF assms(1)]
  define f where "f = adfRingbuf_getFreeSize (Some r)"
  define du where "du = rb_dropunit r"
  have f: "ADF_RINGBUF_CALC_WR_SIZE (rb_wp r) (rb_rp r) (rb_base r) (rb_limit r) = f"
    by (simp add: f_def adfRingbuf_getFreeSize_def)
  have f0: "0 \<le> f" using rb_used_plus_free [OF assms(1)] rb_used_range [OF assms(1)] by (simp add: f_def)
  have du: "0 < du" "du \<le> 536870912" "f \<le> len" using assms(2-4) by (simp_all add: du_def f_def)
  have b: "len - f \<le> 1073741824" using assms(5) inv(1,2) f0 by simp
  have k: "s32 (s32 (s32 (len - f) + du) - 1) = len - f + du - 1" using du b by simp
  have "(len - f + du - 1) smod du = (len - f + du - 1) mod du" using du by (intro smod_pos) auto
  moreover have "s32 (rb_droplen (len - f) du) = rb_droplen (len - f) du"
    using rb_droplen_bounds [of "len - f" du] du b by simp
  ultimately show ?thesis
    using du unfolding adfRingbuf_checkDrop_def f k Let_def f_def [symmetric] du_def [symmetric]
    by (simp add: rb_droplen_def)
qed

lemma rb_drop_irrelevant [simp]:
  "rb_inv (r\<lparr>rb_drop := x\<rparr>) = rb_inv r" "contents (r\<lparr>rb_drop := x\<rparr>) = contents r"
  "rb_cap (r\<lparr>rb_drop := x\<rparr>) = rb_cap r"
  by (simp_all add: rb_inv_def contents_def rb_cap_def adfRingbuf_getUsedSize_def)

lemma rb_write_drops:
  assumes "rb_inv r" "0 < rb_dropunit r" "rb_dropunit r \<le> 536870912"
    and "adfRingbuf_getFreeSize (Some r) \<le> len" "len \<le> int (length src)"
    and "d = rb_droplen (len - adfRingbuf_getFreeSize (Some r)) (rb_dropunit r)"
    and "d \<le> int (length (contents r))"
    and "len - adfRingbuf_getFreeSize (Some r) < d"
  obtains r' where "adfRingbuf_write (Some r) (Some src) len = Some (len, Some r')"
    "rb_inv r'" "contents r' = drop (nat d) (contents r) @ take (nat len) src"
    "rb_drop r' = s32 (rb_drop r + d)"
proof -
  note inv = rb_invD [OF assms(1)]
  have d0: "0 \<le> d" using assms(4,8) by simp
  have free: "0 < adfRingbuf_getFreeSize (Some r)"
    "int (length (contents r)) + adfRingbuf_getFreeSize (Some r) = rb_limit r - rb_base r"
    using rb_used_range [OF assms(1)] rb_used_plus_free [OF assms(1)] length_contents [OF assms(1)]
    by simp_all
  have len: "0 < len" "len \<le> rb_limit r - rb_base r" using free assms(4,7,8) by linarith+
  define r1 where "r1 = r\<lparr>rb_rp := ADF_RINGBUF_MOVE_PTR (rb_rp r) d (rb_base r) (rb_limit r)\<rparr>"
  define r2 where "r2 = r1\<lparr>rb_drop := s32 (rb_drop r + d)\<rparr>"
  note adv = rb_advance [OF assms(1) d0 assms(7), folded r1_def]
  have r2: "rb_inv r2" "contents r2 = drop (nat d) (contents r)" "rb_cap r2 = rb_cap r"
    using adv by (simp_all add: r2_def)
  have "adfRingbuf_checkDrop r len = (len, r2)"
    using rb_checkDrop_drops [OF assms(1-4) len(2)] by (simp add: r2_def r1_def assms(6) [symmetric])
  moreover have "rb_limit r2 - rb_base r2 = rb_limit r - rb_base r" by (simp add: r2_def r1_def)
  ultimately have w: "adfRingbuf_write (Some r) (Some src) len =
     Some (len, Some (r2\<lparr>
       rb_bytes := ring_put (rb_bytes r2) (nat (rb_wp r2 - rb_base r2)) (take (nat len) src),
       rb_wp := ADF_RINGBUF_MOVE_PTR (rb_wp r2) len (rb_base r2) (rb_limit r2)\<rparr>))"
    using r2 len assms(5) by (intro rb_write_core) auto
  have l: "int (length (take (nat len) src)) = len" using len assms(5) by simp
  have "length (contents r2) + length (take (nat len) src) < rb_cap r2"
    using r2 l assms(7,8) free inv(10) by simp
  from rb_put_contents [OF r2(1) this] show ?thesis
    using that [OF w] by (simp only: l, simp add: r2, simp add: r2_def r1_def)
qed

lemma rb_move_full:
  assumes "- 536870912 \<le> b" "l \<le> 536870912" "b \<le> p" "p < l" "b \<le> w" "w < l"
    and "k = n - ADF_RINGBUF_CALC_WR_SIZE w p b l" "0 \<le> k" "k \<le> ADF_RINGBUF_CALC_RW_SIZE p w b l"
  shows "ADF_RINGBUF_MOVE_PTR w n b l = ADF_RINGBUF_MOVE_PTR p k b l"
proof -
  have "ADF_RINGBUF_CALC_RW_SIZE p w b l = (if p \<le> w then w - p else (l - p) + (w - b))"
    "ADF_RINGBUF_CALC_WR_SIZE w p b l = (if w < p then p - w else (l - w) + (p - b))"
    using assms by (simp_all add: calc_rw calc_wr)
  then show ?thesis
    using assms by (cases "w < p") (simp_all add: move_ptr)
qed

lemma rb_write_exact_multiple:
  assumes "rb_inv r" "0 < rb_dropunit r" "rb_dropunit r \<le> 536870912"
    and "adfRingbuf_getFreeSize (Some r) \<le> len" "len \<le> int (length src)"
    and "rb_dropunit r dvd len - adfRingbuf_getFreeSize (Some r)" "len \<le> rb_limit r - rb_base r"
  obtains r' where "adfRingbuf_write (Some r) (Some src) len = Some (len, Some r')"
    "rb_inv r'" "contents r' = []"
proof -
  note inv = rb_invD [OF assms(1)]
  define k where "k = len - adfRingbuf_getFreeSize (Some r)"
  have k: "0 \<le> k" "k \<le> int (length (contents r))" "rb_droplen k (rb_dropunit r) = k"
    using assms free_contents [OF assms(1)] inv(10) by (simp_all add: k_def rb_droplen_dvd)
  have len: "0 < len"
    using assms(4) rb_used_range [OF assms(1)] rb_used_plus_free [OF assms(1)] by simp
  define r1 where "r1 = r\<lparr>rb_rp := ADF_RINGBUF_MOVE_PTR (rb_rp r) k (rb_base r) (rb_limit r)\<rparr>"
  define r2 where "r2 = r1\<lparr>rb_drop := s32 (rb_drop r + k)\<rparr>"
  have r2: "rb_inv r2" using rb_advance(1) [OF assms(1) k(1,2), folded r1_def] by (simp add: r2_def)
  have "adfRingbuf_checkDrop r len = (len, r2)"
    using rb_checkDrop_drops [OF assms(1-4,7)] k(3) by (simp add: r2_def r1_def flip: k_def)
  moreover have "rb_limit r2 - rb_base r2 = rb_limit r - rb_base r" by (simp add: r2_def r1_def)
  ultimately have w: "adfRingbuf_write (Some r) (Some src) len =
     Some (len, Some (r2\<lparr>
       rb_bytes := ring_put (rb_bytes r2) (nat (rb_wp r2 - rb_base r2)) (take (nat len) src),
       rb_wp := ADF_RINGBUF_MOVE_PTR (rb_wp r2) len (rb_base r2) (rb_limit r2)\<rparr>))" (is "_ = Some (len, Some ?r')")
    using r2 len assms(5,7) by (intro rb_write_core) auto
  have "k \<le> ADF_RINGBUF_CALC_RW_SIZE (rb_rp r) (rb_wp r) (rb_base r) (rb_limit r)"
    using k(2) length_contents [OF assms(1)] by (simp add: adfRingbuf_getUsedSize_def)
  then have "rb_wp ?r' = rb_rp ?r'"
    using rb_move_full [of "rb_base r" "rb_limit r" "rb_rp r" "rb_wp r" k len] inv k(1)
    by (simp add: r2_def r1_def k_def adfRingbuf_getFreeSize_def)
  then have "adfRingbuf_getUsedSize (Some ?r') = 0"
    by (simp add: adfRingbuf_getUsedSize_def ADF_RINGBUF_CALC_RW_SIZE_def)
  then have "contents ?r' = []" unfolding contents_def by simp
  moreover have "rb_inv ?r'"
    using r2 rb_invD [OF r2] assms(7) len
      move_ptr_range [of "rb_base r2" "rb_limit r2" "rb_wp r2" len] \<open>rb_limit r2 - rb_base r2 = _\<close>
    by (simp add: rb_inv_def ADF_RINGBUF_IN_RANGE_def)
  ultimately show ?thesis using that [OF w] by blast
qed

text \<open>
  Without a drop unit the write is cut to four bytes less than the free size; when fewer than
  four bytes are free the count is negative, and \<^verbatim>\<open>memcpy\<close> gets it as a huge \<^verbatim>\<open>size_t\<close>.
\<close>

lemma rb_checkDrop_cuts:
  assumes "rb_inv r" "rb_dropunit r \<le> 0" "adfRingbuf_getFreeSize (Some r) \<le> len"
  shows "adfRingbuf_checkDrop r len = (adfRingbuf_getFreeSize (Some r) - 4, r)"
proof -
  note inv = rb_invD [OF assms(1)]
  define f where "f = ADF_RINGBUF_CALC_WR_SIZE (rb_wp r) (rb_rp r) (rb_base r) (rb_limit r)"
  have f: "adfRingbuf_getFreeSize (Some r) = f" by (simp add: f_def adfRingbuf_getFreeSize_def)
  have "0 < f" "f \<le> rb_limit r - rb_base r"
    using rb_used_range [OF assms(1)] rb_used_plus_free [OF assms(1)] f by simp_all
  then have "s32 (f - 4) = f - 4" using inv(1,2) by simp
  then show ?thesis using assms(2,3) by (simp add: f adfRingbuf_checkDrop_def flip: f_def)
qed

lemma rb_write_cut_faults:
  assumes "rb_inv r" "rb_dropunit r \<le> 0" "adfRingbuf_getFreeSize (Some r) \<le> len"
    and "adfRingbuf_getFreeSize (Some r) < 4"
  shows "adfRingbuf_write (Some r) (Some src) len = None"
proof -
  note inv = rb_invD [OF assms(1)]
  have "len \<noteq> 0" using assms(3) rb_used_range [OF assms(1)] rb_used_plus_free [OF assms(1)] by simp
  moreover have "adfRingbuf_getFreeSize (Some r) - 4 \<le> s32 (rb_limit r - rb_wp r)"
    using inv(1-7) assms(4) by simp
  moreover have "mem_load src 0 (adfRingbuf_getFreeSize (Some r) - 4) = None"
    using assms(4) by (simp add: mem_load_neg)
  ultimately show ?thesis
    by (simp add: adfRingbuf_write_def rb_checkDrop_cuts [OF assms(1-3)])
qed

lemma rb_write_cuts:
  assumes "rb_inv r" "rb_dropunit r \<le> 0" "adfRingbuf_getFreeSize (Some r) \<le> len"
    and "4 < adfRingbuf_getFreeSize (Some r)" "len \<le> int (length src)"
  obtains r' where
    "adfRingbuf_write (Some r) (Some src) len = Some (adfRingbuf_getFreeSize (Some r) - 4, Some r')"
    "rb_inv r'"
    "contents r' = contents r @ take (nat (adfRingbuf_getFreeSize (Some r) - 4)) src"
proof -
  define n where "n = adfRingbuf_getFreeSize (Some r) - 4"
  have n: "0 < n" "n < adfRingbuf_getFreeSize (Some r)" "n \<le> int (length src)" "len \<noteq> 0"
    using assms(3-5) by (simp_all add: n_def)
  have "adfRingbuf_checkDrop r n = (n, r)"
    using n(2) by (simp add: adfRingbuf_checkDrop_def adfRingbuf_getFreeSize_def)
  then have "adfRingbuf_write (Some r) (Some src) len = adfRingbuf_write (Some r) (Some src) n"
    using n(1,4) rb_checkDrop_cuts [OF assms(1-3)]
    by (simp add: adfRingbuf_write_def n_def)
  with rb_write_fits [OF assms(1) n(1-3)] that show ?thesis by (metis n_def)
qed

section \<open>Reserving, initialising\<close>

lemma rb_reserve_undoes_flush:
  assumes "rb_inv r" "0 < n" "n \<le> int (length (contents r))"
  shows "adfRingbuf_reserve (snd (adfRingbuf_flush (Some r) n)) n = Some (n, Some r)"
proof -
  note inv = rb_invD [OF assms(1)]
  let ?b = "rb_base r" and ?l = "rb_limit r" and ?p = "rb_rp r" and ?w = "rb_wp r"
  define p' where "p' = ADF_RINGBUF_MOVE_PTR ?p n ?b ?l"
  have n: "0 \<le> n" "n < ?l - ?b" "n \<le> ADF_RINGBUF_CALC_RW_SIZE ?p ?w ?b ?l"
    using assms rb_used_range [OF assms(1)] length_contents [OF assms(1)]
    by (simp_all add: adfRingbuf_getUsedSize_def)
  have p': "?b \<le> p'" "p' < ?l" "p' = (if ?l - ?p > n then ?p + n else ?p + n - (?l - ?b))"
    using inv n move_ptr_range [of ?b ?l ?p n] by (simp_all add: p'_def move_ptr)
  have fl: "snd (adfRingbuf_flush (Some r) n) = Some (r\<lparr>rb_rp := p'\<rparr>)"
    using rb_flush_advance [OF assms(1), of n] assms(2,3) by (simp add: p'_def)
  have "n < ADF_RINGBUF_CALC_WR_SIZE ?w p' ?b ?l"
    using calc_rw_move_rp [of ?b ?l ?p ?w n, folded p'_def] inv n p'(1,2)
      calc_wr_rw [of ?b ?l p' ?w] calc_wr_rw(2) [of ?b ?l ?p ?w] by simp
  moreover have "s32 (s32 (?l - ?b) - n) = ?l - ?b - n" using inv n by simp
  moreover have "ADF_RINGBUF_MOVE_PTR p' (?l - ?b - n) ?b ?l = ?p"
    using inv n p' by (cases "?l - ?p > n") (simp_all add: move_ptr)
  ultimately show ?thesis using assms(2) by (simp add: fl adfRingbuf_reserve_def Let_def)
qed

lemma and_3_mod_4: "(x::int) AND 3 = x mod 4"
  using take_bit_eq_mask [of 2 x] by (simp add: take_bit_eq_mod mask_eq_exp_minus_1)

lemma rb_init_ok:
  assumes "0 < sz" "sz mod 4 = 0" "at \<noteq> 0" "at + sz \<noteq> 0" "- 536870912 \<le> at" "at + sz \<le> 536870912"
    and "int (length bytes) = sz"
  obtains r' where "adfRingbuf_init (Some r) (Some (at, bytes)) sz du = (ADF_STATUS_OK, Some r')"
    "rb_inv r'" "contents r' = []" "int (rb_cap r') = sz" "rb_dropunit r' = du" "rb_drop r' = 0"
    "adfRingbuf_checkValid r' at sz"
proof -
  let ?r = "r\<lparr>rb_base := at, rb_limit := at + sz, rb_dropunit := du, rb_rsvd := [0, 0],
     rb_buf_at := at, rb_bytes := bytes, rb_rp := at, rb_wp := at, rb_drop := 0\<rparr>"
  have "adfRingbuf_init (Some r) (Some (at, bytes)) sz du = (ADF_STATUS_OK, Some ?r)"
    using assms by (simp add: adfRingbuf_init_def adfRingbuf_reset_def and_3_mod_4)
  moreover have "rb_inv ?r" using assms by (simp add: rb_inv_def ADF_RINGBUF_IN_RANGE_def)
  moreover have "contents ?r = []"
    by (simp add: contents_def adfRingbuf_getUsedSize_def ADF_RINGBUF_CALC_RW_SIZE_def)
  moreover have "adfRingbuf_checkValid ?r at sz"
    using assms by (simp add: adfRingbuf_checkValid_def ADF_RINGBUF_IN_RANGE_def)
  ultimately show ?thesis using that [of ?r] assms(1) by (simp add: rb_cap_def)
qed

section \<open>The interface: a bounded byte queue\<close>

text \<open>
  What a client of a ring buffer relies on.  A client runs a sequence of \<open>Put\<close> (a write) and
  \<open>Take\<close> (a read followed by a flush); \<open>fifo_spec\<close> is the queue it believes in, with the bytes
  taken out, \<open>fifo_fits\<close> says that no write exceeds the free space.
\<close>

datatype 'b fifo_op = Put "'b list" | Take nat

fun fifo_spec :: "'b list \<Rightarrow> 'b fifo_op list \<Rightarrow> 'b list \<times> 'b list" where
  "fifo_spec q [] = (q, [])"
| "fifo_spec q (Put xs # ops) = fifo_spec (q @ xs) ops"
| "fifo_spec q (Take n # ops) = (let (q', out) = fifo_spec (drop n q) ops in (q', take n q @ out))"

fun fifo_fits :: "nat \<Rightarrow> 'b list \<Rightarrow> 'b fifo_op list \<Rightarrow> bool" where
  "fifo_fits c q [] = True"
| "fifo_fits c q (Put xs # ops) = (length q + length xs < c \<and> fifo_fits c (q @ xs) ops)"
| "fifo_fits c q (Take n # ops) = fifo_fits c (drop n q) ops"

fun fifo_run ::
    "('r \<Rightarrow> 'b list \<Rightarrow> 'r option) \<Rightarrow> ('r \<Rightarrow> nat \<Rightarrow> 'b list option) \<Rightarrow> ('r \<Rightarrow> nat \<Rightarrow> 'r option) \<Rightarrow>
      'r \<Rightarrow> 'b fifo_op list \<Rightarrow> ('r \<times> 'b list) option" where
  "fifo_run put get discard r [] = Some (r, [])"
| "fifo_run put get discard r (Put xs # ops) =
     do { r' \<leftarrow> put r xs; fifo_run put get discard r' ops }"
| "fifo_run put get discard r (Take n # ops) =
     do { xs \<leftarrow> get r n; r' \<leftarrow> discard r n;
          (r'', out) \<leftarrow> fifo_run put get discard r' ops; Some (r'', xs @ out) }"

locale byte_fifo =
  fixes invar :: "'r \<Rightarrow> bool"
    and capacity :: "'r \<Rightarrow> nat"
    and queue :: "'r \<Rightarrow> 'b list"
    and put :: "'r \<Rightarrow> 'b list \<Rightarrow> 'r option"
    and get :: "'r \<Rightarrow> nat \<Rightarrow> 'b list option"
    and discard :: "'r \<Rightarrow> nat \<Rightarrow> 'r option"
  assumes put_law: "invar r \<Longrightarrow> length (queue r) + length xs < capacity r \<Longrightarrow>
      \<exists>r'. put r xs = Some r' \<and> invar r' \<and> queue r' = queue r @ xs \<and> capacity r' = capacity r"
    and get_law: "invar r \<Longrightarrow> get r n = Some (take n (queue r))"
    and discard_law: "invar r \<Longrightarrow>
      \<exists>r'. discard r n = Some r' \<and> invar r' \<and> queue r' = drop n (queue r) \<and> capacity r' = capacity r"
begin

lemma run_refines_spec:
  assumes "invar r" "fifo_fits (capacity r) (queue r) ops"
  shows "\<exists>r'. fifo_run put get discard r ops = Some (r', snd (fifo_spec (queue r) ops)) \<and>
     invar r' \<and> queue r' = fst (fifo_spec (queue r) ops)"
  using assms
proof (induction ops arbitrary: r)
  case Nil
  then show ?case by simp
next
  case (Cons op ops)
  show ?case
  proof (cases op)
    case (Put xs)
    with Cons.prems put_law [of r xs] obtain r' where
      "put r xs = Some r'" "invar r'" "queue r' = queue r @ xs" "capacity r' = capacity r"
      by auto
    with Cons.IH [of r'] Cons.prems Put show ?thesis by simp
  next
    case (Take n)
    with Cons.prems discard_law [of r n] obtain r' where
      "discard r n = Some r'" "invar r'" "queue r' = drop n (queue r)" "capacity r' = capacity r"
      by auto
    with Cons.IH [of r'] Cons.prems Take show ?thesis
      by (auto simp: get_law split: prod.splits)
  qed
qed

end

text \<open>The ring buffer's operations in the shape of the interface.\<close>

definition rb_put :: "adfRingbuf_t \<Rightarrow> u8 list \<Rightarrow> adfRingbuf_t option" where
  "rb_put r xs = do { (_, rb) \<leftarrow> adfRingbuf_write (Some r) (Some xs) (int (length xs)); rb }"

definition rb_get :: "adfRingbuf_t \<Rightarrow> nat \<Rightarrow> u8 list option" where
  "rb_get r n = do { (_, xs) \<leftarrow> adfRingbuf_read (Some r) True (int n); Some xs }"

definition rb_discard :: "adfRingbuf_t \<Rightarrow> nat \<Rightarrow> adfRingbuf_t option" where
  "rb_discard r n = snd (adfRingbuf_flush (Some r) (int n))"

interpretation rb: byte_fifo rb_inv rb_cap contents rb_put rb_get rb_discard
proof unfold_locales
  fix r and xs :: "u8 list"
  assume r: "rb_inv r" "length (contents r) + length xs < rb_cap r"
  show "\<exists>r'. rb_put r xs = Some r' \<and> rb_inv r' \<and> contents r' = contents r @ xs \<and> rb_cap r' = rb_cap r"
  proof (cases "xs = []")
    case True
    with r show ?thesis by (simp add: rb_put_def adfRingbuf_write_def)
  next
    case False
    then have "0 < int (length xs)" "int (length xs) < adfRingbuf_getFreeSize (Some r)"
      using r free_contents [OF r(1)] by simp_all
    then obtain r' where "adfRingbuf_write (Some r) (Some xs) (int (length xs)) =
        Some (int (length xs), Some r')" "rb_inv r'" "contents r' = contents r @ xs" "rb_cap r' = rb_cap r"
      by (rule rb_write_fits [OF r(1), where src = xs]) simp_all
    then show ?thesis by (simp add: rb_put_def)
  qed
next
  fix r n
  assume r: "rb_inv r"
  show "rb_get r n = Some (take n (contents r))"
  proof (cases "n = 0")
    case True
    then show ?thesis by (simp add: rb_get_def adfRingbuf_read_def)
  next
    case False
    with r show ?thesis by (simp add: rb_get_def rb_read_contents)
  qed
next
  fix r n
  assume r: "rb_inv r"
  show "\<exists>r'. rb_discard r n = Some r' \<and> rb_inv r' \<and> contents r' = drop n (contents r) \<and> rb_cap r' = rb_cap r"
  proof (cases "n = 0")
    case True
    with r show ?thesis by (simp add: rb_discard_def adfRingbuf_flush_def)
  next
    case False
    then have "0 < int n" by simp
    then obtain r' where "adfRingbuf_flush (Some r) (int n) = (min (int n) (int (length (contents r))), Some r')"
      "rb_inv r'" "contents r' = drop n (contents r)" "rb_cap r' = rb_cap r"
      by (rule rb_flush_contents [OF r]) simp_all
    then show ?thesis by (simp add: rb_discard_def)
  qed
qed

section \<open>Properties\<close>

text \<open>
  C3: every sequence of writes that fit and of read-then-flush steps behaves as a first-in
  first-out byte queue: the code faults nowhere, keeps its invariant, hands out exactly the
  bytes the queue would, and ends holding exactly the queue's content.
\<close>

theorem ringbuf_refines_queue:
  assumes "rb_inv r" "fifo_fits (rb_cap r) (contents r) ops"
  shows "\<exists>r'. fifo_run rb_put rb_get rb_discard r ops = Some (r', snd (fifo_spec (contents r) ops)) \<and>
     rb_inv r' \<and> contents r' = fst (fifo_spec (contents r) ops)"
  using assms by (rule rb.run_refines_spec)

text \<open>A ring buffer of 8 bytes directly behind its 32-byte struct, with one byte read already.\<close>

definition rb_example :: adfRingbuf_t where
  "rb_example = \<lparr>rb_base = 32, rb_limit = 40, rb_wp = 38, rb_rp = 33, rb_drop = 0, rb_dropunit = 4,
     rb_rsvd = [0, 0], rb_buf_at = 32, rb_bytes = [10, 11, 12, 13, 14, 15, 16, 17]\<rparr>"

lemma rb_example_state [simp]:
  "rb_inv rb_example" "contents rb_example = [11, 12, 13, 14, 15]" "rb_cap rb_example = 8"
  "adfRingbuf_getFreeSize (Some rb_example) = 3" "rb_dropunit rb_example = 4" "rb_drop rb_example = 0"
  "rb_limit rb_example = 40" "rb_base rb_example = 32"
  by (simp_all add: rb_example_def rb_inv_def rb_cap_def contents_def adfRingbuf_getUsedSize_def
      adfRingbuf_getFreeSize_def rb_macro_defs ring_get_def upt_conv_Cons)

theorem ringbuf_refines_queue_witness:
  "\<exists>r'. fifo_run rb_put rb_get rb_discard rb_example [Put [1, 2], Take 3, Put [3, 4, 5], Take 4] =
     Some (r', [11, 12, 13, 14, 15, 1, 2]) \<and> rb_inv r' \<and> contents r' = [3, 4, 5]"
  using ringbuf_refines_queue [of rb_example "[Put [1, 2], Take 3, Put [3, 4, 5], Take 4]"] by simp

text \<open>
  a write that is smaller than the free size stores all its bytes behind the present
  content, also across the end of the buffer, and drops nothing.
\<close>

theorem ringbuf_write_appends:
  assumes "rb_inv r" "0 < len" "len < adfRingbuf_getFreeSize (Some r)" "len \<le> int (length src)"
  shows "\<exists>r'. adfRingbuf_write (Some r) (Some src) len = Some (len, Some r') \<and> rb_inv r' \<and>
     contents r' = contents r @ take (nat len) src \<and> rb_drop r' = rb_drop r"
  using assms by (rule rb_write_fits) blast

theorem ringbuf_write_appends_witness:
  "\<exists>r'. adfRingbuf_write (Some rb_example) (Some [1, 2, 3]) 2 = Some (2, Some r') \<and> rb_inv r' \<and>
     contents r' = [11, 12, 13, 14, 15, 1, 2] \<and> rb_drop r' = 0"
  using ringbuf_write_appends [of rb_example 2 "[1, 2, 3]"] by simp

text \<open>
  a read returns the oldest bytes, as many as asked for or as there are, and changes
  nothing; the flush that follows it removes exactly those bytes.
\<close>

theorem ringbuf_read_then_flush:
  assumes "rb_inv r" "0 < len"
  shows "adfRingbuf_read (Some r) True len =
       Some (min len (int (length (contents r))), take (nat len) (contents r)) \<and>
     (\<exists>r'. adfRingbuf_flush (Some r) len = (min len (int (length (contents r))), Some r') \<and>
       rb_inv r' \<and> contents r' = drop (nat len) (contents r))"
  using rb_read_contents [OF assms] by (rule conjI) (rule rb_flush_contents [OF assms], blast)

theorem ringbuf_read_then_flush_witness:
  "adfRingbuf_read (Some rb_example) True 9 = Some (5, [11, 12, 13, 14, 15]) \<and>
     (\<exists>r'. adfRingbuf_flush (Some rb_example) 9 = (5, Some r') \<and> rb_inv r' \<and> contents r' = [])"
  using ringbuf_read_then_flush [of rb_example 9] by simp



text \<open>
  when the excess over the free size is a multiple of the drop unit, exactly the excess is
  dropped, the write position catches up with the read position, and the buffer, although full,
  reads as empty: the old bytes and the bytes just written are lost.
\<close>

theorem ringbuf_write_exact_multiple_loses_all:
  assumes "rb_inv r" "0 < rb_dropunit r" "rb_dropunit r \<le> 536870912"
    and "adfRingbuf_getFreeSize (Some r) \<le> len" "len \<le> int (length src)"
    and "rb_dropunit r dvd len - adfRingbuf_getFreeSize (Some r)" "len \<le> rb_limit r - rb_base r"
  shows "\<exists>r'. adfRingbuf_write (Some r) (Some src) len = Some (len, Some r') \<and> rb_inv r' \<and>
     contents r' = []"
  using assms by (rule rb_write_exact_multiple) blast

theorem ringbuf_write_exact_multiple_loses_all_witness:
  "\<exists>r'. adfRingbuf_write (Some rb_example) (Some [1, 2, 3]) 3 = Some (3, Some r') \<and> rb_inv r' \<and>
     contents r' = []"
  using ringbuf_write_exact_multiple_loses_all [of rb_example 3 "[1, 2, 3]"] by simp

text \<open>
  with no drop unit, a write that does not fit keeps the content and stores the first bytes
  of the data, up to four less than the free size, if more than four bytes are free; if fewer
  than four are free the copy gets a negative length and runs outside the buffer.
\<close>

theorem ringbuf_write_without_dropunit:
  assumes "rb_inv r" "rb_dropunit r \<le> 0" "adfRingbuf_getFreeSize (Some r) \<le> len"
    and "len \<le> int (length src)"
  shows "(adfRingbuf_getFreeSize (Some r) < 4 \<longrightarrow> adfRingbuf_write (Some r) (Some src) len = None) \<and>
     (4 < adfRingbuf_getFreeSize (Some r) \<longrightarrow> (\<exists>r'. adfRingbuf_write (Some r) (Some src) len =
          Some (adfRingbuf_getFreeSize (Some r) - 4, Some r') \<and> rb_inv r' \<and>
        contents r' = contents r @ take (nat (adfRingbuf_getFreeSize (Some r) - 4)) src))"
  using rb_write_cut_faults [OF assms(1-3)] rb_write_cuts [OF assms(1-3) _ assms(4)] by metis

lemma rb_example_nodrop [simp]:
  "rb_inv (rb_example\<lparr>rb_dropunit := d\<rparr>)" "adfRingbuf_getFreeSize (Some (rb_example\<lparr>rb_dropunit := d\<rparr>)) = 3"
  by (simp_all add: rb_example_def rb_inv_def adfRingbuf_getFreeSize_def rb_macro_defs)

theorem ringbuf_write_without_dropunit_witness:
  "adfRingbuf_write (Some (rb_example\<lparr>rb_dropunit := 0\<rparr>)) (Some [1, 2, 3]) 3 = None"
  using ringbuf_write_without_dropunit [of "rb_example\<lparr>rb_dropunit := 0\<rparr>" 3 "[1, 2, 3]"] by simp

text \<open>
  used and free size always add up to the size of the buffer, and the free size is never 0,
  not even when the buffer is full.
\<close>

theorem ringbuf_sizes:
  assumes "rb_inv r"
  shows "adfRingbuf_getUsedSize (Some r) + adfRingbuf_getFreeSize (Some r) = rb_limit r - rb_base r \<and>
     adfRingbuf_getUsedSize (Some r) = int (length (contents r)) \<and> 1 \<le> adfRingbuf_getFreeSize (Some r)"
  using rb_used_plus_free [OF assms] rb_used_range [OF assms] length_contents [OF assms] by simp

theorem ringbuf_sizes_witness:
  "adfRingbuf_getUsedSize (Some rb_example) + adfRingbuf_getFreeSize (Some rb_example) = 8 \<and>
     adfRingbuf_getUsedSize (Some rb_example) = 5"
  using ringbuf_sizes [of rb_example] by simp

text \<open>reserving \<open>n\<close> bytes undoes a flush of \<open>n\<close> bytes: the struct and its bytes are as before.\<close>

theorem ringbuf_reserve_undoes_flush:
  assumes "rb_inv r" "0 < n" "n \<le> int (length (contents r))"
  shows "adfRingbuf_reserve (snd (adfRingbuf_flush (Some r) n)) n = Some (n, Some r)"
  using assms by (rule rb_reserve_undoes_flush)

theorem ringbuf_reserve_undoes_flush_witness:
  "adfRingbuf_reserve (snd (adfRingbuf_flush (Some rb_example) 5)) 5 = Some (5, Some rb_example)"
  using ringbuf_reserve_undoes_flush [of rb_example 5] by simp

text \<open>
  initialising with a non-empty buffer whose size is a multiple of four, and that does not
  begin or end at the struct itself, gives an empty valid ring buffer over the whole buffer.
\<close>

theorem ringbuf_init_establishes:
  assumes "0 < sz" "sz mod 4 = 0" "at \<noteq> 0" "at + sz \<noteq> 0" "- 536870912 \<le> at" "at + sz \<le> 536870912"
    and "int (length bytes) = sz"
  shows "\<exists>r'. adfRingbuf_init (Some r) (Some (at, bytes)) sz du = (ADF_STATUS_OK, Some r') \<and>
     rb_inv r' \<and> contents r' = [] \<and> int (rb_cap r') = sz \<and> rb_dropunit r' = du \<and> rb_drop r' = 0 \<and>
     adfRingbuf_checkValid r' at sz"
  using assms by (rule rb_init_ok) blast

theorem ringbuf_init_establishes_witness:
  "\<exists>r'. adfRingbuf_init (Some rb_example) (Some (32, [1, 2, 3, 4])) 4 2 = (ADF_STATUS_OK, Some r') \<and>
     rb_inv r' \<and> contents r' = [] \<and> int (rb_cap r') = 4 \<and> rb_dropunit r' = 2 \<and> rb_drop r' = 0 \<and>
     adfRingbuf_checkValid r' 32 4"
  using ringbuf_init_establishes [of 4 32 "[1, 2, 3, 4]" rb_example 2] by simp

text \<open>
  a buffer that ends where its struct begins is refused, so a struct placed directly behind
  its buffer cannot be initialised, whatever its size and drop unit.
\<close>

theorem ringbuf_init_refuses_struct_behind_buffer:
  "fst (adfRingbuf_init (Some r) (Some (- sz, bytes)) sz du) = ADF_STATUS_NOT_SUPPORTED"
proof -
  have "s32 (s32 (- sz) + sz) = 0"
    using s32_cong_mod [of "s32 (- sz) + sz" 0] by (simp add: s32_def mod_simps)
  then show ?thesis by (simp add: adfRingbuf_init_def adfRingbuf_reset_def)
qed

end
