(* ===== verification/Kstrtox.thy ===== *)
theory Kstrtox
  imports Kernel_Base
begin

text \<open>
  The kernel's conversion of strings to integers (\<^verbatim>\<open>lib/kstrtox.c\<close>), which the sysfs attributes of
  the drivers parse their input with, and the decimal output of \<^verbatim>\<open>%d\<close> they print with.

  A C string is a list of characters without the terminator; reading at its end is reading the
  terminator.  The result of \<^verbatim>\<open>_parse_integer\<close> is the number of characters with the overflow flag
  (bit 31 of \<^verbatim>\<open>rv\<close>) kept apart, for strings of less than 2 GiB.  An \<^verbatim>\<open>unsigned long long\<close> is an
  \<^typ>\<open>int\<close> in range with the wrap-around \<open>u64\<close>.

  The lemmas show that the parser computes the value of the digits exactly, with the overflow
  reported when and only when the value does not fit, and that printing is inverted by parsing.
\<close>

abbreviation (input) ULLONG_MAX :: int where "ULLONG_MAX \<equiv> 18446744073709551615"
abbreviation NL :: char where "NL \<equiv> CHR 0x0A"

section \<open>The parser\<close>

text \<open>\<^verbatim>\<open>_tolower(c) == 'x'\<close>: setting bit 5 makes exactly the two letters an x.\<close>

definition is_x :: "char \<Rightarrow> bool" where
  "is_x c \<longleftrightarrow> c = CHR ''x'' \<or> c = CHR ''X''"

text \<open>The value of a digit, up to base 16.\<close>

definition digit_val :: "char \<Rightarrow> int option" where
  "digit_val ch =
     (let c = of_char ch; lc = c OR 0x20
      in if 0x30 \<le> c \<and> c \<le> 0x39 then Some (c - 0x30)
         else if 0x61 \<le> lc \<and> lc \<le> 0x66 then Some (lc - 0x61 + 10)
         else None)"

definition isxdigit :: "char \<Rightarrow> bool" where
  "isxdigit ch \<longleftrightarrow> digit_val ch \<noteq> None"

fun parse_integer_fixup_radix :: "string \<Rightarrow> int \<Rightarrow> string \<times> int" where
  "parse_integer_fixup_radix s base =
     (let base = (if base = 0
                  then case s of
                         c0 # rest \<Rightarrow>
                           if c0 = CHR ''0''
                           then case rest of c1 # c2 # _ \<Rightarrow> if is_x c1 \<and> isxdigit c2 then 16 else 8 | _ \<Rightarrow> 8
                           else 10
                       | [] \<Rightarrow> 10
                  else base)
      in (case s of c0 # c1 # rest \<Rightarrow> if base = 16 \<and> c0 = CHR ''0'' \<and> is_x c1 then rest else s | _ \<Rightarrow> s, base))"

fun parse_integer_loop :: "int \<Rightarrow> int \<Rightarrow> nat \<Rightarrow> bool \<Rightarrow> string \<Rightarrow> int \<times> nat \<times> bool" where
  "parse_integer_loop base res rv ovf [] = (res, rv, ovf)"
| "parse_integer_loop base res rv ovf (c # s) =
     (case digit_val c of
        None \<Rightarrow> (res, rv, ovf)
      | Some val \<Rightarrow>
          if val \<ge> base then (res, rv, ovf)
          else
            let ovf = (if res AND 0xF000000000000000 \<noteq> 0 \<and> res > (ULLONG_MAX - val) div base then True else ovf)
            in parse_integer_loop base (u64 (res * base + val)) (rv + 1) ovf s)"

definition parse_integer :: "string \<Rightarrow> int \<Rightarrow> int \<times> nat \<times> bool" where
  "parse_integer s base = parse_integer_loop base 0 0 False s"

definition kstrtoull' :: "string \<Rightarrow> int \<Rightarrow> int + int" where
  "kstrtoull' s base =
     (let (s, base) = parse_integer_fixup_radix s base;
          (res, rv, ovf) = parse_integer s base
      in if ovf then Inl (- ERANGE)
         else if rv = 0 then Inl (- EINVAL)
         else let s = drop rv s;
                  s = (case s of c # t \<Rightarrow> if c = NL then t else s | [] \<Rightarrow> s)
              in if s \<noteq> [] then Inl (- EINVAL) else Inr res)"

definition kstrtoull :: "string \<Rightarrow> int \<Rightarrow> int + int" where
  "kstrtoull s base = kstrtoull' (case s of c # t \<Rightarrow> if c = CHR ''+'' then t else s | [] \<Rightarrow> s) base"

definition kstrtoll :: "string \<Rightarrow> int \<Rightarrow> int + int" where
  "kstrtoll s base =
     (case s of
        c # t \<Rightarrow>
          if c = CHR ''-''
          then case kstrtoull' t base of
                 Inl rv \<Rightarrow> Inl rv
               | Inr tmp \<Rightarrow> if s64 (- tmp) > 0 then Inl (- ERANGE) else Inr (s64 (- tmp))
          else case kstrtoull s base of
                 Inl rv \<Rightarrow> Inl rv
               | Inr tmp \<Rightarrow> if s64 tmp < 0 then Inl (- ERANGE) else Inr (s64 tmp)
      | [] \<Rightarrow>
          (case kstrtoull s base of
             Inl rv \<Rightarrow> Inl rv
           | Inr tmp \<Rightarrow> if s64 tmp < 0 then Inl (- ERANGE) else Inr (s64 tmp)))"

text \<open>
  The narrower conversions compare the wide result with its cast to the narrow type; \<open>cast\<close> is that
  cast.
\<close>

definition narrow :: "(int \<Rightarrow> int) \<Rightarrow> int + int \<Rightarrow> int + int" where
  "narrow cast r = (case r of Inl rv \<Rightarrow> Inl rv
     | Inr tmp \<Rightarrow> if tmp \<noteq> cast tmp then Inl (- ERANGE) else Inr (cast tmp))"

definition kstrtoul :: "string \<Rightarrow> int \<Rightarrow> int + int" where
  "kstrtoul s base = narrow u64 (kstrtoull s base)"

definition kstrtol :: "string \<Rightarrow> int \<Rightarrow> int + int" where
  "kstrtol s base = narrow s64 (kstrtoll s base)"

definition kstrtouint :: "string \<Rightarrow> int \<Rightarrow> int + int" where
  "kstrtouint s base = narrow wrap_u32 (kstrtoull s base)"

definition kstrtoint :: "string \<Rightarrow> int \<Rightarrow> int + int" where
  "kstrtoint s base = narrow s32 (kstrtoll s base)"

definition kstrtou16 :: "string \<Rightarrow> int \<Rightarrow> int + int" where
  "kstrtou16 s base = narrow (\<lambda>x. x mod 65536) (kstrtoull s base)"

definition kstrtos16 :: "string \<Rightarrow> int \<Rightarrow> int + int" where
  "kstrtos16 s base = narrow (\<lambda>x. (x + 32768) mod 65536 - 32768) (kstrtoll s base)"

definition kstrtou8 :: "string \<Rightarrow> int \<Rightarrow> int + int" where
  "kstrtou8 s base = narrow (\<lambda>x. x mod 256) (kstrtoull s base)"

definition kstrtos8 :: "string \<Rightarrow> int \<Rightarrow> int + int" where
  "kstrtos8 s base = narrow (\<lambda>x. (x + 128) mod 256 - 128) (kstrtoll s base)"

text \<open>A NULL string is \<^term>\<open>None\<close>.\<close>

definition kstrtobool :: "string option \<Rightarrow> int + bool" where
  "kstrtobool s =
     (case s of
        Some (c # rest) \<Rightarrow>
          if c \<in> {CHR ''y'', CHR ''Y'', CHR ''1''} then Inr True
          else if c \<in> {CHR ''n'', CHR ''N'', CHR ''0''} then Inr False
          else if c \<in> {CHR ''o'', CHR ''O''}
          then case rest of
                 c1 # _ \<Rightarrow>
                   if c1 \<in> {CHR ''n'', CHR ''N''} then Inr True
                   else if c1 \<in> {CHR ''f'', CHR ''F''} then Inr False
                   else Inl (- EINVAL)
               | [] \<Rightarrow> Inl (- EINVAL)
          else Inl (- EINVAL)
      | _ \<Rightarrow> Inl (- EINVAL))"

text \<open>
  Strings from user space: the first \<open>limit\<close> of \<open>count\<close> bytes are copied (\<^term>\<open>None\<close> is a fault) and end
  at the first zero byte.
\<close>

definition from_user :: "nat \<Rightarrow> string option \<Rightarrow> nat \<Rightarrow> int + string" where
  "from_user limit user count =
     (case user of None \<Rightarrow> Inl (- EFAULT)
      | Some bytes \<Rightarrow> Inr (takeWhile (\<lambda>c. c \<noteq> CHR 0x00) (take (min count limit) bytes)))"

definition kstrtobool_from_user :: "string option \<Rightarrow> nat \<Rightarrow> int + bool" where
  "kstrtobool_from_user user count =
     (case from_user 3 user count of Inl e \<Rightarrow> Inl e | Inr buf \<Rightarrow> kstrtobool (Some buf))"

definition kstrto_from_user :: "(string \<Rightarrow> int \<Rightarrow> int + int) \<Rightarrow> nat \<Rightarrow> string option \<Rightarrow> nat \<Rightarrow> int \<Rightarrow> int + int" where
  "kstrto_from_user g bytes_of_type user count base =
     (case from_user (1 + bytes_of_type * 8 + 1) user count of Inl e \<Rightarrow> Inl e | Inr buf \<Rightarrow> g buf base)"

section \<open>Decimal output\<close>

definition digit_chr :: "nat \<Rightarrow> char" where
  "digit_chr d = ''0123456789'' ! d"

fun print_nat :: "nat \<Rightarrow> string" where
  "print_nat n = (if n < 10 then [digit_chr n] else print_nat (n div 10) @ [digit_chr (n mod 10)])"

declare print_nat.simps [simp del]

definition print_d :: "int \<Rightarrow> string" where
  "print_d i = (if i < 0 then CHR ''-'' # print_nat (nat (- i)) else print_nat (nat i))"


section \<open>The parser is exact\<close>

text \<open>The digits a string starts with, and the value of a list of digits.\<close>

fun leading_digits :: "int \<Rightarrow> string \<Rightarrow> int list" where
  "leading_digits base [] = []"
| "leading_digits base (c # s) =
     (case digit_val c of None \<Rightarrow> [] | Some v \<Rightarrow> if v \<ge> base then [] else v # leading_digits base s)"

definition digits_value :: "int \<Rightarrow> int \<Rightarrow> int list \<Rightarrow> int" where
  "digits_value base = foldl (\<lambda>a d. a * base + d)"

lemma digits_value_simps [simp]:
  "digits_value base a [] = a" "digits_value base a (d # ds) = digits_value base (a * base + d) ds"
  "digits_value base a (ds @ ds') = digits_value base (digits_value base a ds) ds'"
  by (simp_all add: digits_value_def)

lemma digit_val_range: "digit_val c = Some v \<Longrightarrow> 0 \<le> v \<and> v < 16"
  by (auto simp: digit_val_def Let_def split: if_splits)

lemma and_shifted: "r AND push_bit k m = push_bit k (drop_bit k r AND (m::int))"
  by (auto simp: bit_eq_iff bit_simps)

lemma top_nibble:
  assumes "0 \<le> r" "r < 18446744073709551616"
  shows "r AND 0xF000000000000000 \<noteq> 0 \<longleftrightarrow> (1152921504606846976::int) \<le> r"
proof -
  have "(0xF000000000000000::int) = push_bit 60 15" by (simp add: push_bit_eq_mult)
  then have "r AND 0xF000000000000000 = push_bit 60 (drop_bit 60 r AND 15)"
    by (simp only: and_shifted)
  moreover have "drop_bit 60 r AND 15 = drop_bit 60 r mod 16"
    using take_bit_eq_mod [of 4 "drop_bit 60 r"] take_bit_eq_mask [of 4 "drop_bit 60 r"]
    by (simp add: mask_eq_exp_minus_1)
  moreover have "drop_bit 60 r = r div 1152921504606846976" by (simp add: drop_bit_eq_div)
  moreover have "r div 1152921504606846976 < 16" using assms by (simp add: div_less_iff_int)
  ultimately show ?thesis using assms by (simp add: push_bit_eq_mult) linarith
qed

text \<open>The check of one step is exact for every base up to 16.\<close>

lemma overflow_check:
  assumes "0 \<le> r" "r < 18446744073709551616" "0 \<le> v" "v < base" "base \<le> 16"
  shows "(r AND 0xF000000000000000 \<noteq> 0 \<and> r > (ULLONG_MAX - v) div base) \<longleftrightarrow> r * base + v \<ge> 18446744073709551616"
proof -
  have q: "(ULLONG_MAX - v) div base < r \<longleftrightarrow> ULLONG_MAX - v < r * base"
    using assms(3,4) by (intro div_less_iff_int) simp
  have "1152921504606846976 \<le> r" if "r * base + v \<ge> 18446744073709551616"
  proof (rule ccontr)
    assume "\<not> 1152921504606846976 \<le> r"
    then have "r * base \<le> 1152921504606846975 * 16" using assms by (intro mult_mono) auto
    then show False using that assms(4,5) by linarith
  qed
  then show ?thesis unfolding top_nibble [OF assms(1,2)] q by linarith
qed


lemma parse_step:
  assumes "0 \<le> r" "digit_val c = Some v" "v < base" "base \<le> 16"
  shows "parse_integer_loop base (u64 r) n (r \<ge> 18446744073709551616) (c # s) =
    parse_integer_loop base (u64 (r * base + v)) (n + 1) (r * base + v \<ge> 18446744073709551616) s"
proof -
  have v: "0 \<le> v" using digit_val_range [OF assms(2)] by simp
  have wrap: "u64 (u64 r * base + v) = u64 (r * base + v)" unfolding u64_def by (metis mod_add_left_eq mod_mult_left_eq)
  show ?thesis
  proof (cases "r < 18446744073709551616")
    case True
    then have r: "u64 r = r" using assms(1) by (simp add: u64_def)
    show ?thesis
      using overflow_check [OF assms(1) True v assms(3,4)] True assms(2,3) by (simp add: r)
  next
    case False
    then have "r \<le> r * base" using v assms(3) by (cases "base = 1") (auto simp: mult_le_cancel_left1)
    then have "18446744073709551616 \<le> r * base + v" using False v by linarith
    then show ?thesis using False assms(2,3) wrap by simp
  qed
qed

lemma parse_integer_loop_exact:
  "0 \<le> r \<Longrightarrow> 0 < base \<Longrightarrow> base \<le> 16 \<Longrightarrow>
     parse_integer_loop base (u64 r) n (r \<ge> 18446744073709551616) s =
       (let v = digits_value base r (leading_digits base s)
        in (u64 v, n + length (leading_digits base s), v \<ge> 18446744073709551616))"
proof (induction s arbitrary: r n)
  case (Cons c s)
  show ?case
  proof (cases "\<exists>v. digit_val c = Some v \<and> v < base")
    case True
    then obtain v where v: "digit_val c = Some v" "v < base" by blast
    have "0 \<le> r * base + v" using Cons.prems digit_val_range [OF v(1)] by simp
    then show ?thesis
      using Cons.IH [of "r * base + v" "n + 1"] parse_step [OF Cons.prems(1) v Cons.prems(3)] Cons.prems v
      by (simp add: Let_def)
  next
    case False
    then show ?thesis by (auto simp: Let_def split: option.split)
  qed
qed (simp add: Let_def)

lemma parse_integer_exact:
  assumes "0 < base" "base \<le> 16"
  shows "parse_integer s base =
    (let v = digits_value base 0 (leading_digits base s)
     in (u64 v, length (leading_digits base s), v \<ge> 18446744073709551616))"
  using parse_integer_loop_exact [of 0 base 0 s] assms by (simp add: parse_integer_def u64_def)

lemma digits_value_nonneg: "0 \<le> a \<Longrightarrow> 0 \<le> base \<Longrightarrow> (\<And>d. d \<in> set ds \<Longrightarrow> 0 \<le> d) \<Longrightarrow> 0 \<le> digits_value base a ds"
  by (induction ds arbitrary: a) auto

lemma leading_digits_range: "d \<in> set (leading_digits base s) \<Longrightarrow> 0 \<le> d \<and> d < base"
  by (induction s) (auto split: option.splits if_splits dest: digit_val_range [OF sym] digit_val_range)

lemma not_digits: "is_x c \<Longrightarrow> digit_val c = None" "digit_val NL = None" "\<not> is_x NL" "digit_val CHR ''+'' = None" "digit_val CHR ''-'' = None"
  by (auto simp: digit_val_def is_x_def)

definition all_digits :: "int \<Rightarrow> string \<Rightarrow> bool" where
  "all_digits base s \<longleftrightarrow> (\<forall>c \<in> set s. case digit_val c of None \<Rightarrow> False | Some v \<Rightarrow> v < base)"

lemma leading_digits_all:
  assumes "all_digits base s" "nl = [] \<or> nl = [NL]"
  shows "leading_digits base (s @ nl) = map (the \<circ> digit_val) s"
  using assms by (induction s) (auto simp: all_digits_def not_digits split: option.splits)

text \<open>A string of digits, possibly with a newline, in an explicit base.\<close>

lemma fixup_radix_id:
  "\<forall>c \<in> set w. \<not> is_x c \<Longrightarrow> base \<noteq> 0 \<Longrightarrow> parse_integer_fixup_radix w base = (w, base)"
  by (auto simp: Let_def split: list.split)

lemma kstrtoull'_digits:
  assumes "0 < base" "base \<le> 16" "all_digits base s" "s \<noteq> []" "nl = [] \<or> nl = [NL]"
  shows "kstrtoull' (s @ nl) base =
    (let v = digits_value base 0 (map (the \<circ> digit_val) s)
     in if v < 18446744073709551616 then Inr v else Inl (- ERANGE))"
proof -
  have "\<not> is_x c" if "c \<in> set (s @ nl)" for c
    using that assms(3,5) not_digits by (fastforce simp: all_digits_def)
  then have "parse_integer_fixup_radix (s @ nl) base = (s @ nl, base)"
    using assms(1) by (intro fixup_radix_id) auto
  moreover define v where "v = digits_value base 0 (map (the \<circ> digit_val) s)"
  have "\<forall>d \<in> set (map (the \<circ> digit_val) s). 0 \<le> d"
    using leading_digits_range [of _ base "s @ nl"] by (simp add: leading_digits_all [OF assms(3,5)])
  then have "0 \<le> v" unfolding v_def using assms(1) by (intro digits_value_nonneg) auto
  moreover have "parse_integer (s @ nl) base = (u64 v, length s, v \<ge> 18446744073709551616)"
    by (simp add: parse_integer_exact [OF assms(1,2)] leading_digits_all [OF assms(3,5)] v_def Let_def)
  ultimately show ?thesis
    using assms(4,5) by (auto simp: kstrtoull'_def v_def [symmetric] u64_def simp del: parse_integer_fixup_radix.simps)
qed

section \<open>Printing and parsing\<close>

lemma digit_chr_val:
  assumes "d < 10"
  shows "digit_val (digit_chr d) = Some (int d)" and "digit_chr d \<notin> {CHR ''+'', CHR ''-'', NL}"
    and "digit_chr d = CHR ''0'' \<longleftrightarrow> d = 0"
proof -
  have "d \<in> {0, 1, 2, 3, 4, 5, 6, 7, 8, 9}" using assms by (simp add: eval_nat_numeral less_Suc_eq)
  then show "digit_val (digit_chr d) = Some (int d)" "digit_chr d \<notin> {CHR ''+'', CHR ''-'', NL}"
    "digit_chr d = CHR ''0'' \<longleftrightarrow> d = 0"
    by (elim insertE; simp add: digit_chr_def digit_val_def Let_def)+
qed

lemma print_nat_digits:
  "\<exists>ds. print_nat n = map digit_chr ds \<and> ds \<noteq> [] \<and> (\<forall>d \<in> set ds. d < 10) \<and>
     digits_value 10 0 (map int ds) = int n \<and> (hd ds = 0 \<longrightarrow> ds = [0])"
proof (induction n rule: print_nat.induct)
  case (1 n)
  show ?case
  proof (cases "n < 10")
    case True
    then show ?thesis by (intro exI [of _ "[n]"]) (simp add: print_nat.simps [of n])
  next
    case False
    then obtain ds where ds: "print_nat (n div 10) = map digit_chr ds" "ds \<noteq> []" "\<forall>d \<in> set ds. d < 10"
      "digits_value 10 0 (map int ds) = int (n div 10)" "hd ds = 0 \<longrightarrow> ds = [0]" using 1 by auto
    have "hd ds \<noteq> 0"
    proof
      assume "hd ds = 0"
      then have "int (n div 10) = 0" using ds(4,5) by auto
      then show False using False by simp
    qed
    moreover have "int (n div 10) * 10 + int (n mod 10) = int n"
      by (metis div_mult_mod_eq of_nat_add of_nat_mult of_nat_numeral)
    ultimately show ?thesis
      using False ds by (intro exI [of _ "ds @ [n mod 10]"]) (simp add: print_nat.simps [of n])
  qed
qed


lemma kstrtoull'_print:
  assumes "base \<in> {0, 10}" "nl = [] \<or> nl = [NL]"
  shows "kstrtoull' (print_nat n @ nl) base = (if int n < 18446744073709551616 then Inr (int n) else Inl (- ERANGE))"
proof -
  obtain ds where ds: "print_nat n = map digit_chr ds" "ds \<noteq> []" "\<forall>d \<in> set ds. d < 10"
      "digits_value 10 0 (map int ds) = int n" "hd ds = 0 \<longrightarrow> ds = [0]" using print_nat_digits [of n] by (elim exE conjE)
  have all: "all_digits 10 (map digit_chr ds)" using ds(3) by (auto simp: all_digits_def digit_chr_val)
  have val: "map (the \<circ> digit_val) (map digit_chr ds) = map int ds" using ds(3) by (simp add: digit_chr_val)
  have ten: "kstrtoull' (print_nat n @ nl) 10 = (if int n < 18446744073709551616 then Inr (int n) else Inl (- ERANGE))"
    using kstrtoull'_digits [OF _ _ all _ assms(2)] ds(2) unfolding ds(1) val ds(4) by (simp add: Let_def)
  show ?thesis
  proof (cases "base = 0")
    case True
    show ?thesis
    proof (cases "hd ds = 0")
      case hd: True
      then have z: "ds = [0]" "int n = 0" using ds(4,5) by auto
      have "digit_chr 0 = CHR ''0''" by (simp add: digit_chr_def)
      moreover have "digit_val CHR ''0'' = Some 0" by (simp add: digit_val_def)
      ultimately show ?thesis
        using assms(2) True by (auto simp: kstrtoull'_def ds(1) z parse_integer_exact u64_def not_digits)
    next
      case False
      then have "hd ds < 10" using ds(2,3) by simp
      then have "digit_chr (hd ds) \<noteq> CHR ''0''" using False digit_chr_val(3) by simp
      then have "parse_integer_fixup_radix (print_nat n @ nl) 0 = parse_integer_fixup_radix (print_nat n @ nl) 10"
        using ds(2) by (cases ds) (auto simp: ds(1) Let_def split: list.split)
      then show ?thesis using ten True by (simp add: kstrtoull'_def del: parse_integer_fixup_radix.simps)
    qed
  qed (use assms(1) ten in simp)
qed

lemma print_nat_first: "\<exists>d t. print_nat n = digit_chr d # t \<and> d < 10"
proof -
  obtain ds where "print_nat n = map digit_chr ds" "ds \<noteq> []" "\<forall>d \<in> set ds. d < 10" using print_nat_digits [of n] by (elim exE conjE)
  then show ?thesis by (cases ds) auto
qed

lemma kstrtoull_print:
  assumes "base \<in> {0, 10}" "nl = [] \<or> nl = [NL]"
  shows "kstrtoull (print_nat n @ nl) base = (if int n < 18446744073709551616 then Inr (int n) else Inl (- ERANGE))"
proof -
  obtain d t where "print_nat n = digit_chr d # t" "d < 10" using print_nat_first [of n] by (elim exE conjE)
  moreover from this have "digit_chr d \<noteq> CHR ''+''" using digit_chr_val(2) by auto
  ultimately show ?thesis using kstrtoull'_print [OF assms, of n] by (simp add: kstrtoull_def)
qed

lemma kstrtoll_print:
  assumes "base \<in> {0, 10}" "nl = [] \<or> nl = [NL]"
  shows "kstrtoll (print_d i @ nl) base =
    (if - 9223372036854775808 \<le> i \<and> i < 9223372036854775808 then Inr i else Inl (- ERANGE))"
proof (cases "i < 0")
  case True
  consider "i \<le> - 18446744073709551616" | "- 18446744073709551616 < i" "i < - 9223372036854775808" | "- 9223372036854775808 \<le> i"
    by linarith
  then show ?thesis
    using True kstrtoull'_print [OF assms, of "nat (- i)"] by cases (simp_all add: kstrtoll_def print_d_def s64_wrap)
next
  case False
  obtain d t where d: "print_nat (nat i) = digit_chr d # t" "d < 10" using print_nat_first [of "nat i"] by (elim exE conjE)
  then have "digit_chr d \<noteq> CHR ''-''" using digit_chr_val(2) by auto
  then have l: "kstrtoll (print_d i @ nl) base = (case kstrtoull (print_nat (nat i) @ nl) base of
      Inl rv \<Rightarrow> Inl rv | Inr tmp \<Rightarrow> if s64 tmp < 0 then Inl (- ERANGE) else Inr (s64 tmp))"
    using False d(1) by (simp add: kstrtoll_def print_d_def)
  consider "i < 9223372036854775808" | "9223372036854775808 \<le> i" "i < 18446744073709551616" | "18446744073709551616 \<le> i"
    by linarith
  then show ?thesis
    using False kstrtoull_print [OF assms, of "nat i"] by cases (simp_all add: l s64_wrap)
qed

lemma kstrtoint_print:
  assumes "base \<in> {0, 10}" "nl = [] \<or> nl = [NL]"
  shows "kstrtoint (print_d i @ nl) base = (if - 2147483648 \<le> i \<and> i < 2147483648 then Inr i else Inl (- ERANGE))"
proof -
  have "s32 i = i \<longleftrightarrow> - 2147483648 \<le> i \<and> i < 2147483648" using s32_range [of i] by auto
  then show ?thesis by (auto simp: kstrtoint_def narrow_def kstrtoll_print [OF assms])
qed

lemma kstrtouint_print:
  assumes "base \<in> {0, 10}" "nl = [] \<or> nl = [NL]" "0 \<le> i"
  shows "kstrtouint (print_d i @ nl) base = (if i < 4294967296 then Inr i else Inl (- ERANGE))"
proof -
  have w: "i < 4294967296 \<Longrightarrow> wrap_u32 i = i" "wrap_u32 i < 4294967296" using assms(3) by (simp_all add: wrap_u32_def)
  have "kstrtoull (print_d i @ nl) base = (if i < 18446744073709551616 then Inr i else Inl (- ERANGE))"
    using assms(3) kstrtoull_print [OF assms(1,2), of "nat i"] by (simp add: print_d_def)
  then show ?thesis using w by (cases "i < 4294967296") (auto simp: kstrtouint_def narrow_def)
qed

section \<open>Properties\<close>

text \<open>
  C19: the parser is exact: a string of digits of the base, with or without a newline at its end and a
  plus sign in front, is converted to its value when that fits 64 bits and refused with
  \<^verbatim>\<open>ERANGE\<close> when it does not; the overflow check, which only looks at numbers with a bit among the
  top four, misses no overflow and reports no false one.
\<close>

theorem kstrtoull_exact:
  assumes "0 < base" "base \<le> 16" "all_digits base s" "s \<noteq> []" "nl = [] \<or> nl = [NL]"
  shows "kstrtoull (s @ nl) base =
      (let v = digits_value base 0 (map (the \<circ> digit_val) s)
       in if v < 18446744073709551616 then Inr v else Inl (- ERANGE)) \<and>
    kstrtoull (CHR ''+'' # s @ nl) base = kstrtoull (s @ nl) base"
proof -
  obtain c t where "s = c # t" using assms(4) by (cases s) auto
  moreover from this have "c \<noteq> CHR ''+''" using assms(3) by (auto simp: all_digits_def not_digits)
  ultimately show ?thesis using kstrtoull'_digits [OF assms] by (simp add: kstrtoull_def)
qed

theorem kstrtoull_exact_witness:
  "kstrtoull ''FFFFffffFFFFffff'' 16 = Inr 18446744073709551615 \<and>
   kstrtoull (''+10000000000000000'' @ [NL]) 16 = Inl (- 34)"
proof -
  have "all_digits 16 ''FFFFffffFFFFffff''" "all_digits 16 ''10000000000000000''"
    by (simp_all add: all_digits_def digit_val_def)
  then show ?thesis
    using kstrtoull_exact [of 16 "''FFFFffffFFFFffff''" "[]"] kstrtoull_exact [of 16 "''10000000000000000''" "[NL]"]
    by (simp add: Let_def digit_val_def)
qed

text \<open>
  C30: printing and parsing are inverse: for every integer, the text that \<^verbatim>\<open>%d\<close> prints, with or without a
  newline, read in base 10 or with automatic base, gives the integer back when it fits the type, and
  \<^verbatim>\<open>ERANGE\<close> otherwise (for \<^verbatim>\<open>int\<close>, and for non-negative integers for \<^verbatim>\<open>unsigned int\<close>).
\<close>

theorem print_parse_roundtrip:
  assumes "base \<in> {0, 10}" "nl = [] \<or> nl = [NL]"
  shows "kstrtoint (print_d i @ nl) base = (if - 2147483648 \<le> i \<and> i < 2147483648 then Inr i else Inl (- ERANGE)) \<and>
    (0 \<le> i \<longrightarrow> kstrtouint (print_d i @ nl) base = (if i < 4294967296 then Inr i else Inl (- ERANGE)))"
  using kstrtoint_print [OF assms] kstrtouint_print [OF assms] by simp

theorem print_parse_roundtrip_witness:
  "kstrtoint (print_d (- 2147483648) @ [NL]) 0 = Inr (- 2147483648) \<and> kstrtouint (print_d 4294967296) 10 = Inl (- 34)"
  using print_parse_roundtrip [of 0 "[NL]" "- 2147483648"] print_parse_roundtrip [of 10 "[]" 4294967296] by simp

end
