(* ===== verification/Switch_Class.thy ===== *)
theory Switch_Class
  imports Kstrtox
begin

text \<open>
  The switch class (\<^verbatim>\<open>drivers/switch/switch_class.c\<close>): a named integer that drivers publish to user
  space through two attributes and an event on every change.  The outcomes of the device core
  (creation of the class, the device and its files, the free page for the event) are arguments.
  A result \<^term>\<open>None\<close> is an access through a pointer that is NULL or an error code.
\<close>

section \<open>State\<close>

text \<open>\<^verbatim>\<open>switch_class\<close> is NULL, an error pointer or a class; \<^verbatim>\<open>device_count\<close> numbers the devices.\<close>

datatype class_ptr = ClassNull | ClassErr int | ClassOk

record switch_global =
  switch_class :: class_ptr
  device_count :: int

datatype uevent = Uevent_env "string list" | Uevent_plain

datatype sdev_file = StateFile | NameFile

type_synonym sdev_printer = "string \<Rightarrow> int \<Rightarrow> int \<Rightarrow> int \<times> string"

text \<open>
  \<open>sw_dev\<close>: the device exists; \<open>sw_drvdata\<close>: it points back to the switch; \<open>sw_uevents\<close>: the events
  sent so far.  A printer gets the fields of the switch and returns its result and the text.
\<close>

record switch_dev =
  sw_name :: string
  sw_index :: int
  sw_state :: int
  sw_print_name :: "sdev_printer option"
  sw_print_state :: "sdev_printer option"
  sw_dev :: bool
  sw_files :: "sdev_file set"
  sw_drvdata :: bool
  sw_uevents :: "uevent list"

section \<open>Operations\<close>

definition show_with :: "sdev_printer option \<Rightarrow> string \<Rightarrow> switch_dev \<Rightarrow> (int \<times> string) option" where
  "show_with printer text sdev =
     (if \<not> (sw_dev sdev \<and> sw_drvdata sdev) then None
      else case printer of
             Some p \<Rightarrow>
               (let (ret, buf) = p (sw_name sdev) (sw_index sdev) (sw_state sdev)
                in if ret \<ge> 0 then Some (ret, buf) else Some (int (length text), text))
           | None \<Rightarrow> Some (int (length text), text))"

definition state_show :: "switch_dev \<Rightarrow> (int \<times> string) option" where
  "state_show sdev = show_with (sw_print_state sdev) (print_d (sw_state sdev) @ [NL]) sdev"

definition name_show :: "switch_dev \<Rightarrow> (int \<times> string) option" where
  "name_show sdev = show_with (sw_print_name sdev) (sw_name sdev @ [NL]) sdev"

definition switch_get_state :: "switch_dev \<Rightarrow> int" where
  "switch_get_state sdev = sw_state sdev"

text \<open>One entry of the event environment: the newline at the end goes, \<^verbatim>\<open>snprintf\<close> cuts at 119 characters.\<close>

definition env_entry :: "string \<Rightarrow> int \<times> string \<Rightarrow> string list" where
  "env_entry key shown =
     (let (length', buf) = shown;
          buf = (if 0 < length' \<and> length' \<le> int (length buf) \<and> buf ! nat (length' - 1) = NL
                 then take (nat (length' - 1)) buf else buf)
      in if length' > 0 then [take 119 (key @ buf)] else [])"

definition switch_set_state :: "bool \<Rightarrow> switch_dev \<Rightarrow> int \<Rightarrow> switch_dev option" where
  "switch_set_state page sdev state =
     (if sw_state sdev \<noteq> state
      then let sdev = sdev\<lparr>sw_state := state\<rparr>
           in if page
              then do {
                n \<leftarrow> name_show sdev;
                s \<leftarrow> state_show sdev;
                Some (sdev\<lparr>sw_uevents := sw_uevents sdev @
                  [Uevent_env (env_entry ''SWITCH_NAME='' n @ env_entry ''SWITCH_STATE='' s)]\<rparr>)
              }
              else if sw_dev sdev then Some (sdev\<lparr>sw_uevents := sw_uevents sdev @ [Uevent_plain]\<rparr>) else None
      else Some sdev)"

text \<open>The outcomes: an error or none for the class and the device, the results for the two files.\<close>

record switch_env =
  class_err :: "int option"
  device_err :: "int option"
  state_file_ret :: int
  name_file_ret :: int

definition create_switch_class :: "switch_env \<Rightarrow> switch_global \<Rightarrow> int \<times> switch_global" where
  "create_switch_class env g =
     (if switch_class g = ClassNull
      then case class_err env of
             Some e \<Rightarrow> (e, g\<lparr>switch_class := ClassErr e\<rparr>)
           | None \<Rightarrow> (0, g\<lparr>switch_class := ClassOk, device_count := 0\<rparr>)
      else (0, g))"

definition switch_dev_register :: "switch_env \<Rightarrow> switch_global \<Rightarrow> switch_dev \<Rightarrow> (int \<times> switch_global \<times> switch_dev) option" where
  "switch_dev_register env g sdev =
     (let (ret, g) = (if switch_class g = ClassNull then create_switch_class env g else (0, g))
      in if ret < 0 then Some (ret, g, sdev)
         else
           let g = g\<lparr>device_count := s32 (device_count g + 1)\<rparr>;
               sdev = sdev\<lparr>sw_index := device_count g\<rparr>
           in if switch_class g \<noteq> ClassOk then None
              else case device_err env of
                     Some e \<Rightarrow> Some (e, g, sdev\<lparr>sw_dev := False\<rparr>)
                   | None \<Rightarrow>
                       let sdev = sdev\<lparr>sw_dev := True, sw_drvdata := False\<rparr>
                       in if state_file_ret env < 0 then Some (state_file_ret env, g, sdev\<lparr>sw_dev := False\<rparr>)
                          else
                            let sdev = sdev\<lparr>sw_files := insert StateFile (sw_files sdev)\<rparr>
                            in if name_file_ret env < 0
                               then Some (name_file_ret env, g,
                                 sdev\<lparr>sw_files := sw_files sdev - {StateFile}, sw_dev := False\<rparr>)
                               else Some (0, g,
                                 sdev\<lparr>sw_files := insert NameFile (sw_files sdev), sw_drvdata := True, sw_state := 0\<rparr>))"

definition switch_dev_unregister :: "switch_dev \<Rightarrow> switch_dev" where
  "switch_dev_unregister sdev =
     sdev\<lparr>sw_files := sw_files sdev - {NameFile} - {StateFile}, sw_dev := False, sw_drvdata := False\<rparr>"

definition switch_class_exit :: "switch_global \<Rightarrow> switch_global" where
  "switch_class_exit g = g\<lparr>switch_class := ClassNull\<rparr>"

section \<open>Lemmas\<close>

definition published :: "switch_dev \<Rightarrow> bool" where
  "published sdev \<longleftrightarrow> sw_dev sdev \<and> sw_drvdata sdev \<and> sw_print_name sdev = None \<and> sw_print_state sdev = None"

definition change_event :: "string \<Rightarrow> int \<Rightarrow> uevent" where
  "change_event nm st = Uevent_env [take 119 (''SWITCH_NAME='' @ nm), take 119 (''SWITCH_STATE='' @ print_d st)]"

lemma env_entry_line: "env_entry key (int (length t + 1), t @ [NL]) = [take 119 (key @ t)]"
  by (simp add: env_entry_def nth_append)

lemma switch_set_state_published:
  assumes "published sdev"
  shows "switch_set_state page sdev st = Some (if sw_state sdev = st then sdev
    else sdev\<lparr>sw_state := st, sw_uevents := sw_uevents sdev @
      [if page then change_event (sw_name sdev) st else Uevent_plain]\<rparr>)"
proof -
  have "env_entry ''SWITCH_NAME='' (int (length (sw_name sdev @ [NL])), sw_name sdev @ [NL]) =
      [take 119 (''SWITCH_NAME='' @ sw_name sdev)]"
    "env_entry ''SWITCH_STATE='' (int (length (print_d st @ [NL])), print_d st @ [NL]) =
      [take 119 (''SWITCH_STATE='' @ print_d st)]"
    using env_entry_line by simp_all
  then show ?thesis
    using assms unfolding switch_set_state_def name_show_def state_show_def show_with_def
    by (simp add: published_def change_event_def)
qed

lemma switch_set_state_ok:
  assumes "published sdev"
  shows "\<exists>sdev'. switch_set_state page sdev st = Some sdev' \<and> published sdev' \<and> sw_state sdev' = st \<and> sw_name sdev' = sw_name sdev"
  using assms by (cases "sw_state sdev = st") (auto simp: switch_set_state_published published_def)

text \<open>A registration that succeeds publishes the switch; one that fails leaves no file behind.\<close>

lemma register_published:
  assumes "switch_dev_register env g sdev = Some (0, g', sdev')" "sw_print_name sdev = None" "sw_print_state sdev = None"
    and "device_err env \<noteq> Some 0"
  shows "published sdev' \<and> sw_state sdev' = 0 \<and> sw_name sdev' = sw_name sdev \<and> sw_uevents sdev' = sw_uevents sdev"
  using assms by (auto simp: switch_dev_register_def Let_def published_def split: if_splits prod.splits option.splits)

lemma register_fails_clean:
  assumes "switch_dev_register env g sdev = Some (r, g', sdev')" "r \<noteq> 0" "sw_files sdev = {}" "\<not> sw_dev sdev"
  shows "sw_files sdev' = {} \<and> \<not> sw_dev sdev'"
  using assms by (auto simp: switch_dev_register_def Let_def split: if_splits prod.splits option.splits)

text \<open>The states a run of changes goes through.\<close>

fun changes :: "int \<Rightarrow> int list \<Rightarrow> int list" where
  "changes st [] = []"
| "changes st (x # xs) = (if x = st then changes st xs else x # changes x xs)"

fun switch_run :: "switch_dev \<Rightarrow> int list \<Rightarrow> switch_dev option" where
  "switch_run sdev [] = Some sdev"
| "switch_run sdev (st # sts) = Option.bind (switch_set_state True sdev st) (\<lambda>sdev. switch_run sdev sts)"

lemma switch_run_events:
  "published sdev \<Longrightarrow> \<exists>sdev'. switch_run sdev sts = Some sdev' \<and> published sdev' \<and>
     sw_state sdev' = last (sw_state sdev # sts) \<and>
     sw_uevents sdev' = sw_uevents sdev @ map (change_event (sw_name sdev)) (changes (sw_state sdev) sts)"
proof (induction sts arbitrary: sdev)
  case (Cons st sts)
  define sdev1 where "sdev1 = (if sw_state sdev = st then sdev
    else sdev\<lparr>sw_state := st, sw_uevents := sw_uevents sdev @ [change_event (sw_name sdev) st]\<rparr>)"
  have 1: "switch_set_state True sdev st = Some sdev1"
    using switch_set_state_published [OF Cons.prems, of True st] by (simp add: sdev1_def)
  have 2: "published sdev1" "sw_name sdev1 = sw_name sdev" "sw_state sdev1 = st"
    "sw_uevents sdev1 = sw_uevents sdev @ (if sw_state sdev = st then [] else [change_event (sw_name sdev) st])"
    using Cons.prems by (simp_all add: sdev1_def published_def)
  obtain sdev' where "switch_run sdev1 sts = Some sdev'" "published sdev'" "sw_state sdev' = last (st # sts)"
    "sw_uevents sdev' = sw_uevents sdev1 @ map (change_event (sw_name sdev)) (changes st sts)"
    using Cons.IH [OF 2(1)] unfolding 2(2,3) by blast
  then show ?case by (simp add: 1 2(4))
qed simp

section \<open>Properties\<close>

text \<open>
  C31: a registered switch reports faithfully: whatever states a driver sets, exactly one event is
  sent per change and none otherwise, each event carries the name and the new state in decimal, and
  the number parses back to the state.
\<close>

theorem switch_reports_changes:
  assumes "switch_dev_register env g sdev = Some (0, g', sdev0)" "device_err env \<noteq> Some 0"
    and "sw_print_name sdev = None" "sw_print_state sdev = None" "sw_uevents sdev = []"
    and "\<forall>st \<in> set sts. - 2147483648 \<le> st \<and> st < 2147483648"
  shows "\<exists>sdev'. switch_run sdev0 sts = Some sdev' \<and> sw_state sdev' = last (0 # sts) \<and>
    sw_uevents sdev' = map (change_event (sw_name sdev)) (changes 0 sts) \<and>
    (\<forall>st \<in> set (changes 0 sts). kstrtoint (print_d st) 10 = Inr st)"
proof -
  have r: "published sdev0" "sw_state sdev0 = 0" "sw_name sdev0 = sw_name sdev" "sw_uevents sdev0 = []"
    using register_published [OF assms(1,3,4,2)] assms(5) by simp_all
  have sub: "set (changes st xs) \<subseteq> set xs" for st xs by (induction xs arbitrary: st) auto
  have "kstrtoint (print_d st) 10 = Inr st" if "st \<in> set (changes 0 sts)" for st
    using kstrtoint_print [of 10 "[]" st] assms(6) sub that by auto
  then show ?thesis using switch_run_events [OF r(1), of sts] r by auto
qed

definition switch_example :: switch_dev where
  "switch_example = \<lparr>sw_name = ''ld'', sw_index = 0, sw_state = 0, sw_print_name = None, sw_print_state = None,
     sw_dev = False, sw_files = {}, sw_drvdata = False, sw_uevents = []\<rparr>"

definition switch_env_ok :: switch_env where
  "switch_env_ok = \<lparr>class_err = None, device_err = None, state_file_ret = 0, name_file_ret = 0\<rparr>"

lemma switch_example_registers:
  "switch_dev_register switch_env_ok \<lparr>switch_class = ClassNull, device_count = 0\<rparr> switch_example =
     Some (0, \<lparr>switch_class = ClassOk, device_count = 1\<rparr>,
       switch_example\<lparr>sw_index := 1, sw_dev := True, sw_drvdata := True, sw_files := {StateFile, NameFile}\<rparr>)"
  by (auto simp: switch_dev_register_def create_switch_class_def switch_env_ok_def switch_example_def)

theorem switch_reports_changes_witness:
  "\<exists>sdev'. switch_run (switch_example\<lparr>sw_index := 1, sw_dev := True, sw_drvdata := True, sw_files := {StateFile, NameFile}\<rparr>)
       [1, 1, 2, 0] = Some sdev' \<and> sw_state sdev' = 0 \<and>
     sw_uevents sdev' = map (change_event ''ld'') [1, 2, 0]"
  using switch_reports_changes [OF switch_example_registers, of "[1, 1, 2, 0]"]
  by (auto simp: switch_env_ok_def switch_example_def simp del: switch_run.simps)

text \<open>
  a class that could not be created is never tried again: after the error the pointer holds the
  error code, and the next registration of any switch goes through it.
\<close>

theorem switch_register_after_class_error:
  assumes "switch_class g = ClassNull" "class_err env = Some e" "e < 0"
  shows "\<exists>g'. switch_dev_register env g sdev = Some (e, g', sdev) \<and> switch_dev_register env' g' sdev' = None"
  using assms by (simp add: switch_dev_register_def create_switch_class_def)

theorem switch_register_after_class_error_witness:
  "\<exists>g'. switch_dev_register (switch_env_ok\<lparr>class_err := Some (- 12)\<rparr>) \<lparr>switch_class = ClassNull, device_count = 0\<rparr> switch_example =
       Some (- 12, g', switch_example) \<and> switch_dev_register switch_env_ok g' switch_example = None"
  using switch_register_after_class_error [of "\<lparr>switch_class = ClassNull, device_count = 0\<rparr>" "switch_env_ok\<lparr>class_err := Some (- 12)\<rparr>" "- 12"
      switch_example switch_env_ok switch_example] by simp

end
