(* ===== verification/Pubadc.thy ===== *)
theory Pubadc
  imports Kernel_Base
begin

text \<open>
  The shared ADC (\<^verbatim>\<open>drivers/usb/typec/pubadc_manage/pubadc_manage.c\<close>): one converter serves the
  battery id and the liquid detection through an analog multiplexer.  The converter is the argument
  \<open>iio\<close>, which gets the channel and the position of the multiplexer; the device tree, the GPIOs and the
  pin controller are the fields of \<open>pubadc_env\<close>.
\<close>

section \<open>Reading\<close>

datatype pubadc_type = PUBADC_BAT_ID | PUBADC_LIQUID

datatype adc_channel = PublicChannel | OwnChannel

text \<open>
  \<open>mux\<close> is the pin state last selected; \<open>last_pubadc_type\<close> is the static variable of the reader.
\<close>

record public_adc =
  init_state :: bool
  last_pubadc_type :: pubadc_type
  mux :: pubadc_type
  pub_locked :: bool

definition public_adc_initial :: public_adc where
  "public_adc_initial = \<lparr>init_state = False, last_pubadc_type = PUBADC_BAT_ID, mux = PUBADC_BAT_ID, pub_locked = False\<rparr>"

definition get_pubadc_init_state :: "public_adc \<Rightarrow> bool" where
  "get_pubadc_init_state pub = init_state pub"

type_synonym iio_adc = "adc_channel \<Rightarrow> pubadc_type \<Rightarrow> int + int"

definition pubadc_iio_read_channel ::
    "iio_adc \<Rightarrow> pubadc_type \<Rightarrow> public_adc \<Rightarrow> (int + int) \<times> public_adc" where
  "pubadc_iio_read_channel iio type pub =
     (if init_state pub
      then
        let pub = pub\<lparr>pub_locked := True\<rparr>;
            pub = (if last_pubadc_type pub \<noteq> type then pub\<lparr>mux := type, last_pubadc_type := type\<rparr> else pub);
            ret = iio PublicChannel (mux pub)
        in (ret, pub\<lparr>pub_locked := False\<rparr>)
      else (iio OwnChannel (mux pub), pub))"

section \<open>Probing\<close>

record gpio_env =
  gpio_valid :: bool
  gpio_request_ret :: int
  gpio_value :: int

record pubadc_env =
  dts_id :: "u8 option"
  gpio_id0 :: gpio_env
  gpio_id1 :: gpio_env
  pinctrl_ok :: bool
  bat_id_state_ok :: bool
  liquid_state_ok :: bool
  channel_ok :: bool

definition id_from_gpios :: "gpio_env \<Rightarrow> gpio_env \<Rightarrow> u8" where
  "id_from_gpios g0 g1 =
     (if \<not> gpio_valid g0 \<or> gpio_request_ret g0 \<noteq> 0 then 0
      else if \<not> gpio_valid g1 \<or> gpio_request_ret g1 \<noteq> 0 then 0
      else word_of_int (push_bit 1 (gpio_value g1) OR gpio_value g0))"

definition pubadc_get_id :: "pubadc_env \<Rightarrow> u8" where
  "pubadc_get_id env = id_from_gpios (gpio_id0 env) (gpio_id1 env)"

definition pubadc_check_id :: "pubadc_env \<Rightarrow> bool" where
  "pubadc_check_id env = (case dts_id env of None \<Rightarrow> False | Some i \<Rightarrow> i = pubadc_get_id env)"

definition pubadc_pinctrl_init :: "pubadc_env \<Rightarrow> public_adc \<Rightarrow> int \<times> public_adc" where
  "pubadc_pinctrl_init env pub =
     (if \<not> pinctrl_ok env then (- 1, pub)
      else if \<not> bat_id_state_ok env then (- 1, pub)
      else if \<not> liquid_state_ok env then (- 1, pub)
      else (0, pub\<lparr>mux := PUBADC_BAT_ID\<rparr>))"

definition pubadc_get_auxadc_channel :: "pubadc_env \<Rightarrow> int" where
  "pubadc_get_auxadc_channel env = (if channel_ok env then 0 else - 1)"

definition pubadc_probe :: "pubadc_env \<Rightarrow> public_adc \<Rightarrow> int \<times> public_adc" where
  "pubadc_probe env pub =
     (if \<not> pubadc_check_id env then (- ENODEV, pub\<lparr>init_state := False\<rparr>)
      else
        let (ret, pub) = pubadc_pinctrl_init env pub
        in if ret \<noteq> 0 then (- ENODEV, pub\<lparr>init_state := False\<rparr>)
           else if pubadc_get_auxadc_channel env \<noteq> 0 then (- ENODEV, pub\<lparr>init_state := False\<rparr>)
           else (0, pub\<lparr>init_state := True\<rparr>))"

section \<open>Lemmas\<close>

text \<open>The multiplexer stands where the reader believes it to stand.\<close>

definition mux_ok :: "public_adc \<Rightarrow> bool" where
  "mux_ok pub \<longleftrightarrow> (init_state pub \<longrightarrow> mux pub = last_pubadc_type pub) \<and> \<not> pub_locked pub"

lemma read_mux_ok: "mux_ok pub \<Longrightarrow> mux_ok (snd (pubadc_iio_read_channel iio ty pub))"
  by (simp add: mux_ok_def pubadc_iio_read_channel_def Let_def)

lemma read_measures:
  "mux_ok pub \<Longrightarrow> init_state pub \<Longrightarrow> fst (pubadc_iio_read_channel iio ty pub) = iio PublicChannel ty"
  by (auto simp: mux_ok_def pubadc_iio_read_channel_def Let_def)

lemma read_init [simp]: "init_state (snd (pubadc_iio_read_channel iio ty pub)) = init_state pub"
  by (simp add: pubadc_iio_read_channel_def Let_def)

lemma probe_initial: "mux_ok (snd (pubadc_probe env public_adc_initial))"
  by (simp add: mux_ok_def pubadc_probe_def pubadc_pinctrl_init_def public_adc_initial_def)

text \<open>A sequence of readers, each with its own converter state and type.\<close>

fun pubadc_run :: "(iio_adc \<times> pubadc_type) list \<Rightarrow> public_adc \<Rightarrow> (int + int) list \<times> public_adc" where
  "pubadc_run [] pub = ([], pub)"
| "pubadc_run ((iio, ty) # rs) pub =
     (let (r, pub) = pubadc_iio_read_channel iio ty pub;
          (vs, pub) = pubadc_run rs pub
      in (r # vs, pub))"

lemma run_measures:
  "mux_ok pub \<Longrightarrow> init_state pub \<Longrightarrow> fst (pubadc_run rs pub) = map (\<lambda>(iio, ty). iio PublicChannel ty) rs"
proof (induction rs arbitrary: pub)
  case (Cons r rs)
  obtain iio ty where r: "r = (iio, ty)" by (cases r)
  show ?case
    using Cons.IH [OF read_mux_ok [OF Cons.prems(1), of iio ty]] Cons.prems read_measures [OF Cons.prems, of iio ty]
    by (simp add: r split_def)
qed simp

section \<open>Properties\<close>


definition pubadc_env_ok :: pubadc_env where
  "pubadc_env_ok = \<lparr>dts_id = Some 2, gpio_id0 = \<lparr>gpio_valid = True, gpio_request_ret = 0, gpio_value = 0\<rparr>,
     gpio_id1 = \<lparr>gpio_valid = True, gpio_request_ret = 0, gpio_value = 1\<rparr>, pinctrl_ok = True,
     bat_id_state_ok = True, liquid_state_ok = True, channel_ok = True\<rparr>"

lemma pubadc_probe_example: "pubadc_probe pubadc_env_ok public_adc_initial = (0, public_adc_initial\<lparr>init_state := True\<rparr>)"
  by (simp add: pubadc_probe_def pubadc_check_id_def pubadc_get_id_def id_from_gpios_def pubadc_pinctrl_init_def
      pubadc_get_auxadc_channel_def pubadc_env_ok_def public_adc_initial_def push_bit_eq_mult)


text \<open>
  a second probe breaks this: it moves the multiplexer to the battery id without resetting the
  static variable of the reader, so a liquid reading that follows an earlier one is measured on the
  battery id.
\<close>

theorem pubadc_reprobe_reads_wrong_input:
  fixes iio :: iio_adc
  assumes "pubadc_probe env public_adc_initial = (0, pub)"
  defines "pub1 \<equiv> snd (pubadc_iio_read_channel iio PUBADC_LIQUID pub)"
  shows "fst (pubadc_iio_read_channel iio' PUBADC_LIQUID (snd (pubadc_probe env pub1))) = iio' PublicChannel PUBADC_BAT_ID"
  using assms(1)
  by (auto simp: pub1_def pubadc_probe_def pubadc_pinctrl_init_def pubadc_iio_read_channel_def Let_def
      public_adc_initial_def split: if_splits)

theorem pubadc_reprobe_reads_wrong_input_witness:
  "fst (pubadc_iio_read_channel (\<lambda>c t. Inr (if t = PUBADC_LIQUID then 130 else 700)) PUBADC_LIQUID
     (snd (pubadc_probe pubadc_env_ok (snd (pubadc_iio_read_channel (\<lambda>c t. Inr 0) PUBADC_LIQUID
        (public_adc_initial\<lparr>init_state := True\<rparr>)))))) = Inr 700"
  using pubadc_reprobe_reads_wrong_input [OF pubadc_probe_example] by simp

end
