(* ===== verification/Amzn_Ld.thy ===== *)
theory Amzn_Ld
  imports Switch_Class Pubadc
begin

text \<open>
  The liquid detection of the USB port (\<^verbatim>\<open>drivers/usb/typec/amzn_ld/amzn_ld.c\<close>): a periodic work item
  measures the two SBU pins through the shared ADC (\<open>Pubadc\<close>), publishes dry, wet or wet with VBUS
  through a switch (\<open>Switch_Class\<close>), and asks the Type-C and battery drivers for a role and a current
  limit.  The model follows the configuration with the shared ADC (\<^verbatim>\<open>CONFIG_PUBADC_MANAGE\<close>).

  \<open>ld_hw\<close> is the hardware and what has been requested of other drivers, \<open>liquid\<close> the driver's
  structure, \<open>ld_env\<close> the answers of the world during one run of a work item.  A result \<^term>\<open>None\<close> is a use
  of an error pointer.
\<close>

section \<open>State\<close>

abbreviation (input) TYPE_DRY :: int where "TYPE_DRY \<equiv> 0"
abbreviation (input) TYPE_WET :: int where "TYPE_WET \<equiv> 1"
abbreviation (input) TYPE_WET_VBUS :: int where "TYPE_WET_VBUS \<equiv> 2"
abbreviation (input) ADC_MAX_MV :: int where "ADC_MAX_MV \<equiv> 1500"
abbreviation (input) INVALID_VBUS_MV :: int where "INVALID_VBUS_MV \<equiv> 3000"
abbreviation (input) IUSB_LIMITATION_UA :: int where "IUSB_LIMITATION_UA \<equiv> 10000"
abbreviation (input) RECHECK_DELAY_SEC :: int where "RECHECK_DELAY_SEC \<equiv> 5"
abbreviation (input) STEP1_DEFAULT_VAL :: int where "STEP1_DEFAULT_VAL \<equiv> 0"
abbreviation (input) STEP2_DEFAULT_VAL :: int where "STEP2_DEFAULT_VAL \<equiv> 1499"

datatype pin_level = PinInit | PinLow | PinHigh

record ld_pins =
  ctrl1 :: pin_level
  detection1 :: pin_level
  detection2 :: pin_level

datatype typec_role = TYPEC_ROLE_TRY_SNK | TYPEC_ROLE_SNK

record ld_hw =
  pins :: ld_pins
  pub :: public_adc
  conversions :: nat
  role_request :: "typec_role option"
  limit_request :: "int option"
  metrics :: "(int \<times> int \<times> int) list"

record liquid =
  gpio_reverse_ctrl :: bool
  work_interval :: "int list"
  threshold_l :: int
  threshold_h :: int
  sbu1_step1_val :: int
  sbu1_step2_val :: int
  sbu2_step1_val :: int
  sbu2_step2_val :: int
  adc_ch :: bool
  chg_psy :: bool
  bat_psy :: bool
  st_switch :: switch_dev
  wake_lock :: bool
  routine_queued :: "int option"
  vbus_queued :: bool
  event_ts :: int
  pin_states :: "string \<Rightarrow> bool"
  hw :: ld_hw

record ld_env =
  system_running :: bool
  conv :: "nat \<Rightarrow> ld_pins \<Rightarrow> iio_adc"
  chg_psy_found :: bool
  vbus_now :: "int + int"
  bat_psy_found :: bool
  set_limit_ret :: int
  boottime :: int
  page_ok :: bool

section \<open>Attributes\<close>

definition val_show :: "int \<Rightarrow> string" where
  "val_show v = print_d v @ [NL]"

definition sbu1_step1_val_show :: "liquid \<Rightarrow> string" where
  "sbu1_step1_val_show l = val_show (sbu1_step1_val l)"

definition sbu2_step1_val_show :: "liquid \<Rightarrow> string" where
  "sbu2_step1_val_show l = val_show (sbu2_step1_val l)"

definition sbu1_step2_val_show :: "liquid \<Rightarrow> string" where
  "sbu1_step2_val_show l = val_show (sbu1_step2_val l)"

definition sbu2_step2_val_show :: "liquid \<Rightarrow> string" where
  "sbu2_step2_val_show l = val_show (sbu2_step2_val l)"

text \<open>The thresholds are \<^verbatim>\<open>unsigned int\<close> printed with \<^verbatim>\<open>%d\<close>.\<close>

definition threshod_l_show :: "liquid \<Rightarrow> string" where
  "threshod_l_show l = val_show (s32 (threshold_l l))"

definition threshod_l_store :: "string \<Rightarrow> liquid \<Rightarrow> int \<times> liquid" where
  "threshod_l_store buff l =
     (case kstrtouint buff 0 of Inl _ \<Rightarrow> (- EINVAL, l) | Inr temp \<Rightarrow> (int (length buff), l\<lparr>threshold_l := temp\<rparr>))"

definition threshod_h_show :: "liquid \<Rightarrow> string" where
  "threshod_h_show l = val_show (s32 (threshold_h l))"

definition threshod_h_store :: "string \<Rightarrow> liquid \<Rightarrow> int \<times> liquid" where
  "threshod_h_store buff l =
     (case kstrtouint buff 0 of Inl _ \<Rightarrow> (- EINVAL, l) | Inr temp \<Rightarrow> (int (length buff), l\<lparr>threshold_h := temp\<rparr>))"

text \<open>The six attribute files, created in order; a failure removes them in reverse order.\<close>

definition ld_attr_names :: "string list" where
  "ld_attr_names = [''sbu1_step1_val'', ''sbu2_step1_val'', ''sbu1_step2_val'', ''sbu2_step2_val'', ''threshod_l'', ''threshod_h'']"

fun create_attrs :: "(string \<Rightarrow> int) \<Rightarrow> string list \<Rightarrow> string list \<Rightarrow> string set \<Rightarrow> int \<times> string set" where
  "create_attrs ret [] done' files = (0, files)"
| "create_attrs ret (a # as) done' files =
     (if ret a < 0 then (ret a, fold (\<lambda>b fs. fs - {b}) (a # done') files)
      else create_attrs ret as (a # done') (insert a files))"

definition liquid_create_attr :: "(string \<Rightarrow> int) \<Rightarrow> string set \<Rightarrow> int \<times> string set" where
  "liquid_create_attr ret files = create_attrs ret ld_attr_names [] files"

definition liquid_delete_attr :: "string set \<Rightarrow> string set" where
  "liquid_delete_attr files = fold (\<lambda>b fs. fs - {b}) ld_attr_names files"

section \<open>Events and other drivers\<close>

definition liquid_report_event :: "ld_env \<Rightarrow> liquid \<Rightarrow> int \<Rightarrow> liquid option" where
  "liquid_report_event env l event =
     (let pre_event = switch_get_state (st_switch l)
      in if pre_event \<noteq> event
         then do {
           sw \<leftarrow> switch_set_state (page_ok env) (st_switch l) event;
           let duration_sec = (if pre_event = TYPE_DRY then 0 else s32 (boottime env - event_ts l));
           Some (l\<lparr>st_switch := sw, event_ts := boottime env,
                   hw := (hw l)\<lparr>metrics := metrics (hw l) @ [(event, pre_event, duration_sec)]\<rparr>\<rparr>)
         }
         else Some l)"

definition liquid_check_vbus_valid :: "ld_env \<Rightarrow> liquid \<Rightarrow> bool \<times> liquid" where
  "liquid_check_vbus_valid env l =
     (let l = (if \<not> chg_psy l then l\<lparr>chg_psy := chg_psy_found env\<rparr> else l)
      in if \<not> chg_psy l then (False, l)
         else case vbus_now env of
                Inl ret \<Rightarrow> (False, l)
              | Inr intval \<Rightarrow> (intval > INVALID_VBUS_MV, l))"

definition liquid_limit_charging_current :: "ld_env \<Rightarrow> liquid \<Rightarrow> bool \<Rightarrow> int \<times> liquid" where
  "liquid_limit_charging_current env l en =
     (let l = (if \<not> bat_psy l then l\<lparr>bat_psy := bat_psy_found env\<rparr> else l)
      in if \<not> bat_psy l then (0, l)
         else (set_limit_ret env,
               l\<lparr>hw := (hw l)\<lparr>limit_request := Some (if en then IUSB_LIMITATION_UA else - 1)\<rparr>\<rparr>))"

definition tcpm_typec_change_role :: "typec_role \<Rightarrow> liquid \<Rightarrow> liquid" where
  "tcpm_typec_change_role role l = l\<lparr>hw := (hw l)\<lparr>role_request := Some role\<rparr>\<rparr>"

definition liquid_select_interval :: "liquid \<Rightarrow> int \<Rightarrow> int" where
  "liquid_select_interval l state =
     (if state \<ge> 0 \<and> state < int (length (work_interval l)) then s32 (work_interval l ! nat state)
      else s32 (work_interval l ! 1))"

section \<open>Measuring\<close>

definition liquid_get_auxadc_value :: "ld_env \<Rightarrow> liquid \<Rightarrow> int \<times> liquid" where
  "liquid_get_auxadc_value env l =
     (if \<not> adc_ch l then (- EINVAL, l)
      else
        let (ret, p) = pubadc_iio_read_channel (conv env (conversions (hw l)) (pins (hw l))) PUBADC_LIQUID (pub (hw l));
            l = l\<lparr>hw := (hw l)\<lparr>pub := p, conversions := conversions (hw l) + 1\<rparr>\<rparr>
        in case ret of Inl e \<Rightarrow> (e, l) | Inr auxadc_cali_mv \<Rightarrow> (auxadc_cali_mv, l))"

text \<open>\<^verbatim>\<open>pinctrl_select_state\<close> with a state that the look-up did not find uses an error pointer.\<close>

definition pinctrl_select_state :: "string \<Rightarrow> (ld_pins \<Rightarrow> ld_pins) \<Rightarrow> liquid \<Rightarrow> liquid option" where
  "pinctrl_select_state name f l =
     (if pin_states l name then Some (l\<lparr>hw := (hw l)\<lparr>pins := f (pins (hw l))\<rparr>\<rparr>) else None)"

datatype ld_detection_switch = DETECTION_SBU1 | DETECTION_SBU2
datatype ld_sbu_pull = SBU1_PULL_UP | SBU1_PULL_DOWN | SBU2_PULL_UP | SBU2_PULL_DOWN

fun liquid_select_detection_switch :: "liquid \<Rightarrow> ld_detection_switch \<Rightarrow> liquid option" where
  "liquid_select_detection_switch l DETECTION_SBU1 = pinctrl_select_state ''ldctrl1_high'' (ctrl1_update (\<lambda>_. PinHigh)) l"
| "liquid_select_detection_switch l DETECTION_SBU2 = pinctrl_select_state ''ldctrl1_low'' (ctrl1_update (\<lambda>_. PinLow)) l"

fun liquid_en_pull_sbu :: "liquid \<Rightarrow> ld_sbu_pull \<Rightarrow> liquid option" where
  "liquid_en_pull_sbu l SBU1_PULL_UP = pinctrl_select_state ''lddetection1_high'' (detection1_update (\<lambda>_. PinHigh)) l"
| "liquid_en_pull_sbu l SBU1_PULL_DOWN = pinctrl_select_state ''lddetection1_low'' (detection1_update (\<lambda>_. PinLow)) l"
| "liquid_en_pull_sbu l SBU2_PULL_UP = pinctrl_select_state ''lddetection2_high'' (detection2_update (\<lambda>_. PinHigh)) l"
| "liquid_en_pull_sbu l SBU2_PULL_DOWN = pinctrl_select_state ''lddetection2_low'' (detection2_update (\<lambda>_. PinLow)) l"

definition liquid_is_in_range :: "int \<Rightarrow> int \<Rightarrow> int \<Rightarrow> bool" where
  "liquid_is_in_range mv range_l range_h \<longleftrightarrow> mv \<ge> range_l \<and> mv \<le> range_h"

definition liquid_get_step1_adcval :: "ld_env \<Rightarrow> liquid \<Rightarrow> liquid option" where
  "liquid_get_step1_adcval env l = do {
     l \<leftarrow> liquid_select_detection_switch l DETECTION_SBU1;
     let (v, l) = liquid_get_auxadc_value env l;
     let l = l\<lparr>sbu1_step1_val := v\<rparr>;
     l \<leftarrow> liquid_select_detection_switch l DETECTION_SBU2;
     let (v, l) = liquid_get_auxadc_value env l;
     Some (l\<lparr>sbu2_step1_val := v\<rparr>)
   }"

definition liquid_get_step2_adcval :: "ld_env \<Rightarrow> liquid \<Rightarrow> liquid option" where
  "liquid_get_step2_adcval env l = do {
     l \<leftarrow> liquid_select_detection_switch l DETECTION_SBU1;
     l \<leftarrow> liquid_en_pull_sbu l (if gpio_reverse_ctrl l then SBU1_PULL_DOWN else SBU1_PULL_UP);
     let (v, l) = liquid_get_auxadc_value env l;
     let l = l\<lparr>sbu1_step2_val := v\<rparr>;
     l \<leftarrow> liquid_en_pull_sbu l (if gpio_reverse_ctrl l then SBU1_PULL_UP else SBU1_PULL_DOWN);
     l \<leftarrow> liquid_select_detection_switch l DETECTION_SBU2;
     l \<leftarrow> liquid_en_pull_sbu l (if gpio_reverse_ctrl l then SBU2_PULL_DOWN else SBU2_PULL_UP);
     let (v, l) = liquid_get_auxadc_value env l;
     let l = l\<lparr>sbu2_step2_val := v\<rparr>;
     liquid_en_pull_sbu l (if gpio_reverse_ctrl l then SBU2_PULL_UP else SBU2_PULL_DOWN)
   }"

definition liquid_is_dry :: "ld_env \<Rightarrow> liquid \<Rightarrow> liquid option" where
  "liquid_is_dry env l = do {
     l \<leftarrow> liquid_report_event env l TYPE_DRY;
     let l = tcpm_typec_change_role TYPEC_ROLE_TRY_SNK l;
     Some (snd (liquid_limit_charging_current env l False))
   }"

definition liquid_is_wet :: "ld_env \<Rightarrow> liquid \<Rightarrow> liquid option" where
  "liquid_is_wet env l =
     (let l = tcpm_typec_change_role TYPEC_ROLE_SNK l;
          (_, l) = liquid_limit_charging_current env l True;
          (valid, l) = liquid_check_vbus_valid env l
      in liquid_report_event env l (if valid then TYPE_WET_VBUS else TYPE_WET))"

definition liquid_clear_sbuval :: "liquid \<Rightarrow> int \<Rightarrow> int \<Rightarrow> liquid" where
  "liquid_clear_sbuval l step1_val step2_val =
     l\<lparr>sbu1_step1_val := step1_val, sbu2_step1_val := step1_val,
       sbu1_step2_val := step2_val, sbu2_step2_val := step2_val\<rparr>"

section \<open>The work items\<close>

definition step1_wet :: "liquid \<Rightarrow> int \<Rightarrow> bool" where
  "step1_wet l thr \<longleftrightarrow> liquid_is_in_range (sbu1_step1_val l) thr ADC_MAX_MV \<or>
     liquid_is_in_range (sbu2_step1_val l) thr ADC_MAX_MV"

text \<open>The part of the routine between the two measurements and the label \<^verbatim>\<open>skip\<close>.\<close>

definition liquid_decide :: "ld_env \<Rightarrow> int \<Rightarrow> int \<Rightarrow> int \<Rightarrow> liquid \<Rightarrow> liquid option" where
  "liquid_decide env state thr_l thr_h l =
     (if state = TYPE_DRY
      then if step1_wet l thr_l
           then do {
             l \<leftarrow> liquid_get_step1_adcval env l;
             if step1_wet l thr_l then liquid_is_wet env l else Some l
           }
           else Some l
      else if step1_wet l thr_l then Some l
      else do {
        l \<leftarrow> liquid_get_step2_adcval env l;
        if liquid_is_in_range (sbu1_step2_val l) thr_h ADC_MAX_MV \<and> liquid_is_in_range (sbu2_step2_val l) thr_h ADC_MAX_MV
        then liquid_is_dry env l else Some l
      })"

definition liquid_routine_work :: "ld_env \<Rightarrow> liquid \<Rightarrow> liquid option" where
  "liquid_routine_work env l =
     (let l = l\<lparr>wake_lock := True, routine_queued := None\<rparr>
      in if \<not> system_running env
         then Some (l\<lparr>routine_queued := Some RECHECK_DELAY_SEC, wake_lock := False\<rparr>)
         else do {
           let state = switch_get_state (st_switch l);
           let thr_l = s32 (threshold_l l);
           let thr_h = s32 (threshold_h l);
           let l = liquid_clear_sbuval l STEP1_DEFAULT_VAL STEP2_DEFAULT_VAL;
           l \<leftarrow> liquid_get_step1_adcval env l;
           l \<leftarrow> liquid_decide env state thr_l thr_h l;
           let interval = liquid_select_interval l state;
           Some (l\<lparr>routine_queued := Some interval, wake_lock := False\<rparr>)
         })"

definition liquid_vbus_detect :: "ld_env \<Rightarrow> liquid \<Rightarrow> liquid option" where
  "liquid_vbus_detect env l =
     (let state = switch_get_state (st_switch l);
          (valid, l) = liquid_check_vbus_valid env (l\<lparr>vbus_queued := False\<rparr>)
      in if valid
         then if state = TYPE_WET then liquid_report_event env l TYPE_WET_VBUS else Some l
         else if state = TYPE_WET_VBUS then liquid_report_event env l TYPE_WET else Some l)"


section \<open>Probing and shutting down\<close>

text \<open>
  \<open>ld_sys\<close> is the driver as the kernel sees it: the structure \<^verbatim>\<open>g_liquid\<close> points to, the attribute
  files, the notifier of the charger (registered in live or in freed memory), the switch class, and the
  switch embedded in a structure that has been freed, as it was then.
\<close>

datatype nb_state = NbNone | NbRegistered | NbDangling

record ld_sys =
  g_liquid :: "liquid option"
  ld_attrs :: "string set"
  chg1_nb :: nb_state
  sw_global :: switch_global
  freed_switch :: "switch_dev option"
  hw_idle :: ld_hw

record ld_probe_env =
  alloc_ok :: bool
  adc_found :: bool
  tcpc_found :: bool
  charger_found :: bool
  pinctrl_found :: bool
  state_found :: "string \<Rightarrow> bool"
  dt_work_interval :: "(int \<times> int \<times> int) option"
  dt_threshold :: "(int \<times> int) option"
  dt_gpio_reverse :: bool
  switch_outcome :: switch_env
  attr_ret :: "string \<Rightarrow> int"
  probe_time :: int

text \<open>
  The look-ups in the order of the source.  The result for \<^verbatim>\<open>lddetection1_low\<close> is not among the ones
  checked: the source tests \<^verbatim>\<open>ld_detection1_init\<close> a second time.
\<close>

definition ld_checked_states :: "string list" where
  "ld_checked_states = [''ldctrl1_init'', ''ldctrl1_low'', ''ldctrl1_high'', ''lddetection1_init'', ''lddetection1_init'',
     ''lddetection1_high'', ''lddetection2_init'', ''lddetection2_low'', ''lddetection2_high'']"

definition liquid_pinctrl_init :: "ld_probe_env \<Rightarrow> liquid \<Rightarrow> int \<times> liquid" where
  "liquid_pinctrl_init env l =
     (if \<not> pinctrl_found env then (- 1, l)
      else
        let l = l\<lparr>pin_states := state_found env\<rparr>
        in if \<not> list_all (state_found env) ld_checked_states then (- 1, l)
           else (0, l\<lparr>hw := (hw l)\<lparr>pins := \<lparr>ctrl1 = PinInit, detection1 = PinInit, detection2 = PinInit\<rparr>\<rparr>\<rparr>))"

definition liquid_parse_dt :: "ld_probe_env \<Rightarrow> liquid \<Rightarrow> liquid" where
  "liquid_parse_dt env l =
     (let l = l\<lparr>work_interval := (case dt_work_interval env of None \<Rightarrow> [15, 30, 60] | Some (a, b, c) \<Rightarrow> [a, b, c])\<rparr>;
          (tl', th) = (case dt_threshold env of None \<Rightarrow> (120, 1450) | Some t \<Rightarrow> t)
      in l\<lparr>threshold_l := tl', threshold_h := th, gpio_reverse_ctrl := dt_gpio_reverse env\<rparr>)"

definition liquid_vbus_changed :: "ld_sys \<Rightarrow> ld_sys" where
  "liquid_vbus_changed sys =
     (case g_liquid sys of None \<Rightarrow> sys | Some l \<Rightarrow> sys\<lparr>g_liquid := Some (l\<lparr>vbus_queued := True\<rparr>)\<rparr>)"

datatype charger_event = CHARGER_DEV_NOTIFY_VBUS_EVENT | CHARGER_DEV_NOTIFY_OTHER

text \<open>The charger calls the notifier block wherever it is registered, also in freed memory.\<close>

definition liquid_dev_event :: "charger_event \<Rightarrow> ld_sys \<Rightarrow> ld_sys option" where
  "liquid_dev_event event sys =
     (case chg1_nb sys of
        NbNone \<Rightarrow> Some sys
      | NbDangling \<Rightarrow> None
      | NbRegistered \<Rightarrow>
          (case event of CHARGER_DEV_NOTIFY_VBUS_EVENT \<Rightarrow> Some (liquid_vbus_changed sys) | _ \<Rightarrow> Some sys))"

definition liquid_get_id :: "gpio_env \<Rightarrow> gpio_env \<Rightarrow> u8" where
  "liquid_get_id g0 g1 = id_from_gpios g0 g1"

definition liquid_check_id :: "bool \<Rightarrow> u8 option \<Rightarrow> gpio_env \<Rightarrow> gpio_env \<Rightarrow> bool" where
  "liquid_check_id ignore_id_check liquid_dts_id g0 g1 =
     (if ignore_id_check then True
      else case liquid_dts_id of None \<Rightarrow> False | Some i \<Rightarrow> i = liquid_get_id g0 g1)"

definition liquid_zero :: "ld_hw \<Rightarrow> liquid" where
  "liquid_zero h = \<lparr>gpio_reverse_ctrl = False, work_interval = [0, 0, 0], threshold_l = 0, threshold_h = 0,
     sbu1_step1_val = 0, sbu1_step2_val = 0, sbu2_step1_val = 0, sbu2_step2_val = 0, adc_ch = False,
     chg_psy = False, bat_psy = False,
     st_switch = \<lparr>sw_name = [], sw_index = 0, sw_state = 0, sw_print_name = None, sw_print_state = None,
       sw_dev = False, sw_files = {}, sw_drvdata = False, sw_uevents = []\<rparr>,
     wake_lock = False, routine_queued = None, vbus_queued = False, event_ts = 0,
     pin_states = (\<lambda>_. False), hw = h\<rparr>"

text \<open>The part of the probe behind the registration of the notifier, with its error path.\<close>

definition liquid_probe_late :: "ld_probe_env \<Rightarrow> liquid \<Rightarrow> ld_sys \<Rightarrow> (int \<times> ld_sys) option" where
  "liquid_probe_late env l sys =
     (let (ret, l) = liquid_pinctrl_init env l
      in if ret \<noteq> 0 then Some (- ENODEV, sys\<lparr>chg1_nb := NbNone, freed_switch := Some (st_switch l), hw_idle := hw l\<rparr>)
         else
           let l = liquid_parse_dt env l;
               l = l\<lparr>st_switch := (st_switch l)\<lparr>sw_name := ''ld'', sw_index := 0, sw_state := TYPE_DRY\<rparr>\<rparr>
           in do {
             (ret, g, sw) \<leftarrow> switch_dev_register (switch_outcome env) (sw_global sys) (st_switch l);
             let sys = sys\<lparr>sw_global := g\<rparr>;
             if ret \<noteq> 0 then Some (ret, sys\<lparr>chg1_nb := NbNone, freed_switch := Some sw, hw_idle := hw l\<rparr>)
             else
               let (ret, files) = liquid_create_attr (attr_ret env) (ld_attrs sys);
                   sys = sys\<lparr>ld_attrs := files\<rparr>
               in if ret < 0
                  then Some (ret, sys\<lparr>chg1_nb := NbNone, freed_switch := Some (switch_dev_unregister sw), hw_idle := hw l\<rparr>)
                  else Some (0, sys\<lparr>g_liquid := Some (l\<lparr>st_switch := sw, event_ts := probe_time env, routine_queued := Some 0\<rparr>)\<rparr>)
           })"

definition liquid_probe :: "ld_probe_env \<Rightarrow> ld_sys \<Rightarrow> (int \<times> ld_sys) option" where
  "liquid_probe env sys =
     (if \<not> alloc_ok env then Some (- ENOMEM, sys)
      else if \<not> get_pubadc_init_state (pub (hw_idle sys)) then Some (- ENODEV, sys)
      else if \<not> adc_found env then Some (- EPROBE_DEFER, sys)
      else if \<not> tcpc_found env then Some (- EPROBE_DEFER, sys)
      else if \<not> charger_found env then Some (- EPROBE_DEFER, sys)
      else liquid_probe_late env ((liquid_zero (hw_idle sys))\<lparr>adc_ch := True\<rparr>) (sys\<lparr>chg1_nb := NbRegistered\<rparr>))"

definition liquid_shutdown :: "ld_sys \<Rightarrow> ld_sys option" where
  "liquid_shutdown sys =
     (case g_liquid sys of
        None \<Rightarrow> None
      | Some l \<Rightarrow> Some (sys\<lparr>g_liquid := None, ld_attrs := liquid_delete_attr (ld_attrs sys),
                          chg1_nb := (if chg1_nb sys = NbRegistered then NbDangling else chg1_nb sys),
                          freed_switch := Some (st_switch l), hw_idle := hw l\<rparr>))"


section \<open>Measurements\<close>

text \<open>
  What one conversion reads, and the effect of the two measurement steps on a driver whose converter
  and pins are ready.
\<close>

definition reading :: "ld_env \<Rightarrow> nat \<Rightarrow> ld_pins \<Rightarrow> int" where
  "reading env n p = (case conv env n p PublicChannel PUBADC_LIQUID of Inl e \<Rightarrow> e | Inr v \<Rightarrow> v)"

definition ready :: "liquid \<Rightarrow> bool" where
  "ready l \<longleftrightarrow> adc_ch l \<and> mux_ok (pub (hw l)) \<and> init_state (pub (hw l))"

definition ld_used_states :: "string list" where
  "ld_used_states = [''ldctrl1_low'', ''ldctrl1_high'', ''lddetection1_low'', ''lddetection1_high'',
     ''lddetection2_low'', ''lddetection2_high'']"

definition pins_found :: "liquid \<Rightarrow> bool" where
  "pins_found l \<longleftrightarrow> list_all (pin_states l) ld_used_states"

definition liquid_pub :: "public_adc \<Rightarrow> public_adc" where
  "liquid_pub p = p\<lparr>last_pubadc_type := PUBADC_LIQUID, mux := PUBADC_LIQUID, pub_locked := False\<rparr>"

lemma liquid_pub_ok [simp]:
  "mux_ok (liquid_pub p)" "init_state (liquid_pub p) = init_state p" "liquid_pub (liquid_pub p) = liquid_pub p"
  by (simp_all add: liquid_pub_def mux_ok_def)

lemma read_liquid:
  assumes "mux_ok p" "init_state p"
  shows "pubadc_iio_read_channel iio PUBADC_LIQUID p = (iio PublicChannel PUBADC_LIQUID, liquid_pub p)"
  using assms by (cases p) (auto simp: pubadc_iio_read_channel_def mux_ok_def liquid_pub_def Let_def)

lemma adc_value:
  assumes "ready l"
  shows "liquid_get_auxadc_value env l = (reading env (conversions (hw l)) (pins (hw l)),
     l\<lparr>hw := (hw l)\<lparr>pub := liquid_pub (pub (hw l)), conversions := conversions (hw l) + 1\<rparr>\<rparr>)"
  using assms by (simp add: ready_def liquid_get_auxadc_value_def read_liquid reading_def split: sum.split)

definition step1_result :: "ld_env \<Rightarrow> liquid \<Rightarrow> liquid" where
  "step1_result env l =
     (let n = conversions (hw l); p = pins (hw l)
      in l\<lparr>sbu1_step1_val := reading env n (p\<lparr>ctrl1 := PinHigh\<rparr>), sbu2_step1_val := reading env (n + 1) (p\<lparr>ctrl1 := PinLow\<rparr>),
           hw := (hw l)\<lparr>pins := p\<lparr>ctrl1 := PinLow\<rparr>, pub := liquid_pub (pub (hw l)), conversions := n + 2\<rparr>\<rparr>)"

lemma step1_eq: "ready l \<Longrightarrow> pins_found l \<Longrightarrow> liquid_get_step1_adcval env l = Some (step1_result env l)"
  by (simp add: liquid_get_step1_adcval_def pinctrl_select_state_def pins_found_def ld_used_states_def adc_value
      ready_def step1_result_def Let_def)

definition pull_active :: "liquid \<Rightarrow> pin_level" where
  "pull_active l = (if gpio_reverse_ctrl l then PinLow else PinHigh)"

definition pull_idle :: "liquid \<Rightarrow> pin_level" where
  "pull_idle l = (if gpio_reverse_ctrl l then PinHigh else PinLow)"

definition step2_result :: "ld_env \<Rightarrow> liquid \<Rightarrow> liquid" where
  "step2_result env l =
     (let n = conversions (hw l); p = pins (hw l); p1 = p\<lparr>detection1 := pull_idle l\<rparr>
      in l\<lparr>sbu1_step2_val := reading env n (p\<lparr>ctrl1 := PinHigh, detection1 := pull_active l\<rparr>),
           sbu2_step2_val := reading env (n + 1) (p1\<lparr>ctrl1 := PinLow, detection2 := pull_active l\<rparr>),
           hw := (hw l)\<lparr>pins := p1\<lparr>ctrl1 := PinLow, detection2 := pull_idle l\<rparr>,
             pub := liquid_pub (pub (hw l)), conversions := n + 2\<rparr>\<rparr>)"

lemma step2_eq: "ready l \<Longrightarrow> pins_found l \<Longrightarrow> liquid_get_step2_adcval env l = Some (step2_result env l)"
  by (cases "gpio_reverse_ctrl l") (simp_all add: liquid_get_step2_adcval_def pinctrl_select_state_def pins_found_def
      ld_used_states_def adc_value ready_def step2_result_def pull_active_def pull_idle_def Let_def)

lemma step_frame [simp]:
  "ready (step1_result env l) = (adc_ch l \<and> init_state (pub (hw l)))" "pins_found (step1_result env l) = pins_found l"
  "ready (step2_result env l) = (adc_ch l \<and> init_state (pub (hw l)))" "pins_found (step2_result env l) = pins_found l"
  by (simp_all add: ready_def pins_found_def step1_result_def step2_result_def Let_def)

section \<open>The invariant\<close>

text \<open>
  \<open>requests_ok\<close>: the role and the current limit asked of the other drivers fit the published state.
\<close>

definition requests_ok :: "liquid \<Rightarrow> bool" where
  "requests_ok l \<longleftrightarrow>
     (if sw_state (st_switch l) = TYPE_DRY then role_request (hw l) \<in> {None, Some TYPEC_ROLE_TRY_SNK}
      else role_request (hw l) = Some TYPEC_ROLE_SNK) \<and>
     limit_request (hw l) =
       (if bat_psy l then Some (if sw_state (st_switch l) = TYPE_DRY then - 1 else IUSB_LIMITATION_UA) else None)"

definition ld_core :: "liquid \<Rightarrow> bool" where
  "ld_core l \<longleftrightarrow> published (st_switch l) \<and> sw_state (st_switch l) \<in> {TYPE_DRY, TYPE_WET, TYPE_WET_VBUS} \<and>
     ready l \<and> pins_found l \<and> length (work_interval l) = 3 \<and> requests_ok l"

definition ld_inv :: "liquid \<Rightarrow> bool" where
  "ld_inv l \<longleftrightarrow> ld_core l \<and> \<not> wake_lock l \<and> routine_queued l \<noteq> None"

lemma report_event_eq:
  assumes "published (st_switch l)"
  shows "\<exists>l'. liquid_report_event env l ev = Some l' \<and> published (st_switch l') \<and> sw_state (st_switch l') = ev \<and>
    ready l' = ready l \<and> pins_found l' = pins_found l \<and> work_interval l' = work_interval l \<and> bat_psy l' = bat_psy l \<and>
    role_request (hw l') = role_request (hw l) \<and> limit_request (hw l') = limit_request (hw l) \<and>
    wake_lock l' = wake_lock l \<and> routine_queued l' = routine_queued l"
proof (cases "sw_state (st_switch l) = ev")
  case True
  then show ?thesis using assms by (simp add: liquid_report_event_def switch_get_state_def)
next
  case False
  obtain sw where sw: "switch_set_state (page_ok env) (st_switch l) ev = Some sw" "published sw" "sw_state sw = ev"
    using switch_set_state_ok [OF assms] by (metis (no_types))
  then show ?thesis
    using False by (simp add: liquid_report_event_def switch_get_state_def ready_def pins_found_def Let_def)
qed


definition vbus_valid :: "ld_env \<Rightarrow> liquid \<Rightarrow> bool" where
  "vbus_valid env l \<longleftrightarrow> (chg_psy l \<or> chg_psy_found env) \<and> (case vbus_now env of Inl _ \<Rightarrow> False | Inr v \<Rightarrow> v > INVALID_VBUS_MV)"

lemma check_vbus_eq:
  "liquid_check_vbus_valid env l = (vbus_valid env l, l\<lparr>chg_psy := (chg_psy l \<or> chg_psy_found env)\<rparr>)"
  by (cases l) (auto simp: liquid_check_vbus_valid_def vbus_valid_def Let_def split: sum.split)

lemma limit_eq:
  "snd (liquid_limit_charging_current env l en) =
    (let bat = (bat_psy l \<or> bat_psy_found env)
     in l\<lparr>bat_psy := bat,
          hw := (hw l)\<lparr>limit_request := (if bat then Some (if en then IUSB_LIMITATION_UA else - 1) else limit_request (hw l))\<rparr>\<rparr>)"
  by (cases l) (auto simp: liquid_limit_charging_current_def Let_def)

lemmas ld_frame = ready_def pins_found_def

lemma is_wet_core:
  assumes "ld_core l" "sw_state (st_switch l) = TYPE_DRY"
  shows "\<exists>l'. liquid_is_wet env l = Some l' \<and> ld_core l' \<and>
    sw_state (st_switch l') = (if vbus_valid env l then TYPE_WET_VBUS else TYPE_WET) \<and> work_interval l' = work_interval l"
proof -
  define bat where "bat = (bat_psy l \<or> bat_psy_found env)"
  define l1 where "l1 = l\<lparr>bat_psy := bat,
    hw := (hw l)\<lparr>role_request := Some TYPEC_ROLE_SNK, limit_request := (if bat then Some IUSB_LIMITATION_UA else limit_request (hw l))\<rparr>,
    chg_psy := (chg_psy l \<or> chg_psy_found env)\<rparr>"
  define ev where "ev = (if vbus_valid env l then TYPE_WET_VBUS else TYPE_WET)"
  have run: "liquid_is_wet env l = liquid_report_event env l1 ev"
  proof -
    have "vbus_valid env (snd (liquid_limit_charging_current env (tcpm_typec_change_role TYPEC_ROLE_SNK l) True)) = vbus_valid env l"
      by (simp add: limit_eq tcpm_typec_change_role_def vbus_valid_def Let_def)
    then show ?thesis
      unfolding liquid_is_wet_def Let_def split_def check_vbus_eq
      by (simp add: ev_def) (simp add: limit_eq tcpm_typec_change_role_def l1_def bat_def Let_def)
  qed
  have p: "published (st_switch l1)" using assms(1) by (simp add: l1_def ld_core_def)
  obtain l' where l': "liquid_report_event env l1 ev = Some l'" "published (st_switch l')" "sw_state (st_switch l') = ev"
    "ready l' = ready l1" "pins_found l' = pins_found l1" "work_interval l' = work_interval l1" "bat_psy l' = bat_psy l1"
    "role_request (hw l') = role_request (hw l1)" "limit_request (hw l') = limit_request (hw l1)"
    using report_event_eq [OF p, of env ev] by blast
  have "requests_ok l'"
    using assms l'(3,7-9) by (auto simp: requests_ok_def l1_def ev_def bat_def ld_core_def)
  then have "ld_core l'"
    using assms(1) l'(2-6) by (auto simp: ld_core_def l1_def ev_def ld_frame)
  then show ?thesis using run l'(1,3,6) by (auto simp: ev_def l1_def)
qed

lemma is_dry_core:
  assumes "ld_core l"
  shows "\<exists>l'. liquid_is_dry env l = Some l' \<and> ld_core l' \<and> sw_state (st_switch l') = TYPE_DRY \<and> work_interval l' = work_interval l"
proof -
  have p: "published (st_switch l)" using assms by (simp add: ld_core_def)
  obtain l1 where l1: "liquid_report_event env l TYPE_DRY = Some l1" "published (st_switch l1)" "sw_state (st_switch l1) = TYPE_DRY"
    "ready l1 = ready l" "pins_found l1 = pins_found l" "work_interval l1 = work_interval l" "bat_psy l1 = bat_psy l"
    "role_request (hw l1) = role_request (hw l)" "limit_request (hw l1) = limit_request (hw l)"
    using report_event_eq [OF p, of env TYPE_DRY] by blast
  define l2 where "l2 = snd (liquid_limit_charging_current env (tcpm_typec_change_role TYPEC_ROLE_TRY_SNK l1) False)"
  have "ld_core l2"
    using assms l1(2-9) by (auto simp: l2_def limit_eq tcpm_typec_change_role_def Let_def ld_core_def requests_ok_def ld_frame)
  moreover have "sw_state (st_switch l2) = TYPE_DRY" "work_interval l2 = work_interval l"
    using l1(3,6) by (simp_all add: l2_def limit_eq tcpm_typec_change_role_def Let_def)
  moreover have "liquid_is_dry env l = Some l2" by (simp add: liquid_is_dry_def l1(1) l2_def)
  ultimately show ?thesis by blast
qed


section \<open>The abstract state machine\<close>

text \<open>
  What the detection promises, over the three pairs of readings it may take: wet only when two
  rounds in a row see a voltage from the low threshold up to 1500 mV on one of the pins; dry only when
  neither pin does and both pins reach the high threshold when pulled.
\<close>

definition seen_wet :: "int \<Rightarrow> int \<times> int \<Rightarrow> bool" where
  "seen_wet thr ab \<longleftrightarrow> (thr \<le> fst ab \<and> fst ab \<le> ADC_MAX_MV) \<or> (thr \<le> snd ab \<and> snd ab \<le> ADC_MAX_MV)"

definition seen_dry :: "int \<Rightarrow> int \<times> int \<Rightarrow> bool" where
  "seen_dry thr ab \<longleftrightarrow> thr \<le> fst ab \<and> fst ab \<le> ADC_MAX_MV \<and> thr \<le> snd ab \<and> snd ab \<le> ADC_MAX_MV"

definition ld_spec :: "int \<Rightarrow> int \<Rightarrow> bool \<Rightarrow> int \<times> int \<Rightarrow> int \<times> int \<Rightarrow> int \<times> int \<Rightarrow> int \<Rightarrow> int" where
  "ld_spec thr_l thr_h vbus first second pulled st =
     (if st = TYPE_DRY
      then if seen_wet thr_l first \<and> seen_wet thr_l second then if vbus then TYPE_WET_VBUS else TYPE_WET else TYPE_DRY
      else if \<not> seen_wet thr_l first \<and> seen_dry thr_h pulled then TYPE_DRY else st)"

text \<open>The readings of one run: twice without pull, and with the pull on the pin that is measured.\<close>

definition plain_readings :: "ld_env \<Rightarrow> nat \<Rightarrow> ld_pins \<Rightarrow> int \<times> int" where
  "plain_readings env n p = (reading env n (p\<lparr>ctrl1 := PinHigh\<rparr>), reading env (n + 1) (p\<lparr>ctrl1 := PinLow\<rparr>))"

definition pulled_readings :: "ld_env \<Rightarrow> nat \<Rightarrow> liquid \<Rightarrow> int \<times> int" where
  "pulled_readings env n l =
     (reading env n ((pins (hw l))\<lparr>ctrl1 := PinHigh, detection1 := pull_active l\<rparr>),
      reading env (n + 1) ((pins (hw l))\<lparr>detection1 := pull_idle l, ctrl1 := PinLow, detection2 := pull_active l\<rparr>))"

lemma step1_wet_iff: "step1_wet (step1_result env l) thr = seen_wet thr (plain_readings env (conversions (hw l)) (pins (hw l)))"
  by (simp add: step1_wet_def step1_result_def seen_wet_def plain_readings_def liquid_is_in_range_def Let_def)

lemma step2_dry_iff:
  "(liquid_is_in_range (sbu1_step2_val (step2_result env l)) thr ADC_MAX_MV \<and>
    liquid_is_in_range (sbu2_step2_val (step2_result env l)) thr ADC_MAX_MV) =
   seen_dry thr (pulled_readings env (conversions (hw l)) l)"
  by (auto simp: step2_result_def seen_dry_def pulled_readings_def liquid_is_in_range_def Let_def)

lemma core_step [simp]:
  "ld_core l \<Longrightarrow> ld_core (step1_result env l)" "ld_core l \<Longrightarrow> ld_core (step2_result env l)"
  by (auto simp: ld_core_def requests_ok_def ready_def step1_result_def step2_result_def pins_found_def Let_def)

lemma step_switch [simp]:
  "st_switch (step1_result env l) = st_switch l" "st_switch (step2_result env l) = st_switch l"
  "work_interval (step1_result env l) = work_interval l" "work_interval (step2_result env l) = work_interval l"
  "conversions (hw (step1_result env l)) = conversions (hw l) + 2"
  "pins (hw (step1_result env l)) = (pins (hw l))\<lparr>ctrl1 := PinLow\<rparr>"
  "vbus_valid env' (step1_result env l) = vbus_valid env' l" "pull_active (step1_result env l) = pull_active l"
  "pull_idle (step1_result env l) = pull_idle l"
  by (simp_all add: step1_result_def step2_result_def vbus_valid_def pull_active_def pull_idle_def Let_def)

lemma decide_core:
  assumes "ld_core l"
  defines "n \<equiv> conversions (hw l)" and "p \<equiv> pins (hw l)" and "st \<equiv> sw_state (st_switch l)"
  shows "\<exists>l'. liquid_decide env st thr_l thr_h (step1_result env l) = Some l' \<and> ld_core l' \<and> work_interval l' = work_interval l \<and>
    sw_state (st_switch l') = ld_spec thr_l thr_h (vbus_valid env l) (plain_readings env n p)
      (plain_readings env (n + 2) p) (pulled_readings env (n + 2) l) st"
proof -
  define l1 where "l1 = step1_result env l"
  have l1: "ld_core l1" "ready l1" "pins_found l1" "st_switch l1 = st_switch l" "vbus_valid env l1 = vbus_valid env l"
    "conversions (hw l1) = n + 2" "work_interval l1 = work_interval l" "pins (hw l1) = p\<lparr>ctrl1 := PinLow\<rparr>"
    using assms(1) by (simp_all add: l1_def n_def p_def) (simp_all add: ld_core_def ready_def)
  have w1: "step1_wet l1 thr_l = seen_wet thr_l (plain_readings env n p)" by (simp add: l1_def step1_wet_iff n_def p_def)
  have w2: "step1_wet (step1_result env l1) thr_l = seen_wet thr_l (plain_readings env (n + 2) p)"
    by (simp add: step1_wet_iff l1(6,8)) (simp add: plain_readings_def)
  have d: "pulled_readings env (n + 2) l1 = pulled_readings env (n + 2) l"
    by (simp add: pulled_readings_def l1(8)) (simp add: l1_def p_def)
  show ?thesis
  proof (cases "st = TYPE_DRY")
    case True
    show ?thesis
    proof (cases "step1_wet l1 thr_l \<and> step1_wet (step1_result env l1) thr_l")
      case wet: True
      have c: "ld_core (step1_result env l1)" "sw_state (st_switch (step1_result env l1)) = TYPE_DRY"
        using l1(1,4) True by (simp_all add: st_def)
      obtain l' where "liquid_is_wet env (step1_result env l1) = Some l'" "ld_core l'"
        "sw_state (st_switch l') = (if vbus_valid env (step1_result env l1) then TYPE_WET_VBUS else TYPE_WET)"
        "work_interval l' = work_interval (step1_result env l1)"
        using is_wet_core [OF c, of env] by blast
      then show ?thesis
        using True wet w1 w2 l1 by (simp add: l1_def [symmetric] liquid_decide_def step1_eq ld_spec_def)
    next
      case False
      then show ?thesis
        using True w1 w2 l1 by (auto simp: l1_def [symmetric] liquid_decide_def step1_eq ld_spec_def st_def)
    qed
  next
    case False
    show ?thesis
    proof (cases "\<not> step1_wet l1 thr_l \<and> seen_dry thr_h (pulled_readings env (n + 2) l)")
      case dry: True
      obtain l' where "liquid_is_dry env (step2_result env l1) = Some l'" "ld_core l'" "sw_state (st_switch l') = TYPE_DRY"
        "work_interval l' = work_interval (step2_result env l1)"
        using is_dry_core [of "step2_result env l1" env] l1(1) by auto
      then show ?thesis
        using False dry w1 l1 d step2_dry_iff [of env l1 thr_h]
        by (simp add: l1_def [symmetric] liquid_decide_def step2_eq ld_spec_def)
    next
      case wet: False
      then show ?thesis
        using False w1 l1 d step2_dry_iff [of env l1 thr_h]
        by (auto simp: l1_def [symmetric] liquid_decide_def step2_eq ld_spec_def st_def)
    qed
  qed
qed


lemma routine_inv:
  assumes "ld_core l" "system_running env"
  defines "n \<equiv> conversions (hw l)" and "p \<equiv> pins (hw l)" and "st \<equiv> sw_state (st_switch l)"
  shows "\<exists>l'. liquid_routine_work env l = Some l' \<and> ld_inv l' \<and>
    routine_queued l' = Some (s32 (work_interval l ! nat st)) \<and>
    sw_state (st_switch l') = ld_spec (s32 (threshold_l l)) (s32 (threshold_h l)) (vbus_valid env l) (plain_readings env n p)
      (plain_readings env (n + 2) p) (pulled_readings env (n + 2) l) st"
proof -
  define l0 where "l0 = liquid_clear_sbuval (l\<lparr>wake_lock := True, routine_queued := None\<rparr>) STEP1_DEFAULT_VAL STEP2_DEFAULT_VAL"
  have l0: "ld_core l0" "ready l0" "pins_found l0" "hw l0 = hw l" "st_switch l0 = st_switch l" "work_interval l0 = work_interval l"
    "vbus_valid env l0 = vbus_valid env l" "pulled_readings env k l0 = pulled_readings env k l"
    "threshold_l l0 = threshold_l l" "threshold_h l0 = threshold_h l" for k
    using assms(1) by (auto simp: l0_def liquid_clear_sbuval_def ld_core_def requests_ok_def ld_frame vbus_valid_def
        pulled_readings_def pull_active_def pull_idle_def)
  obtain l1 where l1: "liquid_decide env st (s32 (threshold_l l)) (s32 (threshold_h l)) (step1_result env l0) = Some l1"
    "ld_core l1" "work_interval l1 = work_interval l"
    "sw_state (st_switch l1) = ld_spec (s32 (threshold_l l)) (s32 (threshold_h l)) (vbus_valid env l) (plain_readings env n p)
      (plain_readings env (n + 2) p) (pulled_readings env (n + 2) l) st"
    using decide_core [OF l0(1), of env] unfolding l0(4-8) n_def p_def st_def by metis
  have st: "st \<in> {0, 1, 2}" "length (work_interval l1) = 3" using assms(1) l1(2) by (auto simp: st_def ld_core_def)
  have i: "liquid_select_interval l1 st = s32 (work_interval l ! nat st)"
    using st by (auto simp: liquid_select_interval_def l1(3))
  define l2 where "l2 = l1\<lparr>routine_queued := Some (s32 (work_interval l ! nat st)), wake_lock := False\<rparr>"
  have "liquid_routine_work env l = Some l2"
    using assms(2) l1(1) l0(2,3) i
    by (simp add: liquid_routine_work_def l0_def [symmetric] switch_get_state_def st_def [symmetric] step1_eq l2_def)
  moreover have "ld_inv l2" using l1(2) by (auto simp: l2_def ld_inv_def ld_core_def requests_ok_def ld_frame)
  ultimately show ?thesis using l1(4) by (simp add: l2_def)
qed

lemma vbus_detect_inv:
  assumes "ld_inv l"
  shows "\<exists>l'. liquid_vbus_detect env l = Some l' \<and> ld_inv l' \<and>
    sw_state (st_switch l') = (if sw_state (st_switch l) = TYPE_DRY then TYPE_DRY
      else if vbus_valid env l then TYPE_WET_VBUS else TYPE_WET)"
proof -
  define l1 where "l1 = l\<lparr>vbus_queued := False, chg_psy := (chg_psy l \<or> chg_psy_found env)\<rparr>"
  have l1: "ld_inv l1" "published (st_switch l1)" "st_switch l1 = st_switch l"
    using assms by (auto simp: l1_def ld_inv_def ld_core_def requests_ok_def ld_frame)
  have run: "liquid_vbus_detect env l = (if vbus_valid env l
      then if sw_state (st_switch l) = TYPE_WET then liquid_report_event env l1 TYPE_WET_VBUS else Some l1
      else if sw_state (st_switch l) = TYPE_WET_VBUS then liquid_report_event env l1 TYPE_WET else Some l1)"
    by (simp add: liquid_vbus_detect_def check_vbus_eq switch_get_state_def l1_def vbus_valid_def Let_def)
  have rep: "\<exists>l'. liquid_report_event env l1 ev = Some l' \<and> ld_inv l' \<and> sw_state (st_switch l') = ev"
    if "ev \<in> {TYPE_WET, TYPE_WET_VBUS}" "sw_state (st_switch l) \<noteq> TYPE_DRY" for ev
  proof -
    obtain l' where "liquid_report_event env l1 ev = Some l'" "published (st_switch l')" "sw_state (st_switch l') = ev"
      "ready l' = ready l1" "pins_found l' = pins_found l1" "work_interval l' = work_interval l1" "bat_psy l' = bat_psy l1"
      "role_request (hw l') = role_request (hw l1)" "limit_request (hw l') = limit_request (hw l1)"
      "wake_lock l' = wake_lock l1" "routine_queued l' = routine_queued l1"
      using report_event_eq [OF l1(2), of env ev] by blast
    then show ?thesis using l1(1,3) that by (auto simp: ld_inv_def ld_core_def requests_ok_def)
  qed
  have st: "sw_state (st_switch l) \<in> {0, 1, 2}" using assms by (simp add: ld_inv_def ld_core_def)
  show ?thesis using rep [of TYPE_WET] rep [of TYPE_WET_VBUS] l1 st by (auto simp: run)
qed

section \<open>Histories\<close>

text \<open>
  The events after a probe: the two work items, the charger's notifier and the attributes.
\<close>

datatype ld_event =
    LdRoutine ld_env
  | LdVbusWork ld_env
  | LdCharger charger_event
  | LdStoreL string
  | LdStoreH string

definition on_liquid :: "(liquid \<Rightarrow> liquid option) \<Rightarrow> ld_sys \<Rightarrow> ld_sys option" where
  "on_liquid f sys = Option.bind (g_liquid sys) (\<lambda>l. map_option (\<lambda>l. sys\<lparr>g_liquid := Some l\<rparr>) (f l))"

fun ld_step :: "ld_event \<Rightarrow> ld_sys \<Rightarrow> ld_sys option" where
  "ld_step (LdRoutine env) sys = on_liquid (liquid_routine_work env) sys"
| "ld_step (LdVbusWork env) sys = on_liquid (liquid_vbus_detect env) sys"
| "ld_step (LdCharger ev) sys = liquid_dev_event ev sys"
| "ld_step (LdStoreL buff) sys = on_liquid (\<lambda>l. Some (snd (threshod_l_store buff l))) sys"
| "ld_step (LdStoreH buff) sys = on_liquid (\<lambda>l. Some (snd (threshod_h_store buff l))) sys"

fun ld_run :: "ld_event list \<Rightarrow> ld_sys \<Rightarrow> ld_sys option" where
  "ld_run [] sys = Some sys"
| "ld_run (e # es) sys = Option.bind (ld_step e sys) (ld_run es)"

definition sys_inv :: "ld_sys \<Rightarrow> bool" where
  "sys_inv sys \<longleftrightarrow> chg1_nb sys = NbRegistered \<and> (case g_liquid sys of None \<Rightarrow> False | Some l \<Rightarrow> ld_inv l)"

lemma routine_not_running:
  "ld_inv l \<Longrightarrow> \<not> system_running env \<Longrightarrow> \<exists>l'. liquid_routine_work env l = Some l' \<and> ld_inv l'"
  by (auto simp: liquid_routine_work_def ld_inv_def ld_core_def requests_ok_def ld_frame Let_def)

lemma store_inv: "ld_inv l \<Longrightarrow> ld_inv (snd (threshod_l_store buff l))" "ld_inv l \<Longrightarrow> ld_inv (snd (threshod_h_store buff l))"
  by (auto simp: threshod_l_store_def threshod_h_store_def ld_inv_def ld_core_def requests_ok_def ld_frame split: sum.split)

lemma ld_step_inv: "sys_inv sys \<Longrightarrow> \<exists>sys'. ld_step e sys = Some sys' \<and> sys_inv sys'"
proof -
  assume "sys_inv sys"
  then obtain l where l: "chg1_nb sys = NbRegistered" "g_liquid sys = Some l" "ld_inv l"
    by (auto simp: sys_inv_def split: option.splits)
  have on: "\<exists>sys'. on_liquid f sys = Some sys' \<and> sys_inv sys'" if "\<exists>l'. f l = Some l' \<and> ld_inv l'" for f
    using that l by (auto simp: on_liquid_def sys_inv_def)
  show ?thesis
  proof (cases e)
    case (LdRoutine env)
    have "ld_core l" using l(3) by (simp add: ld_inv_def)
    then have "\<exists>l'. liquid_routine_work env l = Some l' \<and> ld_inv l'"
      using routine_not_running [OF l(3), of env] routine_inv [of l env] by (cases "system_running env") auto
    then show ?thesis using on LdRoutine by simp
  next
    case (LdVbusWork env)
    then show ?thesis using on [of "liquid_vbus_detect env"] vbus_detect_inv [OF l(3), of env] by auto
  next
    case (LdCharger ev)
    have "ld_inv (l\<lparr>vbus_queued := True\<rparr>)" using l(3) by (auto simp: ld_inv_def ld_core_def requests_ok_def ld_frame)
    then show ?thesis
      using l LdCharger by (cases ev) (auto simp: liquid_dev_event_def liquid_vbus_changed_def sys_inv_def)
  next
    case (LdStoreL buff)
    then show ?thesis using on [of "\<lambda>l. Some (snd (threshod_l_store buff l))"] store_inv(1) [OF l(3)] by auto
  next
    case (LdStoreH buff)
    then show ?thesis using on [of "\<lambda>l. Some (snd (threshod_h_store buff l))"] store_inv(2) [OF l(3)] by auto
  qed
qed


lemma ld_run_inv: "sys_inv sys \<Longrightarrow> \<exists>sys'. ld_run es sys = Some sys' \<and> sys_inv sys'"
proof (induction es arbitrary: sys)
  case (Cons e es)
  then show ?case using ld_step_inv [OF Cons.prems, of e] by auto
qed simp

section \<open>The probe\<close>

lemma create_attrs_ok: "fst (create_attrs ret as done' files) \<ge> 0 \<Longrightarrow> snd (create_attrs ret as done' files) = files \<union> set as"
  by (induction as arbitrary: done' files) auto

lemma fold_remove: "fold (\<lambda>b fs. fs - {b}) bs files = files - set bs"
  by (induction bs arbitrary: files) auto

lemma create_attrs_fail:
  "fst (create_attrs ret as done' files) < 0 \<Longrightarrow> \<exists>gone. set done' \<subseteq> gone \<and> gone \<subseteq> set done' \<union> set as \<and>
     snd (create_attrs ret as done' files) = files - gone"
proof (induction as arbitrary: done' files)
  case (Cons a as)
  show ?case
  proof (cases "ret a < 0")
    case True
    then show ?thesis by (auto simp: fold_remove intro!: exI [of _ "insert a (set done')"])
  next
    case False
    have f: "fst (create_attrs ret as (a # done') (insert a files)) < 0" using Cons.prems False by simp
    obtain gone where g: "set (a # done') \<subseteq> gone" "gone \<subseteq> set (a # done') \<union> set as"
      "snd (create_attrs ret as (a # done') (insert a files)) = insert a files - gone"
      using Cons.IH [OF f] by blast
    then have "set done' \<subseteq> gone" "gone \<subseteq> set done' \<union> set (a # as)" "insert a files - gone = files - gone" by auto
    then show ?thesis using False g(3) by (metis create_attrs.simps(2))
  qed
qed simp

lemma create_attr_clean: "fst (liquid_create_attr ret {}) < 0 \<Longrightarrow> snd (liquid_create_attr ret {}) = {}"
  using create_attrs_fail [of ret ld_attr_names "[]" "{}"] by (auto simp: liquid_create_attr_def)

text \<open>The switch as the probe hands it to the class, and the three ends of the late part of the probe.\<close>

definition ld_switch :: "liquid \<Rightarrow> switch_dev" where
  "ld_switch l = (st_switch l)\<lparr>sw_name := ''ld'', sw_index := 0, sw_state := TYPE_DRY\<rparr>"

lemma probe_late_run:
  assumes "liquid_pinctrl_init env l = (0, l1)"
    and "switch_dev_register (switch_outcome env) (sw_global sys) (ld_switch l1) = Some (r2, g, sw)"
    and "liquid_create_attr (attr_ret env) (ld_attrs sys) = (r3, files)"
  shows "liquid_probe_late env l sys =
     (if r2 \<noteq> 0 then Some (r2, sys\<lparr>sw_global := g, chg1_nb := NbNone, freed_switch := Some sw, hw_idle := hw l1\<rparr>)
      else if r3 < 0 then Some (r3, sys\<lparr>sw_global := g, ld_attrs := files, chg1_nb := NbNone,
        freed_switch := Some (switch_dev_unregister sw), hw_idle := hw l1\<rparr>)
      else Some (0, sys\<lparr>sw_global := g, ld_attrs := files, g_liquid := Some ((liquid_parse_dt env l1)
        \<lparr>st_switch := sw, event_ts := probe_time env, routine_queued := Some 0\<rparr>)\<rparr>))"
proof -
  have parse: "st_switch (liquid_parse_dt env l1) = st_switch l1" "hw (liquid_parse_dt env l1) = hw l1"
    by (simp_all add: liquid_parse_dt_def Let_def split: prod.split)
  show ?thesis using assms by (simp add: liquid_probe_late_def Let_def parse ld_switch_def)
qed

lemma probe_late_register:
  assumes "liquid_probe_late env l sys = Some (r, sys')" "liquid_pinctrl_init env l = (0, l1)"
  shows "\<exists>r2 g sw. switch_dev_register (switch_outcome env) (sw_global sys) (ld_switch l1) = Some (r2, g, sw)"
proof -
  have parse: "st_switch (liquid_parse_dt env l1) = st_switch l1" by (simp add: liquid_parse_dt_def Let_def split: prod.split)
  show ?thesis using assms by (auto simp: liquid_probe_late_def Let_def parse ld_switch_def split: bind_splits)
qed

text \<open>The structure a probe starts from, and what must hold for it to leave a working driver.\<close>

definition fresh_liquid :: "ld_sys \<Rightarrow> liquid" where
  "fresh_liquid sys = (liquid_zero (hw_idle sys))\<lparr>adc_ch := True\<rparr>"

definition ld_fresh :: "ld_sys \<Rightarrow> bool" where
  "ld_fresh sys \<longleftrightarrow> g_liquid sys = None \<and> ld_attrs sys = {} \<and> chg1_nb sys = NbNone \<and> mux_ok (pub (hw_idle sys)) \<and>
     role_request (hw_idle sys) = None \<and> limit_request (hw_idle sys) = None"

lemma probe_cases:
  assumes "liquid_probe env sys = Some (r, sys')"
  shows "(r \<noteq> 0 \<and> sys' = sys) \<or> (init_state (pub (hw_idle sys)) \<and>
     liquid_probe_late env (fresh_liquid sys) (sys\<lparr>chg1_nb := NbRegistered\<rparr>) = Some (r, sys'))"
  using assms by (auto simp: liquid_probe_def get_pubadc_init_state_def fresh_liquid_def split: if_splits)

lemma pinctrl_init_ok:
  assumes "liquid_pinctrl_init env l = (0, l1)"
  shows "list_all (state_found env) ld_checked_states \<and>
    l1 = l\<lparr>pin_states := state_found env, hw := (hw l)\<lparr>pins := \<lparr>ctrl1 = PinInit, detection1 = PinInit, detection2 = PinInit\<rparr>\<rparr>\<rparr>"
  using assms by (auto simp: liquid_pinctrl_init_def Let_def split: if_splits)

lemma parse_dt_frame [simp]:
  "length (work_interval (liquid_parse_dt env l)) = 3" "hw (liquid_parse_dt env l) = hw l"
  "adc_ch (liquid_parse_dt env l) = adc_ch l" "pin_states (liquid_parse_dt env l) = pin_states l"
  "bat_psy (liquid_parse_dt env l) = bat_psy l" "wake_lock (liquid_parse_dt env l) = wake_lock l"
  by (auto simp: liquid_parse_dt_def Let_def split: prod.split option.split)

lemma probe_inv:
  assumes "liquid_probe env sys = Some (0, sys')" "ld_fresh sys" "state_found env ''lddetection1_low''"
    and "device_err (switch_outcome env) \<noteq> Some 0"
  shows "sys_inv sys' \<and> ld_attrs sys' = set ld_attr_names"
proof -
  have init: "init_state (pub (hw_idle sys))"
    and late: "liquid_probe_late env (fresh_liquid sys) (sys\<lparr>chg1_nb := NbRegistered\<rparr>) = Some (0, sys')"
    using probe_cases [OF assms(1)] by auto
  obtain r1 l1 where p1: "liquid_pinctrl_init env (fresh_liquid sys) = (r1, l1)" by fastforce
  then have p: "liquid_pinctrl_init env (fresh_liquid sys) = (0, l1)"
    using late by (simp add: liquid_probe_late_def split: if_splits)
  obtain r2 g sw where s: "switch_dev_register (switch_outcome env) (sw_global (sys\<lparr>chg1_nb := NbRegistered\<rparr>)) (ld_switch l1) = Some (r2, g, sw)"
    using probe_late_register [OF late p] by blast
  obtain r3 files where a: "liquid_create_attr (attr_ret env) (ld_attrs (sys\<lparr>chg1_nb := NbRegistered\<rparr>)) = (r3, files)" by fastforce
  have r2: "r2 = 0" using late unfolding probe_late_run [OF p s a] by (cases "r2 = 0") auto
  have r3: "\<not> r3 < 0" using late unfolding probe_late_run [OF p s a] r2 by (cases "r3 < 0") auto
  have sys': "sys' = (sys\<lparr>chg1_nb := NbRegistered\<rparr>)\<lparr>sw_global := g, ld_attrs := files, g_liquid := Some ((liquid_parse_dt env l1)
      \<lparr>st_switch := sw, event_ts := probe_time env, routine_queued := Some 0\<rparr>)\<rparr>"
    using late unfolding probe_late_run [OF p s a] using r2 r3 by simp
  have attrs: "ld_attrs sys' = set ld_attr_names"
    using create_attrs_ok [of "attr_ret env" ld_attr_names "[]" "{}"] a r3 assms(2)
    by (simp add: sys' liquid_create_attr_def ld_fresh_def)
  note l1 = pinctrl_init_ok [OF p]
  have pub: "published sw" "sw_state sw = 0"
    using register_published [OF s [unfolded r2] _ _ assms(4)] l1
    by (simp_all add: ld_switch_def fresh_liquid_def liquid_zero_def)
  have "ld_inv ((liquid_parse_dt env l1)\<lparr>st_switch := sw, event_ts := probe_time env, routine_queued := Some 0\<rparr>)"
    using l1 pub assms(2,3) init
    by (simp add: ld_inv_def ld_core_def ready_def pins_found_def ld_used_states_def ld_checked_states_def requests_ok_def
        fresh_liquid_def liquid_zero_def ld_fresh_def)
  then show ?thesis using attrs by (simp add: sys_inv_def sys')
qed

section \<open>Properties\<close>

text \<open>
  C9: One run of the detection routine on a driver in its invariant does not fault and takes the state machine of
  \<open>ld_spec\<close> one step: from dry, two measurements in a row with a line at or above the lower threshold make the
  port wet (with or without VBUS); from wet, a measurement below it on both lines followed by both lines at the upper
  threshold under pull makes it dry; anything else keeps the state.  The routine is queued again, at the
  interval of the state before the step, and the roles and limits it asked for fit the new state.
\<close>

theorem ld_routine_refines:
  assumes "ld_inv l" "system_running env"
  shows "\<exists>l'. liquid_routine_work env l = Some l' \<and> ld_inv l' \<and>
    routine_queued l' = Some (s32 (work_interval l ! nat (sw_state (st_switch l)))) \<and>
    sw_state (st_switch l') = ld_spec (s32 (threshold_l l)) (s32 (threshold_h l)) (vbus_valid env l)
      (plain_readings env (conversions (hw l)) (pins (hw l))) (plain_readings env (conversions (hw l) + 2) (pins (hw l)))
      (pulled_readings env (conversions (hw l) + 2) l) (sw_state (st_switch l))"
  using routine_inv [of l env] assms by (simp add: ld_inv_def)

text \<open>A driver with default settings whose converter reads 600 mV on both lines, and 1480 mV under pull.\<close>

definition ld_probe_example :: ld_probe_env where
  "ld_probe_example = \<lparr>alloc_ok = True, adc_found = True, tcpc_found = True, charger_found = True, pinctrl_found = True,
     state_found = (\<lambda>_. True), dt_work_interval = None, dt_threshold = None, dt_gpio_reverse = False,
     switch_outcome = switch_env_ok, attr_ret = (\<lambda>_. 0), probe_time = 0\<rparr>"

definition ld_sys_example :: ld_sys where
  "ld_sys_example = \<lparr>g_liquid = None, ld_attrs = {}, chg1_nb = NbNone,
     sw_global = \<lparr>switch_class = ClassNull, device_count = 0\<rparr>, freed_switch = None,
     hw_idle = \<lparr>pins = \<lparr>ctrl1 = PinInit, detection1 = PinInit, detection2 = PinInit\<rparr>,
       pub = public_adc_initial\<lparr>init_state := True\<rparr>, conversions = 0, role_request = None, limit_request = None, metrics = []\<rparr>\<rparr>"

definition ld_env_example :: ld_env where
  "ld_env_example = \<lparr>system_running = True, conv = (\<lambda>n p ch ty. Inr 600), chg_psy_found = True, vbus_now = Inr 5000,
     bat_psy_found = True, set_limit_ret = 0, boottime = 100, page_ok = True\<rparr>"

definition liquid_example :: liquid where
  "liquid_example = (liquid_parse_dt ld_probe_example (snd (liquid_pinctrl_init ld_probe_example (fresh_liquid ld_sys_example))))
     \<lparr>st_switch := \<lparr>sw_name = ''ld'', sw_index = 1, sw_state = 0, sw_print_name = None, sw_print_state = None,
       sw_dev = True, sw_files = {StateFile, NameFile}, sw_drvdata = True, sw_uevents = []\<rparr>, routine_queued := Some 0\<rparr>"


lemmas ld_example_defs = liquid_example_def ld_probe_example_def ld_sys_example_def ld_env_example_def fresh_liquid_def
  liquid_zero_def liquid_parse_dt_def liquid_pinctrl_init_def ld_checked_states_def public_adc_initial_def

lemma liquid_example_inv: "ld_inv liquid_example"
  by (simp add: ld_example_defs ld_inv_def ld_core_def published_def ready_def mux_ok_def pins_found_def ld_used_states_def
      requests_ok_def)

lemma liquid_example_fields:
  "sw_state (st_switch liquid_example) = 0" "work_interval liquid_example = [15, 30, 60]"
  "threshold_l liquid_example = 120" "threshold_h liquid_example = 1450" "hw liquid_example = hw_idle ld_sys_example"
  "hw_idle ld_sys_example = \<lparr>pins = \<lparr>ctrl1 = PinInit, detection1 = PinInit, detection2 = PinInit\<rparr>,
       pub = public_adc_initial\<lparr>init_state := True\<rparr>, conversions = 0, role_request = None, limit_request = None, metrics = []\<rparr>"
  by (simp_all add: ld_example_defs)

theorem ld_routine_refines_witness:
  "\<exists>l'. liquid_routine_work ld_env_example liquid_example = Some l' \<and> routine_queued l' = Some 15 \<and>
     sw_state (st_switch l') = TYPE_WET_VBUS"
  using ld_routine_refines [OF liquid_example_inv, of ld_env_example]
  by (auto simp: liquid_example_fields s32_id ld_spec_def seen_wet_def plain_readings_def reading_def vbus_valid_def ld_env_example_def)


definition ld_sys_probed :: ld_sys where
  "ld_sys_probed = ld_sys_example\<lparr>g_liquid := Some liquid_example, ld_attrs := set ld_attr_names, chg1_nb := NbRegistered,
     sw_global := \<lparr>switch_class = ClassOk, device_count = 1\<rparr>\<rparr>"

lemma ld_example_probes: "liquid_probe ld_probe_example ld_sys_example = Some (0, ld_sys_probed)"
  by (simp add: ld_example_defs ld_sys_probed_def liquid_probe_def liquid_probe_late_def get_pubadc_init_state_def
      liquid_create_attr_def ld_attr_names_def switch_dev_register_def create_switch_class_def switch_env_ok_def Let_def insert_commute)

lemma ld_example_fresh: "ld_fresh ld_sys_example" "state_found ld_probe_example ''lddetection1_low''"
  "device_err (switch_outcome ld_probe_example) \<noteq> Some 0"
  by (simp_all add: ld_fresh_def ld_sys_example_def mux_ok_def public_adc_initial_def ld_probe_example_def switch_env_ok_def)


lemma unregister_empty [simp]: "sw_files (switch_dev_unregister sw) = {} \<and> \<not> sw_dev (switch_dev_unregister sw)"
proof -
  have "x \<in> {NameFile, StateFile}" for x by (cases x) auto
  then show ?thesis by (auto simp: switch_dev_unregister_def)
qed

lemma probe_late_fails:
  assumes "liquid_probe_late env l sys = Some (r, sys')" "r \<noteq> 0" "ld_attrs sys = {}"
    and "sw_files (st_switch l) = {}" "\<not> sw_dev (st_switch l)"
  shows "g_liquid sys' = g_liquid sys \<and> ld_attrs sys' = {} \<and> chg1_nb sys' = NbNone \<and>
    (\<exists>sw. freed_switch sys' = Some sw \<and> \<not> sw_dev sw \<and> sw_files sw = {})"
proof -
  obtain r1 l1 where p1: "liquid_pinctrl_init env l = (r1, l1)" by fastforce
  have st: "st_switch l1 = st_switch l" using p1 by (auto simp: liquid_pinctrl_init_def Let_def split: if_splits)
  show ?thesis
  proof (cases "r1 = 0")
    case False
    then show ?thesis using assms p1 st by (auto simp: liquid_probe_late_def)
  next
    case True
    with p1 have p: "liquid_pinctrl_init env l = (0, l1)" by simp
    obtain r2 g sw where s: "switch_dev_register (switch_outcome env) (sw_global sys) (ld_switch l1) = Some (r2, g, sw)"
      using probe_late_register [OF assms(1) p] by blast
    obtain r3 files where a: "liquid_create_attr (attr_ret env) (ld_attrs sys) = (r3, files)" by fastforce
    have clean: "r2 \<noteq> 0 \<Longrightarrow> sw_files sw = {} \<and> \<not> sw_dev sw" "r3 < 0 \<Longrightarrow> files = {}"
      using register_fails_clean [OF s] create_attr_clean [of "attr_ret env"] a assms(3-5) by (simp_all add: ld_switch_def st)
    show ?thesis
    proof (cases "r2 = 0")
      case False
      then have "sys' = sys\<lparr>sw_global := g, chg1_nb := NbNone, freed_switch := Some sw, hw_idle := hw l1\<rparr>"
        using assms(1) unfolding probe_late_run [OF p s a] by simp
      then show ?thesis using clean(1) [OF False] assms(3) by simp
    next
      case True
      have r3: "r3 < 0" using assms(1,2) True unfolding probe_late_run [OF p s a] by (cases "r3 < 0") auto
      then have "sys' = sys\<lparr>sw_global := g, ld_attrs := files, chg1_nb := NbNone,
          freed_switch := Some (switch_dev_unregister sw), hw_idle := hw l1\<rparr>"
        using assms(1) True unfolding probe_late_run [OF p s a] by simp
      then show ?thesis using clean(2) [OF r3] by simp
    qed
  qed
qed

text \<open>
  C33: A probe that fails leaves nothing behind: no attribute file, no charger notifier, no pointer to the freed
  structure, and no switch device, wherever it failed.
\<close>

theorem ld_probe_fails_clean:
  assumes "liquid_probe env sys = Some (r, sys')" "r \<noteq> 0" "ld_fresh sys" "freed_switch sys = None"
  shows "g_liquid sys' = None \<and> ld_attrs sys' = {} \<and> chg1_nb sys' = NbNone \<and>
    (case freed_switch sys' of None \<Rightarrow> True | Some sw \<Rightarrow> \<not> sw_dev sw \<and> sw_files sw = {})"
proof (cases "sys' = sys")
  case True
  then show ?thesis using assms by (simp add: ld_fresh_def)
next
  case False
  then have "liquid_probe_late env (fresh_liquid sys) (sys\<lparr>chg1_nb := NbRegistered\<rparr>) = Some (r, sys')"
    using probe_cases [OF assms(1)] by blast
  from probe_late_fails [OF this assms(2)] show ?thesis
    using assms(3) by (auto simp: ld_fresh_def fresh_liquid_def liquid_zero_def)
qed

theorem ld_probe_fails_clean_witness:
  "\<exists>r sys'. liquid_probe (ld_probe_example\<lparr>attr_ret := (\<lambda>a. if a = ''threshod_l'' then - 17 else 0)\<rparr>) ld_sys_example = Some (r, sys') \<and>
     r = - 17 \<and> g_liquid sys' = None \<and> ld_attrs sys' = {} \<and> chg1_nb sys' = NbNone"
proof -
  let ?env = "ld_probe_example\<lparr>attr_ret := (\<lambda>a. if a = ''threshod_l'' then - 17 else 0)\<rparr>"
  obtain sys' where run: "liquid_probe ?env ld_sys_example = Some (- 17, sys')"
    by (simp add: ld_example_defs liquid_probe_def liquid_probe_late_def get_pubadc_init_state_def
      liquid_create_attr_def ld_attr_names_def switch_dev_register_def create_switch_class_def switch_env_ok_def Let_def)
  show ?thesis
    using ld_probe_fails_clean [OF run _ ld_example_fresh(1)] run by (simp add: ld_sys_example_def)
qed


text \<open>
  A threshold written to the attribute in decimal reads back as it was written up to the largest \<^verbatim>\<open>int\<close>.  A
  larger one that still fits 32 bits is accepted, but is read back, and used by the routine, as a negative number.
\<close>

theorem threshold_roundtrip:
  assumes "0 \<le> n" "n < 2147483648"
  shows "threshod_l_store (print_d n @ [NL]) l = (int (length (print_d n)) + 1, l\<lparr>threshold_l := n\<rparr>) \<and>
    threshod_l_show (l\<lparr>threshold_l := n\<rparr>) = print_d n @ [NL] \<and>
    (\<exists>m. threshod_l_store (print_d (n + 2147483648) @ [NL]) l = (m, l\<lparr>threshold_l := n + 2147483648\<rparr>) \<and> 0 < m) \<and>
    threshod_l_show (l\<lparr>threshold_l := n + 2147483648\<rparr>) = print_d (n - 2147483648) @ [NL]"
  using assms by (simp add: threshod_l_store_def threshod_l_show_def val_show_def s32_def kstrtouint_print)

lemma print_250: "print_d 250 = ''250''"
  by code_simp

theorem threshold_roundtrip_witness:
  "threshod_l_show (snd (threshod_l_store (''250'' @ [NL]) liquid_example)) = ''250'' @ [NL]"
  using threshold_roundtrip [of 250 liquid_example] by (simp add: print_250)

text \<open>
  The probe accepts a board without the pin state \<^verbatim>\<open>lddetection1_low\<close>, since the test behind its look-up
  is on another pointer; the first check whether a wet port has dried then follows the error pointer.
\<close>

theorem ld_missing_pin_state:
  assumes "ready l" "list_all (state_found env) ld_checked_states" "pinctrl_found env" "\<not> state_found env ''lddetection1_low''"
  shows "fst (liquid_pinctrl_init env l) = 0 \<and> liquid_get_step2_adcval e (snd (liquid_pinctrl_init env l)) = None"
  using assms
  by (auto simp: liquid_pinctrl_init_def liquid_get_step2_adcval_def pinctrl_select_state_def ld_checked_states_def Let_def
      adc_value ready_def)

theorem ld_missing_pin_state_witness:
  "fst (liquid_pinctrl_init (ld_probe_example\<lparr>state_found := (\<lambda>n. n \<noteq> ''lddetection1_low'')\<rparr>) liquid_example) = 0 \<and>
   liquid_get_step2_adcval ld_env_example (snd (liquid_pinctrl_init
     (ld_probe_example\<lparr>state_found := (\<lambda>n. n \<noteq> ''lddetection1_low'')\<rparr>) liquid_example)) = None"
  using ld_missing_pin_state [of liquid_example "ld_probe_example\<lparr>state_found := (\<lambda>n. n \<noteq> ''lddetection1_low'')\<rparr>" ld_env_example]
    liquid_example_inv by (simp add: ld_inv_def ld_core_def ld_checked_states_def ld_probe_example_def)

text \<open>
  Shutting down frees the structure with the notifier block still registered: the next charger event faults.
\<close>

theorem ld_shutdown_leaves_notifier:
  assumes "sys_inv sys"
  shows "\<exists>sys'. liquid_shutdown sys = Some sys' \<and> liquid_dev_event ev sys' = None"
  using assms by (auto simp: sys_inv_def liquid_shutdown_def liquid_dev_event_def split: option.splits)

end
