(* ===== verification/Keycombo.thy ===== *)
theory Keycombo
  imports Kernel_Base
begin

text \<open>
  Key combinations: the input handler \<^verbatim>\<open>drivers/input/keycombo.c\<close>, which counts the keys that are pressed and runs
  a function when all keys of a combination have been held for a while, and another when they are released.

  The bit maps of the handler are integers read by their bits.  Its ordered work queue is the list of the work items
  that wait, with the one that runs; a delayed work item is a timer that puts it there.  The steps of the model are
  the events of the input core, the expiry of the timer, and the start and end of a work item, in any order.

  The lemmas show that the counters agree with the set of pressed keys for every history, and from this the contract in
  \<^verbatim>\<open>include/linux/keycombo.h\<close>: the functions for down and up alternate, and each ends before the other is called.
\<close>

section \<open>State\<close>

abbreviation (input) EV_KEY :: nat where "EV_KEY \<equiv> 1"
abbreviation (input) KEY_MAX :: nat where "KEY_MAX \<equiv> 0x2ff"

datatype combo_func = COMBO_FUNC_PANIC | COMBO_FUNC_POWER_OFF

text \<open>The arrays of keys end with a 0.\<close>

record keycombo_platform_data =
  key_down_fn :: "combo_func option"
  key_up_fn :: "combo_func option"
  key_down_delay :: int
  keys_up :: "int list option"
  keys_down :: "int list"

datatype combo_work = DownWork | UpWork

record keycombo_state =
  keybit :: int
  upbit :: int
  key :: int
  key_down_target :: int
  key_down :: int
  key_up :: int
  delay :: int
  st_down_fn :: "combo_func option"
  st_up_fn :: "combo_func option"
  key_is_down :: bool
  held_awake :: bool
  up_awake :: bool
  down_timer :: bool
  wq :: "combo_work list"
  running_work :: "combo_work option"

section \<open>The work queue\<close>

definition down_pending :: "keycombo_state \<Rightarrow> bool" where
  "down_pending s \<longleftrightarrow> down_timer s \<or> DownWork \<in> set (wq s)"

definition queue_delayed_work :: "keycombo_state \<Rightarrow> keycombo_state" where
  "queue_delayed_work s =
     (if down_pending s then s
      else if delay s = 0 then s\<lparr>wq := wq s @ [DownWork]\<rparr>
      else s\<lparr>down_timer := True\<rparr>)"

definition cancel_delayed_work :: "keycombo_state \<Rightarrow> bool \<times> keycombo_state" where
  "cancel_delayed_work s =
     (if down_timer s then (True, s\<lparr>down_timer := False\<rparr>)
      else if DownWork \<in> set (wq s) then (True, s\<lparr>wq := remove1 DownWork (wq s)\<rparr>)
      else (False, s))"

definition queue_up_work :: "keycombo_state \<Rightarrow> keycombo_state" where
  "queue_up_work s = (if UpWork \<in> set (wq s) then s else s\<lparr>wq := wq s @ [UpWork]\<rparr>)"

section \<open>The input handler\<close>

text \<open>Both work functions in two steps: up to the call of the combination's function, and from its return on.\<close>

datatype combo_call = DownCall | DownRet | UpCall | UpRet

definition do_key_down :: "keycombo_state \<Rightarrow> combo_call list" where
  "do_key_down s = (if st_down_fn s \<noteq> None then [DownCall] else [])"

definition do_key_up :: "keycombo_state \<Rightarrow> combo_call list" where
  "do_key_up s = (if st_up_fn s \<noteq> None then [UpCall] else [])"

definition do_key_up_end :: "keycombo_state \<Rightarrow> combo_call list \<times> keycombo_state" where
  "do_key_up_end s = (if st_up_fn s \<noteq> None then [UpRet] else [], s\<lparr>up_awake := False\<rparr>)"

definition keycombo_event :: "nat \<Rightarrow> nat \<Rightarrow> int \<Rightarrow> keycombo_state \<Rightarrow> keycombo_state" where
  "keycombo_event type code value s =
     (if type \<noteq> EV_KEY then s
      else if code \<ge> KEY_MAX then s
      else if \<not> bit (keybit s) code then s
      else if (\<not> bit (key s) code) = (value = 0) then s
      else
        let s = s\<lparr>key := flip_bit code (key s)\<rparr>;
            s = (if bit (upbit s) code
                 then s\<lparr>key_up := (if value \<noteq> 0 then key_up s + 1 else key_up s - 1)\<rparr>
                 else s\<lparr>key_down := (if value \<noteq> 0 then key_down s + 1 else key_down s - 1)\<rparr>)
        in if key_down s = key_down_target s \<and> key_up s = 0
           then queue_delayed_work (s\<lparr>held_awake := True, key_is_down := True\<rparr>)
           else if key_is_down s
           then let (cancelled, s) = cancel_delayed_work s;
                    s = (if \<not> cancelled then queue_up_work (s\<lparr>up_awake := True\<rparr>) else s)
                in s\<lparr>held_awake := False, key_is_down := False\<rparr>
           else s)"

text \<open>Whether a device has one of the keys; then a handle is registered and opened.\<close>

definition keycombo_connect :: "int \<Rightarrow> bool \<Rightarrow> int \<Rightarrow> int \<Rightarrow> keycombo_state \<Rightarrow> int" where
  "keycombo_connect dev_keybit alloc register_ret open_ret s =
     (if \<not> list_ex (\<lambda>i. bit (keybit s) i \<and> bit dev_keybit i) [0..<KEY_MAX] then - ENODEV
      else if \<not> alloc then - ENOMEM
      else if register_ret \<noteq> 0 then register_ret
      else if open_ret \<noteq> 0 then open_ret
      else 0)"

text \<open>The loops over the keys; one without the final 0 reads behind the array.\<close>

fun scan_down :: "int list \<Rightarrow> int \<times> int \<Rightarrow> (int \<times> int) option" where
  "scan_down [] acc = None"
| "scan_down (k # ks) (target, kb) =
     (if k = 0 then Some (target, kb)
      else if k \<ge> int KEY_MAX then scan_down ks (target, kb)
      else if k < 0 then None
      else scan_down ks (target + 1, set_bit (nat k) kb))"

fun scan_up :: "int list \<Rightarrow> int \<times> int \<Rightarrow> (int \<times> int) option" where
  "scan_up [] acc = None"
| "scan_up (k # ks) (kb, ub) =
     (if k = 0 then Some (kb, ub)
      else if k \<ge> int KEY_MAX then scan_up ks (kb, ub)
      else if k < 0 then None
      else scan_up ks (set_bit (nat k) kb, set_bit (nat k) ub))"

record keycombo_probe_env =
  state_alloc :: bool
  wq_alloc :: bool
  handler_ret :: int

definition keycombo_probe :: "keycombo_probe_env \<Rightarrow> keycombo_platform_data option \<Rightarrow> (int \<times> keycombo_state option) option" where
  "keycombo_probe env pdata =
     (case pdata of
        None \<Rightarrow> Some (- EINVAL, None)
      | Some pd \<Rightarrow>
          if \<not> state_alloc env then Some (- ENOMEM, None)
          else do {
            (target, kb) \<leftarrow> scan_down (keys_down pd) (0, 0);
            (kb, ub) \<leftarrow> (case keys_up pd of None \<Rightarrow> Some (kb, 0) | Some ks \<Rightarrow> scan_up ks (kb, 0));
            if \<not> wq_alloc env then Some (- ENOMEM, None)
            else if handler_ret env \<noteq> 0 then Some (handler_ret env, None)
            else Some (0, Some \<lparr>keybit = kb, upbit = ub, key = 0, key_down_target = target, key_down = 0, key_up = 0,
                   delay = key_down_delay pd, st_down_fn = key_down_fn pd, st_up_fn = key_up_fn pd, key_is_down = False,
                   held_awake = False, up_awake = False, down_timer = False, wq = [], running_work = None\<rparr>)
          })"

section \<open>Histories\<close>

datatype combo_input = Event nat nat int | Timer | Start | Finish

definition timer_expires :: "keycombo_state \<Rightarrow> keycombo_state" where
  "timer_expires s = (if down_timer s then s\<lparr>down_timer := False, wq := wq s @ [DownWork]\<rparr> else s)"

definition start_work :: "keycombo_state \<Rightarrow> combo_call list \<times> keycombo_state" where
  "start_work s =
     (case (running_work s, wq s) of
        (None, w # ws) \<Rightarrow>
          (case w of DownWork \<Rightarrow> do_key_down s | UpWork \<Rightarrow> do_key_up s, s\<lparr>wq := ws, running_work := Some w\<rparr>)
      | _ \<Rightarrow> ([], s))"

definition finish_work :: "keycombo_state \<Rightarrow> combo_call list \<times> keycombo_state" where
  "finish_work s =
     (case running_work s of
        None \<Rightarrow> ([], s)
      | Some DownWork \<Rightarrow> (if st_down_fn s \<noteq> None then [DownRet] else [], s\<lparr>running_work := None\<rparr>)
      | Some UpWork \<Rightarrow> do_key_up_end (s\<lparr>running_work := None\<rparr>))"

fun combo_step :: "combo_input \<Rightarrow> keycombo_state \<Rightarrow> combo_call list \<times> keycombo_state" where
  "combo_step (Event type code value) s = ([], keycombo_event type code value s)"
| "combo_step Timer s = ([], timer_expires s)"
| "combo_step Start s = start_work s"
| "combo_step Finish s = finish_work s"

fun combo_run :: "combo_input list \<Rightarrow> keycombo_state \<Rightarrow> combo_call list \<times> keycombo_state" where
  "combo_run [] s = ([], s)"
| "combo_run (e # es) s =
     (let (cs, s) = combo_step e s; (cs', s) = combo_run es s in (cs @ cs', s))"

section \<open>The counters agree with the pressed keys\<close>

text \<open>The last event of a key says whether it is pressed; a combination is held when all its keys are and none of the others.\<close>

definition pressed :: "combo_input list \<Rightarrow> nat \<Rightarrow> bool" where
  "pressed es k =
     fold (\<lambda>e b. case e of Event ty c v \<Rightarrow> if ty = EV_KEY \<and> c = k then v \<noteq> 0 else b | _ \<Rightarrow> b) es False"

definition combo_held :: "nat list \<Rightarrow> nat list \<Rightarrow> combo_input list \<Rightarrow> bool" where
  "combo_held downs ups es \<longleftrightarrow> (\<forall>k \<in> set downs. pressed es k) \<and> (\<forall>k \<in> set ups. \<not> pressed es k)"

definition combo_keys :: "nat list \<Rightarrow> nat list \<Rightarrow> bool" where
  "combo_keys downs ups \<longleftrightarrow> downs \<noteq> [] \<and> distinct (downs @ ups) \<and> (\<forall>k \<in> set (downs @ ups). 0 < k \<and> k < KEY_MAX)"

definition keys_set :: "nat list \<Rightarrow> nat list \<Rightarrow> keycombo_state \<Rightarrow> bool" where
  "keys_set downs ups s \<longleftrightarrow> (\<forall>k. bit (keybit s) k \<longleftrightarrow> k \<in> set (downs @ ups)) \<and> (\<forall>k. bit (upbit s) k \<longleftrightarrow> k \<in> set ups) \<and>
     key_down_target s = int (length downs)"

definition counted :: "nat list \<Rightarrow> nat list \<Rightarrow> combo_input list \<Rightarrow> keycombo_state \<Rightarrow> bool" where
  "counted downs ups es s \<longleftrightarrow> (\<forall>k \<in> set (downs @ ups). bit (key s) k = pressed es k) \<and>
     key_down s = int (length (filter (bit (key s)) downs)) \<and> key_up s = int (length (filter (bit (key s)) ups))"

lemma pressed_snoc [simp]:
  "pressed (es @ [Event ty c v]) k = (if ty = EV_KEY \<and> c = k then v \<noteq> 0 else pressed es k)"
  "pressed (es @ [Timer]) = pressed es" "pressed (es @ [Start]) = pressed es" "pressed (es @ [Finish]) = pressed es"
  by (auto simp: pressed_def fun_eq_iff)

lemma combo_held_work [simp]:
  "combo_held downs ups (es @ [Timer]) = combo_held downs ups es" "combo_held downs ups (es @ [Start]) = combo_held downs ups es"
  "combo_held downs ups (es @ [Finish]) = combo_held downs ups es"
  by (simp_all add: combo_held_def)

lemma bit_flip_key: "bit (flip_bit c (a :: int)) = (bit a)(c := \<not> bit a c)"
  by (auto simp: fun_eq_iff bit_flip_bit_iff)

lemma count_change:
  assumes "distinct xs" "Q c = (\<not> P c)" "\<And>x. x \<noteq> c \<Longrightarrow> Q x = P x"
  shows "int (length (filter Q xs)) = int (length (filter P xs)) + (if c \<in> set xs then if P c then - 1 else 1 else 0)"
  using assms(1)
proof (induction xs)
  case (Cons x xs)
  then show ?case using assms(2) assms(3) [of x] by (cases "x = c") auto
qed simp

text \<open>The test of the handler on its counters is the test on the pressed keys.\<close>

lemma counters_held:
  assumes "counted downs ups es s" "keys_set downs ups s"
  shows "key_down s = key_down_target s \<and> key_up s = 0 \<longleftrightarrow> combo_held downs ups es"
proof -
  have "length (filter (bit (key s)) downs) = length downs \<longleftrightarrow> (\<forall>k \<in> set downs. bit (key s) k)"
    by (metis filter_True length_filter_less nat_neq_iff)
  moreover have "length (filter (bit (key s)) ups) = 0 \<longleftrightarrow> (\<forall>k \<in> set ups. \<not> bit (key s) k)" by (auto simp: filter_empty_conv)
  ultimately show ?thesis using assms by (auto simp: counted_def keys_set_def combo_held_def)
qed

text \<open>The state after the counters are updated, for an event that changes a key of the combination.\<close>

definition count_key :: "nat \<Rightarrow> keycombo_state \<Rightarrow> keycombo_state" where
  "count_key c s =
     (let b = \<not> bit (key s) c; s = s\<lparr>key := flip_bit c (key s)\<rparr>
      in if bit (upbit s) c then s\<lparr>key_up := (if b then key_up s + 1 else key_up s - 1)\<rparr>
         else s\<lparr>key_down := (if b then key_down s + 1 else key_down s - 1)\<rparr>)"

lemma counted_key:
  assumes "combo_keys downs ups" "keys_set downs ups s" "counted downs ups es s" "c \<in> set (downs @ ups)" "bit (key s) c = (v = 0)"
  shows "counted downs ups (es @ [Event EV_KEY c v]) (count_key c s)"
proof -
  have d: "distinct downs" "distinct ups" "c \<in> set ups \<longleftrightarrow> c \<notin> set downs" using assms(1,4) by (auto simp: combo_keys_def)
  let ?Q = "(bit (key s))(c := \<not> bit (key s) c)"
  show ?thesis
    using assms(2-5) count_change [OF d(1), of ?Q c "bit (key s)"] count_change [OF d(2), of ?Q c "bit (key s)"] d(3)
    by (auto simp: counted_def keys_set_def count_key_def bit_flip_key Let_def)
qed

lemma keys_set_count [simp]: "keys_set downs ups (count_key c s) = keys_set downs ups s"
  by (simp add: keys_set_def count_key_def Let_def)

section \<open>The order of the work items\<close>

fun alt_from :: "bool \<Rightarrow> combo_work list \<Rightarrow> bool" where
  "alt_from b [] \<longleftrightarrow> True"
| "alt_from b (w # ws) \<longleftrightarrow> w = (if b then DownWork else UpWork) \<and> alt_from (\<not> b) ws"

definition waiting :: "keycombo_state \<Rightarrow> combo_work list" where
  "waiting s = wq s @ (if down_timer s then [DownWork] else [])"

definition pend :: "keycombo_state \<Rightarrow> combo_work list" where
  "pend s = (case running_work s of None \<Rightarrow> [] | Some w \<Rightarrow> [w]) @ waiting s"

text \<open>
  After \<open>n\<close> finished work items, those that run and wait go on alternating, and an odd number in all means that the
  combination is down.
\<close>

definition queued :: "nat \<Rightarrow> keycombo_state \<Rightarrow> bool" where
  "queued n s \<longleftrightarrow> waiting s \<in> {[], [DownWork], [UpWork], [UpWork, DownWork]} \<and> alt_from (even n) (pend s) \<and>
     (odd (n + length (pend s)) \<longleftrightarrow> key_is_down s) \<and> (up_awake s \<longleftrightarrow> UpWork \<in> set (pend s)) \<and> (held_awake s \<longleftrightarrow> key_is_down s)"

definition settle :: "keycombo_state \<Rightarrow> keycombo_state" where
  "settle s =
     (if key_down s = key_down_target s \<and> key_up s = 0
      then queue_delayed_work (s\<lparr>held_awake := True, key_is_down := True\<rparr>)
      else if key_is_down s
      then let (cancelled, s) = cancel_delayed_work s;
               s = (if \<not> cancelled then queue_up_work (s\<lparr>up_awake := True\<rparr>) else s)
           in s\<lparr>held_awake := False, key_is_down := False\<rparr>
      else s)"

lemma event_settles:
  assumes "c < KEY_MAX" "bit (keybit s) c" "bit (key s) c = (v = 0)"
  shows "keycombo_event EV_KEY c v s = settle (count_key c s)"
  using assms by (simp add: keycombo_event_def settle_def count_key_def Let_def)

lemma event_ignored:
  assumes "ty \<noteq> EV_KEY \<or> c \<ge> KEY_MAX \<or> \<not> bit (keybit s) c \<or> bit (key s) c = (v \<noteq> 0)"
  shows "keycombo_event ty c v s = s"
  using assms by (auto simp: keycombo_event_def)

lemma queued_frame [simp]: "queued n (count_key c s) = queued n s"
  by (simp add: queued_def pend_def waiting_def count_key_def Let_def)

lemma waiting_cases:
  assumes "waiting s \<in> {[], [DownWork], [UpWork], [UpWork, DownWork]}"
  obtains "wq s = []" "\<not> down_timer s" | "wq s = []" "down_timer s" | "wq s = [DownWork]" "\<not> down_timer s"
    | "wq s = [UpWork]" "\<not> down_timer s" | "wq s = [UpWork]" "down_timer s" | "wq s = [UpWork, DownWork]" "\<not> down_timer s"
  using assms by (cases "wq s" rule: rev_cases; cases "down_timer s") (auto simp: waiting_def append_eq_Cons_conv)

lemma settle_down:
  assumes "queued n s" "\<not> key_is_down s" "key_down s = key_down_target s" "key_up s = 0"
  shows "queued n (settle s)" "key_is_down (settle s)"
proof -
  have w: "waiting s \<in> {[], [DownWork], [UpWork], [UpWork, DownWork]}" using assms(1) by (simp add: queued_def)
  show "key_is_down (settle s)" using assms(3,4) by (simp add: settle_def queue_delayed_work_def)
  show "queued n (settle s)" using w
    by (rule waiting_cases)
      (use assms in \<open>auto simp: queued_def settle_def queue_delayed_work_def down_pending_def pend_def waiting_def
        split: option.splits if_splits\<close>)
qed

lemma settle_up:
  assumes "queued n s" "key_is_down s" "\<not> (key_down s = key_down_target s \<and> key_up s = 0)"
  shows "queued n (settle s)" "\<not> key_is_down (settle s)"
proof -
  have w: "waiting s \<in> {[], [DownWork], [UpWork], [UpWork, DownWork]}" using assms(1) by (simp add: queued_def)
  show "\<not> key_is_down (settle s)" using assms(2,3) by (auto simp: settle_def split_def Let_def)
  show "queued n (settle s)" using w
    by (rule waiting_cases)
      (use assms in \<open>auto simp: queued_def settle_def cancel_delayed_work_def queue_up_work_def pend_def waiting_def
        split: option.splits if_splits\<close>)
qed

lemma settle_idle:
  assumes "\<not> key_is_down s" "\<not> (key_down s = key_down_target s \<and> key_up s = 0)"
  shows "settle s = s"
  using assms by (auto simp: settle_def)

section \<open>The invariant\<close>

definition combo_inv :: "nat list \<Rightarrow> nat list \<Rightarrow> combo_input list \<Rightarrow> nat \<Rightarrow> keycombo_state \<Rightarrow> bool" where
  "combo_inv downs ups es n s \<longleftrightarrow> combo_keys downs ups \<and> keys_set downs ups s \<and> counted downs ups es s \<and> queued n s \<and>
     (key_is_down s \<longleftrightarrow> combo_held downs ups es)"

lemma settle_keys [simp]:
  "keys_set downs ups (settle s) = keys_set downs ups s" "counted downs ups es (settle s) = counted downs ups es s"
  by (simp_all add: settle_def keys_set_def counted_def queue_delayed_work_def cancel_delayed_work_def queue_up_work_def Let_def)

lemma count_key_down [simp]: "key_is_down (count_key c s) = key_is_down s"
  by (simp add: count_key_def Let_def)

text \<open>A changed key ends a combination that was held.\<close>

lemma held_changes:
  assumes "c \<in> set (downs @ ups)" "pressed es c = (v = 0)" "combo_held downs ups es"
  shows "\<not> combo_held downs ups (es @ [Event EV_KEY c v])"
  using assms by (auto simp: combo_held_def)

lemma inv_event:
  assumes "combo_inv downs ups es n s"
  shows "combo_inv downs ups (es @ [Event ty c v]) n (keycombo_event ty c v s)"
proof (cases "ty \<noteq> EV_KEY \<or> c \<ge> KEY_MAX \<or> \<not> bit (keybit s) c \<or> bit (key s) c = (v \<noteq> 0)")
  case True
  have i: "combo_keys downs ups" "keys_set downs ups s" "counted downs ups es s" using assms by (simp_all add: combo_inv_def)
  have "pressed (es @ [Event ty c v]) k = pressed es k" if "k \<in> set (downs @ ups)" for k
  proof -
    have "k < KEY_MAX" "bit (keybit s) k" "bit (key s) k = pressed es k"
      using i that by (simp_all add: combo_keys_def keys_set_def counted_def)
    then show ?thesis using True by auto
  qed
  then have "counted downs ups (es @ [Event ty c v]) s" "combo_held downs ups (es @ [Event ty c v]) = combo_held downs ups es"
    using i(3) by (auto simp: counted_def combo_held_def)
  then show ?thesis using event_ignored [OF True] assms by (simp add: combo_inv_def)
next
  case False
  have i: "combo_keys downs ups" "keys_set downs ups s" "counted downs ups es s" "queued n s"
    "key_is_down s = combo_held downs ups es" using assms by (simp_all add: combo_inv_def)
  define s1 where "s1 = count_key c s"
  define es' where "es' = es @ [Event EV_KEY c v]"
  have k: "ty = EV_KEY" "c < KEY_MAX" "bit (keybit s) c" "bit (key s) c = (v = 0)" using False by auto
  have c: "c \<in> set (downs @ ups)" using i(2) k(3) by (simp add: keys_set_def)
  have c1: "counted downs ups es' s1" unfolding s1_def es'_def by (rule counted_key [OF i(1-3) c k(4)])
  have h: "key_down s1 = key_down_target s1 \<and> key_up s1 = 0 \<longleftrightarrow> combo_held downs ups es'"
    using c1 by (rule counters_held) (simp add: s1_def i(2))
  have "pressed es c = (v = 0)" using i(3) c k(4) by (simp add: counted_def)
  then have ch: "combo_held downs ups es \<Longrightarrow> \<not> combo_held downs ups es'" unfolding es'_def by (rule held_changes [OF c])
  have q: "queued n s1" "key_is_down s1 = combo_held downs ups es" using i(4,5) by (simp_all add: s1_def)
  have "queued n (settle s1) \<and> key_is_down (settle s1) = combo_held downs ups es'"
    using settle_down [OF q(1)] settle_up [OF q(1)] settle_idle [of s1] q h ch by metis
  then have "combo_inv downs ups es' n (settle s1)" using i(1,2) c1 by (simp add: combo_inv_def s1_def)
  then show ?thesis using event_settles [OF k(2-4)] by (simp add: k(1) s1_def es'_def)
qed

lemma timer_frame:
  "waiting (timer_expires s) = waiting s" "running_work (timer_expires s) = running_work s"
  "keybit (timer_expires s) = keybit s" "upbit (timer_expires s) = upbit s" "key (timer_expires s) = key s"
  "key_down_target (timer_expires s) = key_down_target s" "key_down (timer_expires s) = key_down s"
  "key_up (timer_expires s) = key_up s" "key_is_down (timer_expires s) = key_is_down s"
  "held_awake (timer_expires s) = held_awake s" "up_awake (timer_expires s) = up_awake s"
  by (simp_all add: timer_expires_def waiting_def)

lemma inv_timer: "combo_inv downs ups es n s \<Longrightarrow> combo_inv downs ups (es @ [Timer]) n (timer_expires s)"
  by (simp add: combo_inv_def keys_set_def counted_def queued_def pend_def timer_frame)

text \<open>Only the queue and the running item change when a work item starts.\<close>

lemma start_cases:
  obtains "start_work s = ([], s)" "running_work s \<noteq> None \<or> wq s = []"
    | w ws where "running_work s = None" "wq s = w # ws"
      "start_work s = (case w of DownWork \<Rightarrow> do_key_down s | UpWork \<Rightarrow> do_key_up s, s\<lparr>wq := ws, running_work := Some w\<rparr>)"
proof (cases "running_work s = None \<and> wq s \<noteq> []")
  case True
  then obtain w ws where "wq s = w # ws" by (cases "wq s") simp_all
  then show ?thesis using True by (intro that(2)) (simp_all add: start_work_def)
next
  case False
  then have "start_work s = ([], s)" by (cases "wq s") (auto simp: start_work_def split: option.split)
  then show ?thesis using False by (intro that(1)) simp_all
qed

lemma inv_work [simp]: "combo_inv downs ups (es @ [Start]) n s = combo_inv downs ups es n s"
  "combo_inv downs ups (es @ [Finish]) n s = combo_inv downs ups es n s"
  by (simp_all add: combo_inv_def counted_def)

lemma inv_start_next:
  assumes "combo_inv downs ups es n s" "running_work s = None" "wq s = w # ws"
  shows "combo_inv downs ups es n (s\<lparr>wq := ws, running_work := Some w\<rparr>)"
proof -
  define s' where "s' = s\<lparr>wq := ws, running_work := Some w\<rparr>"
  have w: "waiting s = w # waiting s'" "pend s' = pend s" using assms(2,3) by (simp_all add: s'_def waiting_def pend_def)
  have "queued n s" using assms(1) by (simp add: combo_inv_def)
  then have "waiting s' \<in> {[], [DownWork], [UpWork], [UpWork, DownWork]}" using w(1) by (auto simp: queued_def)
  then have "queued n s'" using \<open>queued n s\<close> w(2) by (simp add: queued_def) (simp add: s'_def)
  then show ?thesis using assms(1) unfolding s'_def [symmetric]
    by (simp add: combo_inv_def keys_set_def counted_def) (simp add: s'_def)
qed

lemma inv_start: "combo_inv downs ups es n s \<Longrightarrow> combo_inv downs ups (es @ [Start]) n (snd (start_work s))"
  by (rule start_cases [of s]) (simp_all add: inv_start_next)

lemma inv_finish:
  assumes "combo_inv downs ups es n s" "running_work s = Some w"
  shows "combo_inv downs ups (es @ [Finish]) (n + 1) (snd (finish_work s))"
proof -
  define s' where "s' = snd (finish_work s)"
  have q: "queued n s" using assms(1) by (simp add: combo_inv_def)
  have f: "waiting s' = waiting s" "running_work s' = None" "key_is_down s' = key_is_down s" "held_awake s' = held_awake s"
    "up_awake s' = (up_awake s \<and> w \<noteq> UpWork)" "keys_set downs ups s' = keys_set downs ups s"
    "counted downs ups es s' = counted downs ups es s"
    using assms(2)
    by (cases w; simp add: s'_def finish_work_def do_key_up_end_def waiting_def keys_set_def counted_def)+
  have a: "alt_from (odd n) (waiting s)" "w = (if even n then DownWork else UpWork)" "waiting s \<in> {[], [DownWork], [UpWork], [UpWork, DownWork]}"
    "up_awake s = (w = UpWork \<or> UpWork \<in> set (waiting s))"
    using q assms(2) by (auto simp: queued_def pend_def)
  have "UpWork \<notin> set (waiting s)" if "w = UpWork" using a that by (cases "even n") auto
  then have "queued (n + 1) s'" using q a f(1-5) assms(2) by (auto simp: queued_def pend_def)
  then show ?thesis using assms(1) f unfolding s'_def [symmetric] inv_work by (simp add: combo_inv_def)
qed

section \<open>The calls of the combination's functions\<close>

text \<open>
  With both functions the calls go round the cycle; a function that is not there leaves its calls out.
\<close>

abbreviation (input) call_cycle :: "combo_call list" where "call_cycle \<equiv> [DownCall, DownRet, UpCall, UpRet]"

definition calls_of :: "keycombo_state \<Rightarrow> combo_call set" where
  "calls_of s = (if st_down_fn s \<noteq> None then {DownCall, DownRet} else {}) \<union> (if st_up_fn s \<noteq> None then {UpCall, UpRet} else {})"

definition cyclic :: "combo_call list \<Rightarrow> bool" where
  "cyclic cs \<longleftrightarrow> (\<forall>i < length cs. cs ! i = call_cycle ! (i mod 4))"

lemma cyclic_snoc: "cyclic (cs @ [c]) \<longleftrightarrow> cyclic cs \<and> c = call_cycle ! (length cs mod 4)"
  by (auto simp: cyclic_def nth_append less_Suc_eq)

lemma cyclic_next:
  "(2 * n) mod 4 = (if even n then 0 else 2 :: nat)" "(2 * n + 1) mod 4 = (if even n then 1 else 3 :: nat)"
  by presburger+

text \<open>\<open>cs\<close> are the visible ones of \<open>2 n\<close> calls and returns, and of the call that has not returned.\<close>

definition traced :: "combo_call list \<Rightarrow> nat \<Rightarrow> keycombo_state \<Rightarrow> bool" where
  "traced cs n s \<longleftrightarrow> (\<exists>full. cyclic full \<and> length full = 2 * n + (if running_work s = None then 0 else 1) \<and>
     cs = filter (\<lambda>c. c \<in> calls_of s) full)"

lemma traced_snoc:
  assumes "cyclic full" "cs = filter (\<lambda>c. c \<in> calls_of s) full" "c = call_cycle ! (length full mod 4)" "calls_of s' = calls_of s"
    and "length full + 1 = 2 * n + (if running_work s' = None then 0 else 1)" "cs' = (if c \<in> calls_of s then [c] else [])"
  shows "traced (cs @ cs') n s'"
  unfolding traced_def by (rule exI [of _ "full @ [c]"]) (use assms in \<open>simp add: cyclic_snoc\<close>)

lemma traced_frame:
  "running_work s' = running_work s \<Longrightarrow> calls_of s' = calls_of s \<Longrightarrow> traced cs n s' = traced cs n s"
  by (simp add: traced_def)

lemma event_frame:
  "running_work (keycombo_event ty c v s) = running_work s" "calls_of (keycombo_event ty c v s) = calls_of s"
proof -
  have "st_down_fn (keycombo_event ty c v s) = st_down_fn s \<and> st_up_fn (keycombo_event ty c v s) = st_up_fn s"
    by (simp add: keycombo_event_def queue_delayed_work_def cancel_delayed_work_def queue_up_work_def Let_def)
  then show "calls_of (keycombo_event ty c v s) = calls_of s" by (simp add: calls_of_def)
qed (simp add: keycombo_event_def queue_delayed_work_def cancel_delayed_work_def queue_up_work_def Let_def)

lemma traced_start:
  assumes "combo_inv downs ups es n s" "traced cs n s" "start_work s = (cs', s')"
  shows "traced (cs @ cs') n s' \<and> calls_of s' = calls_of s"
proof (rule start_cases [of s])
  assume "start_work s = ([], s)"
  then show ?thesis using assms by simp
next
  fix w ws
  assume w: "running_work s = None" "wq s = w # ws"
    "start_work s = (case w of DownWork \<Rightarrow> do_key_down s | UpWork \<Rightarrow> do_key_up s, s\<lparr>wq := ws, running_work := Some w\<rparr>)"
  have e: "w = (if even n then DownWork else UpWork)"
    using assms(1) w(1,2) by (simp add: combo_inv_def queued_def pend_def waiting_def)
  obtain full where f: "cyclic full" "length full = 2 * n" "cs = filter (\<lambda>c. c \<in> calls_of s) full"
    using assms(2) w(1) by (auto simp: traced_def)
  have s': "s' = s\<lparr>wq := ws, running_work := Some w\<rparr>" "calls_of s' = calls_of s" using assms(3) w(3) by (auto simp: calls_of_def)
  have "traced (cs @ cs') n s'"
    by (rule traced_snoc [OF f(1,3) refl s'(2)])
      (use assms(3) w(3) s'(1) f(2) e in \<open>auto simp: cyclic_next do_key_down_def do_key_up_def calls_of_def\<close>)
  then show ?thesis using s'(2) by simp
qed

lemma traced_finish:
  assumes "combo_inv downs ups es n s" "traced cs n s" "finish_work s = (cs', s')" "running_work s = Some w"
  shows "traced (cs @ cs') (n + 1) s' \<and> calls_of s' = calls_of s"
proof -
  have e: "w = (if even n then DownWork else UpWork)" using assms(1,4) by (simp add: combo_inv_def queued_def pend_def)
  obtain full where f: "cyclic full" "length full = 2 * n + 1" "cs = filter (\<lambda>c. c \<in> calls_of s) full"
    using assms(2,4) by (auto simp: traced_def)
  have s': "calls_of s' = calls_of s" "running_work s' = None"
    using assms(3,4) by (auto simp: finish_work_def do_key_up_end_def calls_of_def split: combo_work.splits)
  have "traced (cs @ cs') (n + 1) s'"
    by (rule traced_snoc [OF f(1,3) refl s'(1)])
      (use assms(3,4) s'(2) f(2) e cyclic_next(2) [of n] in
        \<open>auto simp: finish_work_def do_key_up_end_def calls_of_def split: if_splits\<close>)
  then show ?thesis using s'(1) by simp
qed

lemma step_inv:
  assumes "combo_inv downs ups es n s" "traced cs n s" "combo_step e s = (cs', s')"
  shows "\<exists>n'. combo_inv downs ups (es @ [e]) n' s' \<and> traced (cs @ cs') n' s' \<and> calls_of s' = calls_of s"
proof (cases e)
  case (Event ty c v)
  then show ?thesis using assms inv_event [OF assms(1), of ty c v] event_frame [of ty c v s] traced_frame [OF event_frame, of cs n ty c v s]
    by (intro exI [of _ n]) auto
next
  case Timer
  have c: "calls_of (timer_expires s) = calls_of s" by (auto simp: calls_of_def timer_expires_def)
  show ?thesis using assms inv_timer [OF assms(1)] traced_frame [OF timer_frame(2) c, of cs n] c Timer
    by (intro exI [of _ n]) auto
next
  case Start
  then show ?thesis using assms inv_start [OF assms(1)] traced_start [OF assms(1,2)] by (intro exI [of _ n]) auto
next
  case Finish
  show ?thesis
  proof (cases "running_work s")
    case None
    then have "finish_work s = ([], s)" by (simp add: finish_work_def)
    then show ?thesis using assms Finish by (intro exI [of _ n]) auto
  next
    case (Some w)
    then show ?thesis using assms Finish inv_finish [OF assms(1) Some] traced_finish [OF assms(1,2) _ Some]
      by (intro exI [of _ "n + 1"]) auto
  qed
qed

lemma combo_run_append:
  "combo_run (es @ es') s = (let (cs, s) = combo_run es s; (cs', s) = combo_run es' s in (cs @ cs', s))"
  by (induction es arbitrary: s) (simp_all add: split_def Let_def)

lemma run_inv:
  assumes "combo_inv downs ups [] 0 s" "running_work s = None" "combo_run es s = (cs, s')"
  shows "\<exists>n. combo_inv downs ups es n s' \<and> traced cs n s' \<and> calls_of s' = calls_of s"
  using assms(3)
proof (induction es arbitrary: cs s' rule: rev_induct)
  case Nil
  then show ?case using assms(1,2) by (auto simp: traced_def cyclic_def)
next
  case (snoc e es)
  obtain cs1 s1 where 1: "combo_run es s = (cs1, s1)" by fastforce
  obtain cs2 s2 where 2: "combo_step e s1 = (cs2, s2)" by fastforce
  have "cs = cs1 @ cs2" "s' = s2" using snoc.prems 1 2 by (simp_all add: combo_run_append)
  then show ?case using snoc.IH [OF 1] step_inv [OF _ _ 2] by metis
qed

section \<open>Probing and draining\<close>

lemma bit_fold_set: "bit (fold set_bit ks (kb :: int)) k \<longleftrightarrow> bit kb k \<or> k \<in> set ks"
  by (induction ks arbitrary: kb) (auto simp: bit_set_bit_iff)

lemma scan_down_keys:
  "\<forall>k \<in> set ks. 0 < k \<and> k < KEY_MAX \<Longrightarrow>
     scan_down (map int ks @ [0]) (t, kb) = Some (t + int (length ks), fold set_bit ks kb)"
  by (induction ks arbitrary: t kb) auto

lemma scan_up_keys:
  "\<forall>k \<in> set ks. 0 < k \<and> k < KEY_MAX \<Longrightarrow>
     scan_up (map int ks @ [0]) (kb, ub) = Some (fold set_bit ks kb, fold set_bit ks ub)"
  by (induction ks arbitrary: kb ub) auto

definition pdata_keys :: "nat list \<Rightarrow> nat list \<Rightarrow> keycombo_platform_data \<Rightarrow> bool" where
  "pdata_keys downs ups pd \<longleftrightarrow> combo_keys downs ups \<and> keys_down pd = map int downs @ [0] \<and>
     (keys_up pd = Some (map int ups @ [0]) \<or> keys_up pd = None \<and> ups = [])"

lemma combo_probe_inv:
  assumes "keycombo_probe env (Some pd) = Some (0, Some s)" "pdata_keys downs ups pd"
  shows "combo_inv downs ups [] 0 s" "running_work s = None"
    "st_down_fn s = key_down_fn pd" "st_up_fn s = key_up_fn pd" "delay s = key_down_delay pd"
proof -
  have d: "combo_keys downs ups" "\<forall>k \<in> set downs. 0 < k \<and> k < KEY_MAX" "\<forall>k \<in> set ups. 0 < k \<and> k < KEY_MAX"
    using assms(2) by (auto simp: pdata_keys_def combo_keys_def)
  have "scan_down (keys_down pd) (0, 0) = Some (int (length downs), fold set_bit downs 0)"
    using assms(2) scan_down_keys [OF d(2), of 0 0] by (simp add: pdata_keys_def)
  moreover have "(case keys_up pd of None \<Rightarrow> Some (kb, 0) | Some ks \<Rightarrow> scan_up ks (kb, 0)) =
      Some (fold set_bit ups kb, fold set_bit ups 0)" for kb
    using assms(2) scan_up_keys [OF d(3), of kb 0] by (auto simp: pdata_keys_def)
  ultimately have s: "s = \<lparr>keybit = fold set_bit ups (fold set_bit downs 0), upbit = fold set_bit ups 0, key = 0,
      key_down_target = int (length downs), key_down = 0, key_up = 0, delay = key_down_delay pd, st_down_fn = key_down_fn pd,
      st_up_fn = key_up_fn pd, key_is_down = False, held_awake = False, up_awake = False, down_timer = False, wq = [],
      running_work = None\<rparr>"
    using assms(1) by (simp add: keycombo_probe_def split: if_splits)
  have "\<not> combo_held downs ups []" using d(1) by (cases downs) (auto simp: combo_held_def combo_keys_def pressed_def)
  then show "combo_inv downs ups [] 0 s" using d(1)
    by (simp add: s combo_inv_def keys_set_def counted_def queued_def pend_def waiting_def bit_fold_set pressed_def disj_commute)
  show "running_work s = None" "st_down_fn s = key_down_fn pd" "st_up_fn s = key_up_fn pd" "delay s = key_down_delay pd"
    by (simp_all add: s)
qed

text \<open>The timer expires, the running work item ends, and those that wait, at most two, run.\<close>

definition drain :: "combo_input list" where
  "drain = [Timer, Finish, Start, Finish, Start, Finish]"

definition at_rest :: "combo_work list \<Rightarrow> keycombo_state \<Rightarrow> bool" where
  "at_rest ws s \<longleftrightarrow> running_work s = None \<and> \<not> down_timer s \<and> wq s = ws"

lemma rest_next:
  assumes "at_rest ws s"
  shows "at_rest (tl ws) (snd (finish_work (snd (start_work s))))"
  using assms
  by (cases ws; cases "hd ws") (simp_all add: at_rest_def start_work_def finish_work_def do_key_up_end_def)

lemma rest_first: "at_rest (waiting s) (snd (finish_work (timer_expires s)))"
  by (simp add: at_rest_def waiting_def timer_expires_def finish_work_def do_key_up_end_def split: option.split combo_work.split)

lemma drain_empty:
  assumes "queued n s" "combo_run drain s = (cs, s')"
  shows "pend s' = [] \<and> running_work s' = None"
proof -
  have "tl (tl (waiting s)) = []" using assms(1) by (auto simp: queued_def)
  moreover have "at_rest (tl (tl (waiting s))) s'"
    using rest_next [OF rest_next [OF rest_first [of s]]] assms(2) by (auto simp: drain_def split_def Let_def)
  ultimately show ?thesis by (simp add: at_rest_def pend_def waiting_def)
qed

lemma held_drain: "combo_held downs ups (es @ drain) = combo_held downs ups es"
  by (simp add: combo_held_def pressed_def drain_def)

lemma cyclic_end:
  assumes "cyclic cs" "length cs = 2 * n"
  shows "odd n \<Longrightarrow> \<exists>cs'. cs = cs' @ [DownCall, DownRet]" "even n \<Longrightarrow> cs = [] \<or> (\<exists>cs'. cs = cs' @ [UpCall, UpRet])"
proof -
  have "\<exists>cs' a b. cs = cs' @ [a, b] \<and> length cs' = 2 * (n - 1)" if "0 < n"
    by (cases cs rule: rev_cases; cases "butlast cs" rule: rev_cases) (use assms(2) that in auto)
  then have e: "0 < n \<Longrightarrow> \<exists>cs'. cs = cs' @ [call_cycle ! (2 * (n - 1) mod 4), call_cycle ! ((2 * (n - 1) + 1) mod 4)]"
    using assms(1) cyclic_snoc by (metis append.assoc append_Cons append_Nil length_append_singleton Suc_eq_plus1)
  show "odd n \<Longrightarrow> \<exists>cs'. cs = cs' @ [DownCall, DownRet]"
    using e odd_pos [of n] cyclic_next(2) [of "n - 1"] by (simp add: cyclic_next(1))
  show "even n \<Longrightarrow> cs = [] \<or> (\<exists>cs'. cs = cs' @ [UpCall, UpRet])"
    using e assms(2) cyclic_next(2) [of "n - 1"] by (cases "n = 0") (simp_all add: cyclic_next(1))
qed

lemma drained_calls:
  assumes "combo_inv downs ups [] 0 s" "running_work s = None" "combo_run (es @ drain) s = (cs, s')"
  shows "\<exists>full. cyclic full \<and> cs = filter (\<lambda>c. c \<in> calls_of s) full \<and>
    (if combo_held downs ups es then \<exists>cs'. full = cs' @ [DownCall, DownRet] else full = [] \<or> (\<exists>cs'. full = cs' @ [UpCall, UpRet]))"
proof -
  obtain cs1 s1 where 1: "combo_run es s = (cs1, s1)" by fastforce
  obtain cs2 where 2: "combo_run drain s1 = (cs2, s')" using assms(3) 1 by (auto simp: combo_run_append split: prod.splits)
  obtain n1 where n1: "queued n1 s1" using run_inv [OF assms(1,2) 1] by (auto simp: combo_inv_def)
  obtain n where n: "combo_inv downs ups (es @ drain) n s'" "traced cs n s'" "calls_of s' = calls_of s"
    using run_inv [OF assms] by auto
  have p: "pend s' = []" "running_work s' = None" using drain_empty [OF n1 2] by auto
  have "odd n = combo_held downs ups es" using n(1) p(1) by (simp add: combo_inv_def queued_def held_drain)
  moreover obtain full where "cyclic full" "length full = 2 * n" "cs = filter (\<lambda>c. c \<in> calls_of s) full"
    using n(2,3) p(2) by (auto simp: traced_def)
  ultimately show ?thesis using cyclic_end [of full n] by auto
qed

section \<open>Properties\<close>

text \<open>
  C7: The contract of \<^verbatim>\<open>keycombo.h\<close>.  For every combination of distinct keys and every interleaving of key events, of
  the timer and of the work queue: the calls of the two functions go round the cycle of calling and returning from
  the one for down and calling and returning from the one for up, so that neither is called twice in a row or before
  the other has returned; the handler takes the combination for down exactly when the last events of the keys say that all
  of its keys are pressed and none of the others; the function for down starts only while that is so; and the wake-up
  source is held exactly as long.
\<close>

theorem keycombo_contract:
  assumes "pdata_keys downs ups pd" "keycombo_probe env (Some pd) = Some (0, Some s)" "combo_run es s = (cs, s')"
  shows "(\<exists>full. cyclic full \<and> cs = filter (\<lambda>c. c \<in> calls_of s) full) \<and>
    key_is_down s' = combo_held downs ups es \<and> held_awake s' = combo_held downs ups es \<and>
    (fst (start_work s') = [DownCall] \<longrightarrow> combo_held downs ups es)"
proof -
  note p = combo_probe_inv [OF assms(2,1)]
  obtain n where n: "combo_inv downs ups es n s'" "traced cs n s'" "calls_of s' = calls_of s"
    using run_inv [OF p(1,2) assms(3)] by auto
  have q: "queued n s'" "key_is_down s' = combo_held downs ups es" using n(1) by (simp_all add: combo_inv_def)
  have "combo_held downs ups es" if d: "fst (start_work s') = [DownCall]"
  proof (rule start_cases [of s'])
    assume "start_work s' = ([], s')"
    then show ?thesis using d by simp
  next
    fix w ws
    assume w: "running_work s' = None" "wq s' = w # ws"
      "start_work s' = (case w of DownWork \<Rightarrow> do_key_down s' | UpWork \<Rightarrow> do_key_up s', s'\<lparr>wq := ws, running_work := Some w\<rparr>)"
    then have "w = DownWork" using d by (cases w) (simp_all add: do_key_up_def split: if_splits)
    then have "pend s' = [DownWork]" "even n" using q(1) w(1,2) by (auto simp: queued_def pend_def waiting_def)
    then show ?thesis using q by (simp add: queued_def)
  qed
  then show ?thesis using n(2,3) q by (auto simp: traced_def queued_def)
qed

definition ex_pdata :: keycombo_platform_data where
  "ex_pdata = \<lparr>key_down_fn = Some COMBO_FUNC_POWER_OFF, key_up_fn = None, key_down_delay = 6000, keys_up = Some [114, 0], keys_down = [115, 116, 0]\<rparr>"

definition ex_press :: "combo_input list" where
  "ex_press = [Event 1 116 1, Event 1 115 1, Timer]"

lemma ex_pdata_keys: "pdata_keys [115, 116] [114] ex_pdata"
  by (simp add: pdata_keys_def combo_keys_def ex_pdata_def)

lemma ex_pdata_probe:
  obtains s where "keycombo_probe \<lparr>state_alloc = True, wq_alloc = True, handler_ret = 0\<rparr> (Some ex_pdata) = Some (0, Some s)"
    "st_down_fn s = Some COMBO_FUNC_POWER_OFF" "st_up_fn s = None"
  by (simp add: keycombo_probe_def ex_pdata_def)

theorem keycombo_contract_witness:
  "\<exists>s cs s'. keycombo_probe \<lparr>state_alloc = True, wq_alloc = True, handler_ret = 0\<rparr> (Some ex_pdata) = Some (0, Some s) \<and>
     combo_run ex_press s = (cs, s') \<and> key_is_down s' \<and> held_awake s'"
proof -
  obtain s where s: "keycombo_probe \<lparr>state_alloc = True, wq_alloc = True, handler_ret = 0\<rparr> (Some ex_pdata) = Some (0, Some s)"
    by (rule ex_pdata_probe)
  obtain cs s' where r: "combo_run ex_press s = (cs, s')" by fastforce
  have "combo_held [115, 116] [114] ex_press" by (simp add: combo_held_def pressed_def ex_press_def)
  then show ?thesis using keycombo_contract [OF ex_pdata_keys s r] s r by blast
qed

text \<open>
  C34: A combination that is held is acted upon.  Let any history end with the combination held, and then let the timer
  expire, the running work item end and those that wait run: the last thing the handler has done is to call the
  function for down and to wait for its return.  If the combination is not held in the end, the last thing was
  the function for up, or nothing was called at all: no press is left without its release.
\<close>

theorem held_combination_fires:
  assumes "pdata_keys downs ups pd" "keycombo_probe env (Some pd) = Some (0, Some s)"
    and "key_down_fn pd \<noteq> None" "key_up_fn pd \<noteq> None"
  shows "let cs = fst (combo_run (es @ drain) s) in
    if combo_held downs ups es then \<exists>cs'. cs = cs' @ [DownCall, DownRet] else cs = [] \<or> (\<exists>cs'. cs = cs' @ [UpCall, UpRet])"
proof -
  note p = combo_probe_inv [OF assms(2,1)]
  obtain cs s' where r: "combo_run (es @ drain) s = (cs, s')" by fastforce
  have "calls_of s = {DownCall, DownRet, UpCall, UpRet}" using assms(3,4) p(3,4) by (auto simp: calls_of_def)
  moreover have "c \<in> {DownCall, DownRet, UpCall, UpRet}" for c by (cases c) simp_all
  ultimately have "filter (\<lambda>c. c \<in> calls_of s) full = full" for full by simp
  then show ?thesis using drained_calls [OF p(1,2) r] r by auto
qed

theorem held_combination_fires_witness:
  "\<exists>s cs. keycombo_probe \<lparr>state_alloc = True, wq_alloc = True, handler_ret = 0\<rparr>
     (Some (ex_pdata\<lparr>key_up_fn := Some COMBO_FUNC_PANIC\<rparr>)) = Some (0, Some s) \<and>
     fst (combo_run (ex_press @ drain) s) = cs @ [DownCall, DownRet]"
proof -
  define pd where "pd = ex_pdata\<lparr>key_up_fn := Some COMBO_FUNC_PANIC\<rparr>"
  obtain s where s: "keycombo_probe \<lparr>state_alloc = True, wq_alloc = True, handler_ret = 0\<rparr> (Some pd) = Some (0, Some s)"
    by (simp add: pd_def keycombo_probe_def ex_pdata_def)
  have k: "pdata_keys [115, 116] [114] pd" "key_down_fn pd \<noteq> None" "key_up_fn pd \<noteq> None"
    using ex_pdata_keys by (simp_all add: pd_def pdata_keys_def) (simp add: ex_pdata_def)
  have "combo_held [115, 116] [114] ex_press" by (simp add: combo_held_def pressed_def ex_press_def)
  then show ?thesis using held_combination_fires [OF k(1) s k(2,3), of ex_press] s by (auto simp: pd_def Let_def)
qed

end
