(* ===== verification/Rtc_Lib.thy ===== *)
theory Rtc_Lib
  imports Kernel_Base
begin

text \<open>
  The calendar functions of the RTC subsystem (\<^verbatim>\<open>drivers/rtc/lib.c\<close>), with \<^verbatim>\<open>mktime64\<close> and the
  \<^verbatim>\<open>ktime\<close> conversions they call (\<^verbatim>\<open>kernel/time/time.c\<close>, \<^verbatim>\<open>include/linux/ktime.h\<close>).  A C
  \<^verbatim>\<open>int\<close> is an \<^typ>\<open>int\<close> in range, an \<^verbatim>\<open>unsigned int\<close> one that \<open>wrap_u32\<close> keeps in range.

  \<open>civil_days\<close> is the specification: the number of days from 1970-01-01 to a Gregorian date.  The
  lemmas show that \<^verbatim>\<open>rtc_time64_to_tm\<close> and \<^verbatim>\<open>rtc_tm_to_time64\<close> are inverse to each other on
  every valid date.
\<close>

section \<open>The functions\<close>

record rtc_time =
  tm_sec :: int
  tm_min :: int
  tm_hour :: int
  tm_mday :: int
  tm_mon :: int
  tm_year :: int
  tm_wday :: int
  tm_yday :: int
  tm_isdst :: int

definition is_leap_year :: "int \<Rightarrow> bool" where
  "is_leap_year year \<longleftrightarrow> (year mod 4 = 0 \<and> year mod 100 \<noteq> 0) \<or> year mod 400 = 0"

definition rtc_days_in_month :: "int list" where
  "rtc_days_in_month = [31, 28, 31, 30, 31, 30, 31, 31, 30, 31, 30, 31]"

definition rtc_ydays :: "bool \<Rightarrow> int list" where
  "rtc_ydays leap =
     (if leap then [0, 31, 60, 91, 121, 152, 182, 213, 244, 274, 305, 335, 366]
      else [0, 31, 59, 90, 120, 151, 181, 212, 243, 273, 304, 334, 365])"

definition LEAPS_THRU_END_OF :: "int \<Rightarrow> int" where
  "LEAPS_THRU_END_OF y = wrap_u32 (wrap_u32 (y div 4 - y div 100) + y div 400)"

text \<open>The month of both functions is at most 11; every caller has checked it.\<close>

definition rtc_month_days :: "nat \<Rightarrow> int \<Rightarrow> int" where
  "rtc_month_days month year =
     rtc_days_in_month ! month + (if is_leap_year year \<and> month = 1 then 1 else 0)"

definition rtc_year_days :: "int \<Rightarrow> nat \<Rightarrow> int \<Rightarrow> int" where
  "rtc_year_days day month year = s32 (wrap_u32 (rtc_ydays (is_leap_year year) ! month + day - 1))"

text \<open>The two loops of \<^verbatim>\<open>rtc_time64_to_tm\<close>; the month loop has at most 11 turns.\<close>

function rtc_year_loop :: "int \<Rightarrow> int \<Rightarrow> int \<times> int" where
  "rtc_year_loop year days =
     (if days < 0
      then let year = wrap_u32 (year - 1)
           in rtc_year_loop year (days + (365 + (if is_leap_year year then 1 else 0)))
      else (year, days))"
  by auto

termination
  by (relation "measure (\<lambda>(year, days). nat (- days))") (auto split: if_splits)

declare rtc_year_loop.simps [simp del]

fun rtc_month_loop :: "nat \<Rightarrow> nat \<Rightarrow> int \<Rightarrow> int \<Rightarrow> nat \<times> int" where
  "rtc_month_loop 0 month days year = (month, days)"
| "rtc_month_loop (Suc n) month days year =
     (let newdays = days - rtc_month_days month year
      in if newdays < 0 then (month, days) else rtc_month_loop n (Suc month) newdays year)"

definition rtc_time64_to_tm :: "int \<Rightarrow> rtc_time" where
  "rtc_time64_to_tm time =
     (let days = s32 (time sdiv 86400); secs = wrap_u32 (time smod 86400);
          wday = s32 (days + 4) smod 7;
          year = wrap_u32 (1970 + days sdiv 365);
          days = s32 (days - wrap_u32 (wrap_u32 (year - 1970) * 365
                   + LEAPS_THRU_END_OF (wrap_u32 (year - 1)) - 477));
          (year, days) = rtc_year_loop year days;
          yday = days + 1;
          (month, days) = rtc_month_loop 11 0 days year;
          hour = secs div 3600;
          secs = wrap_u32 (secs - hour * 3600);
          minute = secs div 60
      in \<lparr>tm_sec = secs - minute * 60, tm_min = minute, tm_hour = hour, tm_mday = days + 1,
          tm_mon = int month, tm_year = s32 (year - 1900), tm_wday = wday, tm_yday = yday,
          tm_isdst = 0\<rparr>)"

definition rtc_valid_tm :: "rtc_time \<Rightarrow> int" where
  "rtc_valid_tm tm =
     (if tm_year tm < 70 \<or> tm_year tm > 2147481747 \<or> wrap_u32 (tm_mon tm) \<ge> 12 \<or> tm_mday tm < 1 \<or>
         tm_mday tm > rtc_month_days (nat (tm_mon tm)) (wrap_u32 (tm_year tm + 1900)) \<or>
         wrap_u32 (tm_hour tm) \<ge> 24 \<or> wrap_u32 (tm_min tm) \<ge> 60 \<or> wrap_u32 (tm_sec tm) \<ge> 60
      then - EINVAL else 0)"

definition mktime64 :: "int \<Rightarrow> int \<Rightarrow> int \<Rightarrow> int \<Rightarrow> int \<Rightarrow> int \<Rightarrow> int" where
  "mktime64 year0 mon0 day hour minute sec =
     (let mon = wrap_u32 (mon0 - 2);
          (mon, year) = (if 0 \<ge> s32 mon then (wrap_u32 (mon + 12), wrap_u32 (year0 - 1))
                         else (mon, year0))
      in (((wrap_u32 (year div 4 - year div 100 + year div 400 + wrap_u32 (367 * mon) div 12 + day)
            + wrap_u32 (year * 365) - 719499) * 24 + hour) * 60 + minute) * 60 + sec)"

definition rtc_tm_to_time64 :: "rtc_time \<Rightarrow> int" where
  "rtc_tm_to_time64 tm =
     mktime64 (wrap_u32 (tm_year tm + 1900)) (wrap_u32 (tm_mon tm + 1)) (wrap_u32 (tm_mday tm))
       (wrap_u32 (tm_hour tm)) (wrap_u32 (tm_min tm)) (wrap_u32 (tm_sec tm))"

text \<open>\<^verbatim>\<open>ktime_t\<close> is a signed 64-bit number of nanoseconds.\<close>

abbreviation (input) NSEC_PER_SEC :: int where "NSEC_PER_SEC \<equiv> 1000000000"
abbreviation (input) KTIME_MAX :: int where "KTIME_MAX \<equiv> 9223372036854775807"
abbreviation (input) KTIME_SEC_MAX :: int where "KTIME_SEC_MAX \<equiv> 9223372036"

definition ktime_set :: "int \<Rightarrow> int \<Rightarrow> int" where
  "ktime_set secs nsecs =
     (if secs \<ge> KTIME_SEC_MAX then KTIME_MAX else s64 (s64 (secs * NSEC_PER_SEC) + nsecs))"

definition ns_to_timespec64 :: "int \<Rightarrow> int \<times> int" where
  "ns_to_timespec64 nsec =
     (if nsec = 0 then (0, 0)
      else let sec = nsec sdiv NSEC_PER_SEC; rem = nsec smod NSEC_PER_SEC
           in if rem < 0 then (sec - 1, rem + NSEC_PER_SEC) else (sec, rem))"

definition rtc_tm_to_ktime :: "rtc_time \<Rightarrow> int" where
  "rtc_tm_to_ktime tm = ktime_set (rtc_tm_to_time64 tm) 0"

definition rtc_ktime_to_tm :: "int \<Rightarrow> rtc_time" where
  "rtc_ktime_to_tm kt =
     (let (sec, nsec) = ns_to_timespec64 kt
      in rtc_time64_to_tm (if nsec \<noteq> 0 then sec + 1 else sec))"

section \<open>The specification: days of the Gregorian calendar\<close>

definition days_thru :: "int \<Rightarrow> int" where
  "days_thru y = 365 * y + y div 4 - y div 100 + y div 400"

definition civil_days :: "int \<Rightarrow> nat \<Rightarrow> int \<Rightarrow> int" where
  "civil_days y m d = days_thru (y - 1) + rtc_ydays (is_leap_year y) ! m + (d - 1) - 719162"

definition year_len :: "int \<Rightarrow> int" where
  "year_len y = 365 + (if is_leap_year y then 1 else 0)"

lemma div_step:
  assumes "0 < n"
  shows "(y::int) div n = (y - 1) div n + (if n dvd y then 1 else 0)"
proof (cases "n dvd y")
  case True
  then obtain k where k: "y = n * k" by (elim dvdE)
  have "(y - 1) div n = k - 1" using assms k
    by (intro int_div_pos_eq [of _ _ _ "n - 1"]) (auto simp: algebra_simps)
  then show ?thesis using k assms by simp
next
  case False
  have "y = n * (y div n) + y mod n" by simp
  moreover have "y mod n \<noteq> 0" using False by (simp add: dvd_eq_mod_eq_0)
  moreover have "0 \<le> y mod n" "y mod n < n" using assms by simp_all
  ultimately have "(y - 1) div n = y div n" by (intro int_div_pos_eq [of _ _ _ "y mod n - 1"]) auto
  then show ?thesis using False by simp
qed

lemma days_thru_step: "days_thru y = days_thru (y - 1) + year_len y"
proof -
  have leap: "is_leap_year y \<longleftrightarrow> (4 dvd y \<and> \<not> 100 dvd y) \<or> 400 dvd y"
    by (simp add: is_leap_year_def dvd_eq_mod_eq_0)
  have "400 dvd y \<Longrightarrow> 100 dvd y" "100 dvd y \<Longrightarrow> 4 dvd y" by (auto elim: dvd_trans [rotated])
  then show ?thesis
    unfolding days_thru_def year_len_def leap div_step [of 4 y, simplified] div_step [of 100 y, simplified]
      div_step [of 400 y, simplified]
    by (cases "400 dvd y"; cases "100 dvd y"; cases "4 dvd y") (simp_all only: if_True if_False simp_thms, simp_all)
qed

lemma year_len_bounds: "365 \<le> year_len y" "year_len y \<le> 366"
  by (simp_all add: year_len_def)

lemma days_thru_mono: "y \<le> z \<Longrightarrow> days_thru y + 365 * (z - y) \<le> days_thru z"
proof (induction z rule: int_ge_induct)
  case (step z)
  then show ?case using days_thru_step [of "z + 1"] year_len_bounds(1) [of "z + 1"] by simp
qed simp

section \<open>From seconds to the date\<close>

lemma rtc_year_loop_spec:
  assumes "0 \<le> year - 10" "year < 4294967296" "days < year_len year"
    and "- 365 * (year - 10) \<le> days" "rtc_year_loop year days = (y, d)"
  shows "0 \<le> d \<and> d < year_len y \<and> days_thru (y - 1) + d = days_thru (year - 1) + days \<and>
     10 \<le> y \<and> y \<le> year"
  using assms
proof (induction year days arbitrary: y d rule: rtc_year_loop.induct)
  case (1 year days)
  show ?case
  proof (cases "days < 0")
    case True
    then have year: "10 < year" using "1.prems"(4) by (cases "year = 10") auto
    then have w: "wrap_u32 (year - 1) = year - 1" using "1.prems"(2) by simp
    have rec: "rtc_year_loop (year - 1) (days + year_len (year - 1)) = (y, d)"
      using "1.prems"(5) True by (simp add: rtc_year_loop.simps [of year] w year_len_def Let_def)
    have "0 \<le> d \<and> d < year_len y \<and>
        days_thru (y - 1) + d = days_thru (year - 1 - 1) + (days + year_len (year - 1)) \<and> 10 \<le> y \<and> y \<le> year - 1"
    proof (rule "1.IH" [OF True w [symmetric], folded year_len_def, of y d])
    qed (use True year "1.prems" year_len_bounds [of "year - 1"] rec in \<open>simp_all add: w\<close>)
    then show ?thesis using days_thru_step [of "year - 1"] by simp
  next
    case False
    then show ?thesis using "1.prems" by (simp add: rtc_year_loop.simps [of year])
  qed
qed

lemma rtc_ydays_step:
  assumes "m < 12"
  shows "rtc_ydays (is_leap_year y) ! Suc m = rtc_ydays (is_leap_year y) ! m + rtc_month_days m y"
proof -
  have "\<forall>m \<in> set [0..<12]. rtc_ydays (is_leap_year y) ! Suc m =
      rtc_ydays (is_leap_year y) ! m + rtc_month_days m y"
    by (simp add: upt_conv_Cons rtc_ydays_def rtc_month_days_def rtc_days_in_month_def)
  then show ?thesis using assms by simp
qed

lemma rtc_month_days_pos: "m < 12 \<Longrightarrow> 28 \<le> rtc_month_days m y"
proof -
  assume "m < 12"
  moreover have "\<forall>m \<in> set [0..<12]. 28 \<le> rtc_month_days m y"
    by (simp add: upt_conv_Cons rtc_month_days_def rtc_days_in_month_def)
  ultimately show ?thesis by simp
qed

lemma rtc_ydays_ends: "rtc_ydays leap ! 0 = 0" "rtc_ydays (is_leap_year y) ! 12 = year_len y"
  by (simp_all add: rtc_ydays_def year_len_def)

lemma rtc_ydays_mono: "i \<le> j \<Longrightarrow> j \<le> 12 \<Longrightarrow> rtc_ydays leap ! i \<le> rtc_ydays leap ! j"
  by (rule sorted_nth_mono; cases leap) (simp_all add: rtc_ydays_def)

lemma rtc_month_loop_spec:
  assumes "m + n = 11" "0 \<le> days" "rtc_ydays (is_leap_year y) ! m + days < year_len y"
    and "rtc_month_loop n m days y = (m', d)"
  shows "m' < 12 \<and> 0 \<le> d \<and> d < rtc_month_days m' y \<and>
     rtc_ydays (is_leap_year y) ! m' + d = rtc_ydays (is_leap_year y) ! m + days"
  using assms
proof (induction n arbitrary: m days)
  case 0
  then show ?case using rtc_ydays_step [of 11 y] rtc_ydays_ends(2) [of y] by simp
next
  case (Suc n)
  then show ?case using rtc_ydays_step [of m y] Suc.IH [of "Suc m" "days - rtc_month_days m y"]
    by (auto simp: Let_def split: if_splits)
qed

lemma time64_split:
  fixes t :: int
  assumes "0 \<le> t"
  shows "t smod 86400 = t mod 86400" "t sdiv 86400 = t div 86400" "0 \<le> t div 86400"
  using smod_pos [OF assms, of 86400] sdiv_pos [OF assms, of 86400] assms by simp_all

text \<open>The date part of the conversion: for \<open>D\<close> days since the epoch, the first estimate of the year
  is never too small, and the loop corrects it.\<close>

lemma rtc_year_estimate:
  assumes "0 \<le> D" "D < 2147483648" "year = wrap_u32 (1970 + D sdiv 365)"
    and "days = s32 (D - wrap_u32 (wrap_u32 (year - 1970) * 365
           + LEAPS_THRU_END_OF (wrap_u32 (year - 1)) - 477))"
  shows "days = D + 719162 - days_thru (year - 1)" "days < year_len year"
    "- 365 * (year - 10) \<le> days" "1970 \<le> year" "year < 5885489"
proof -
  define q where "q = D div 365"
  have q: "0 \<le> q" "q < 5883517" "365 * q \<le> D" "D < 365 * q + 365" using assms(1,2) by (simp_all add: q_def)
  have year: "year = 1970 + q" using assms(1,3) q by (simp add: sdiv_pos q_def)
  define a b c where "a = (year - 1) div 4" and "b = (year - 1) div 100" and "c = (year - 1) div 400"
  have abc: "0 \<le> c" "0 \<le> b" "b \<le> a" "c \<le> a" "a \<le> 492 + q" "days_thru (year - 1) = 365 * (year - 1) + a - b + c"
    using year q(1) by (simp_all add: a_def b_def c_def days_thru_def)
  have l: "477 \<le> a - b + c"
    using days_thru_mono [of 1969 "year - 1"] year q(1) abc(6) by (simp add: days_thru_def)
  have "wrap_u32 (year - 1) = year - 1" using year q by simp
  then have L: "LEAPS_THRU_END_OF (wrap_u32 (year - 1)) = a - b + c"
    using abc q(2) by (simp add: LEAPS_THRU_END_OF_def flip: a_def b_def c_def)
  have w: "wrap_u32 (year - 1970) * 365 = 365 * q" using year q by simp
  have wr: "wrap_u32 (365 * q + (a - b + c) - 477) = 365 * q + (a - b + c) - 477"
    using q(1,2) abc l by (intro wrap_u32_id) simp_all
  have "days = D - (365 * q + (a - b + c) - 477)"
    unfolding assms(4) L w wr using q abc l assms(1,2) by simp
  then show "days = D + 719162 - days_thru (year - 1)" and "days < year_len year"
    and "- 365 * (year - 10) \<le> days" and "1970 \<le> year" and "year < 5885489"
    using year q l abc year_len_bounds(1) [of year] by simp_all
qed

text \<open>What \<^verbatim>\<open>rtc_time64_to_tm\<close> returns: a valid date, the right number of days from the epoch, and
  the time of day.\<close>

lemma rtc_time64_to_tm_date:
  assumes "0 \<le> t" "t div 86400 < 2147483648"
  defines "tm \<equiv> rtc_time64_to_tm t"
  shows "0 \<le> tm_mon tm" "tm_mon tm < 12" "1 \<le> tm_mday tm"
    "tm_mday tm \<le> rtc_month_days (nat (tm_mon tm)) (tm_year tm + 1900)"
    "civil_days (tm_year tm + 1900) (nat (tm_mon tm)) (tm_mday tm) = t div 86400"
    "70 \<le> tm_year tm" "tm_year tm < 5883589"
    "tm_yday tm = rtc_ydays (is_leap_year (tm_year tm + 1900)) ! nat (tm_mon tm) + tm_mday tm"
    "tm_hour tm = t mod 86400 div 3600" "tm_min tm = t mod 86400 mod 3600 div 60"
    "tm_sec tm = t mod 86400 mod 3600 mod 60"
proof -
  define D where "D = t div 86400"
  define year where "year = wrap_u32 (1970 + D sdiv 365)"
  define days where "days = s32 (D - wrap_u32 (wrap_u32 (year - 1970) * 365
           + LEAPS_THRU_END_OF (wrap_u32 (year - 1)) - 477))"
  obtain y d where yd: "rtc_year_loop year days = (y, d)" by (cases "rtc_year_loop year days")
  obtain m d' where md: "rtc_month_loop 11 0 d y = (m, d')" by (cases "rtc_month_loop 11 0 d y")
  have D: "0 \<le> D" "D < 2147483648" using assms(1,2) by (simp_all add: D_def)
  note est = rtc_year_estimate [OF D year_def days_def]
  note loop = rtc_year_loop_spec [OF _ _ est(2,3) yd]
  have y: "0 \<le> d" "d < year_len y" "days_thru (y - 1) + d = D + 719162" "10 \<le> y" "y \<le> year"
    using loop est by simp_all
  have m: "m < 12" "0 \<le> d'" "d' < rtc_month_days m y" "rtc_ydays (is_leap_year y) ! m + d' = d"
    using rtc_month_loop_spec [OF _ y(1) _ md] y(2) by (simp_all add: rtc_ydays_ends)
  have "1970 \<le> y"
  proof (rule ccontr)
    assume "\<not> 1970 \<le> y"
    then have "days_thru y \<le> days_thru 1969" using days_thru_mono [of y 1969] by simp
    moreover have "days_thru 1969 = 719162" by (simp add: days_thru_def)
    ultimately show False using y(1-3) D(1) days_thru_step [of y] by linarith
  qed
  define s where "s = t mod 86400"
  have s: "0 \<le> s" "s < 86400" by (simp_all add: s_def)
  have tm: "tm = \<lparr>tm_sec = s mod 3600 mod 60, tm_min = s mod 3600 div 60, tm_hour = s div 3600,
      tm_mday = d' + 1, tm_mon = int m, tm_year = y - 1900,
      tm_wday = s32 (D + 4) smod 7, tm_yday = d + 1, tm_isdst = 0\<rparr>"
    using s y(4,5) est(5) D yd [unfolded days_def] md
    by (simp add: tm_def rtc_time64_to_tm_def time64_split [OF assms(1)] Let_def minus_mult_div_eq_mod
        minus_div_mult_eq_mod flip: D_def s_def year_def)
  show "0 \<le> tm_mon tm" "tm_mon tm < 12" "1 \<le> tm_mday tm"
    "tm_mday tm \<le> rtc_month_days (nat (tm_mon tm)) (tm_year tm + 1900)"
    "civil_days (tm_year tm + 1900) (nat (tm_mon tm)) (tm_mday tm) = t div 86400"
    "70 \<le> tm_year tm" "tm_year tm < 5883589"
    "tm_yday tm = rtc_ydays (is_leap_year (tm_year tm + 1900)) ! nat (tm_mon tm) + tm_mday tm"
    "tm_hour tm = t mod 86400 div 3600" "tm_min tm = t mod 86400 mod 3600 div 60"
    "tm_sec tm = t mod 86400 mod 3600 mod 60"
    using m y \<open>1970 \<le> y\<close> est(5) by (simp_all add: tm s_def civil_days_def flip: D_def)
qed

section \<open>From the date to seconds\<close>

lemma mktime64_days:
  assumes "0 \<le> y" "y < 5885490" "0 \<le> mon" "mon \<le> 12" "1 \<le> d" "d \<le> 31"
  shows "wrap_u32 (y div 4 - y div 100 + y div 400 + wrap_u32 (367 * mon) div 12 + d)
     + wrap_u32 (y * 365) - 719499 = days_thru y + 367 * mon div 12 + d - 719499"
proof -
  define a b c where "a = y div 4" and "b = y div 100" and "c = y div 400"
  have abc: "0 \<le> c" "0 \<le> b" "b \<le> a" "c \<le> a" "a \<le> y" using assms(1) by (simp_all add: a_def b_def c_def)
  define e where "e = 367 * mon div 12"
  have e: "0 \<le> e" "e \<le> 367" using assms(3,4) by (simp_all add: e_def)
  have "wrap_u32 (367 * mon) = 367 * mon" using assms(3,4) by simp
  moreover have "wrap_u32 (a - b + c + e + d) = a - b + c + e + d"
    using abc e assms by (intro wrap_u32_id) simp_all
  moreover have "wrap_u32 (y * 365) = y * 365" using assms by (intro wrap_u32_id) simp_all
  ultimately show ?thesis by (simp add: days_thru_def flip: a_def b_def c_def e_def)
qed

lemma mktime64_civil:
  assumes "1970 \<le> y" "y < 5885490" "m < 12" "1 \<le> d" "d \<le> 31"
  shows "mktime64 y (int m + 1) d h mi s = ((civil_days y m d * 24 + h) * 60 + mi) * 60 + s"
proof (cases "m < 2")
  case True
  then have m: "m = 0 \<or> m = 1" by auto
  then have "wrap_u32 (wrap_u32 (int m + 1 - 2) + 12) = int m + 11" "s32 (wrap_u32 (int m + 1 - 2)) \<le> 0"
    by (auto simp: wrap_u32_def s32_def)
  moreover have "wrap_u32 (y - 1) = y - 1" using assms by simp
  moreover have "civil_days y m d = days_thru (y - 1) + 367 * (int m + 11) div 12 + d - 719499"
    using m by (auto simp: civil_days_def rtc_ydays_def)
  ultimately show ?thesis
    using mktime64_days [of "y - 1" "int m + 11" d] m assms
    by (auto simp only: mktime64_def Let_def if_True prod.case)
next
  case False
  then have m: "m = 2 \<or> m = 3 \<or> m = 4 \<or> m = 5 \<or> m = 6 \<or> m = 7 \<or> m = 8 \<or> m = 9 \<or> m = 10 \<or> m = 11"
    using assms(3) by arith
  have "wrap_u32 (int m + 1 - 2) = int m - 1" "\<not> s32 (int m - 1) \<le> 0" using False assms(3) by simp_all
  moreover have "civil_days y m d = days_thru y + 367 * (int m - 1) div 12 + d - 719499"
    using m days_thru_step [of y] by (auto simp: civil_days_def rtc_ydays_def year_len_def)
  ultimately show ?thesis
    using mktime64_days [of y "int m - 1" d] False assms
    by (simp only: mktime64_def Let_def if_False prod.case)
qed

section \<open>Every day has one date\<close>

definition date_ok :: "int \<Rightarrow> nat \<Rightarrow> int \<Rightarrow> bool" where
  "date_ok y m d \<longleftrightarrow> m < 12 \<and> 1 \<le> d \<and> d \<le> rtc_month_days m y"

lemma date_ok_day_of_year:
  assumes "date_ok y m d"
  shows "0 \<le> rtc_ydays (is_leap_year y) ! m" "rtc_ydays (is_leap_year y) ! m + (d - 1) < year_len y" "d \<le> 31"
proof -
  have m: "m < 12" "d \<le> rtc_month_days m y" using assms by (simp_all add: date_ok_def)
  show "0 \<le> rtc_ydays (is_leap_year y) ! m"
    using rtc_ydays_mono [of 0 m] m(1) by (simp add: rtc_ydays_ends)
  show "rtc_ydays (is_leap_year y) ! m + (d - 1) < year_len y"
    using rtc_ydays_step [OF m(1), of y] rtc_ydays_mono [of "Suc m" 12 "is_leap_year y"] rtc_ydays_ends(2) [of y] m
    by simp
  have "\<forall>m \<in> set [0..<12]. rtc_month_days m y \<le> 31"
    by (simp add: upt_conv_Cons rtc_month_days_def rtc_days_in_month_def)
  then have "rtc_month_days m y \<le> 31" using m(1) by simp
  then show "d \<le> 31" using m(2) by simp
qed

lemma civil_days_year_less:
  assumes "date_ok y m d" "date_ok y' m' d'" "y < y'"
  shows "civil_days y m d < civil_days y' m' d'"
proof -
  have "days_thru y \<le> days_thru (y' - 1)" using days_thru_mono [of y "y' - 1"] assms(3) by simp
  then show ?thesis
    using date_ok_day_of_year [OF assms(1)] date_ok_day_of_year [OF assms(2)] assms(2) days_thru_step [of y]
    by (simp add: civil_days_def date_ok_def)
qed

lemma civil_days_month_less:
  assumes "date_ok y m d" "date_ok y m' d'" "m < m'"
  shows "civil_days y m d < civil_days y m' d'"
proof -
  have "rtc_ydays (is_leap_year y) ! Suc m \<le> rtc_ydays (is_leap_year y) ! m'"
    using assms(2,3) by (intro rtc_ydays_mono) (simp_all add: date_ok_def)
  then show ?thesis using rtc_ydays_step [of m y] assms(1,2) by (simp add: civil_days_def date_ok_def)
qed

lemma civil_days_inj:
  assumes "date_ok y m d" "date_ok y' m' d'" "civil_days y m d = civil_days y' m' d'"
  shows "y = y' \<and> m = m' \<and> d = d'"
proof -
  have y: "y = y'"
    using civil_days_year_less [OF assms(1,2)] civil_days_year_less [OF assms(2,1)] assms(3)
    by (cases y y' rule: linorder_cases) auto
  moreover have "m = m'"
    using civil_days_month_less [of y m d m' d'] civil_days_month_less [of y m' d' m d] assms y
    by (cases m m' rule: linorder_cases) auto
  ultimately show ?thesis using assms(3) by (simp add: civil_days_def)
qed

lemma civil_days_range:
  assumes "date_ok y m d" "1970 \<le> y" "y \<le> 5881579"
  shows "0 \<le> civil_days y m d" "civil_days y m d < 2147483648"
proof -
  have "days_thru 1969 \<le> days_thru (y - 1)" "days_thru y \<le> days_thru 5881579"
    using days_thru_mono [of 1969 "y - 1"] days_thru_mono [of y 5881579] assms(2,3) by simp_all
  moreover have "days_thru 1969 = 719162" "days_thru 5881579 = 2148202617" by (simp_all add: days_thru_def)
  ultimately show "0 \<le> civil_days y m d" "civil_days y m d < 2147483648"
    using date_ok_day_of_year [OF assms(1)] days_thru_step [of y] assms(1)
    by (simp_all add: civil_days_def date_ok_def)
qed

lemma civil_days_bound:
  assumes "date_ok y m d" "y < 2096"
  shows "civil_days y m d \<le> 46020"
proof -
  have "days_thru y \<le> days_thru 2095" using days_thru_mono [of y 2095] assms(2) by simp
  moreover have "days_thru 2095 = 765183" by (simp add: days_thru_def)
  ultimately show ?thesis
    using date_ok_day_of_year(2) [OF assms(1)] days_thru_step [of y] by (simp add: civil_days_def)
qed

text \<open>The fields of a C \<^verbatim>\<open>struct rtc_time\<close> that a conversion reads are C \<^verbatim>\<open>int\<close>s.\<close>

definition tm_ints :: "rtc_time \<Rightarrow> bool" where
  "tm_ints tm \<longleftrightarrow> (\<forall>f \<in> {tm_sec, tm_min, tm_hour, tm_mday, tm_mon, tm_year}.
     - 2147483648 \<le> f tm \<and> f tm < 2147483648)"

lemma wrap_u32_less:
  assumes "- 2147483648 \<le> x" "x < 2147483648" "n \<le> 2147483648"
  shows "wrap_u32 x < n \<longleftrightarrow> 0 \<le> x \<and> x < n"
proof (cases "0 \<le> x")
  case False
  then have "wrap_u32 x = x + 4294967296"
    unfolding wrap_u32_def using assms(1) by (intro int_mod_pos_eq [of _ _ "- 1"]) auto
  then show ?thesis using False assms by simp
qed (use assms in simp)

lemma rtc_valid_tm_iff:
  assumes "tm_ints tm"
  shows "rtc_valid_tm tm = 0 \<longleftrightarrow> 70 \<le> tm_year tm \<and> tm_year tm \<le> 2147481747 \<and> 0 \<le> tm_mon tm \<and>
     date_ok (tm_year tm + 1900) (nat (tm_mon tm)) (tm_mday tm) \<and>
     0 \<le> tm_hour tm \<and> tm_hour tm < 24 \<and> 0 \<le> tm_min tm \<and> tm_min tm < 60 \<and> 0 \<le> tm_sec tm \<and> tm_sec tm < 60"
proof (cases "70 \<le> tm_year tm \<and> tm_year tm \<le> 2147481747")
  case True
  then have y: "wrap_u32 (tm_year tm + 1900) = tm_year tm + 1900" by simp
  note less = assms [unfolded tm_ints_def]
  have "wrap_u32 (tm_mon tm) < 12 \<longleftrightarrow> 0 \<le> tm_mon tm \<and> nat (tm_mon tm) < 12"
    "wrap_u32 (tm_hour tm) < 24 \<longleftrightarrow> 0 \<le> tm_hour tm \<and> tm_hour tm < 24"
    "wrap_u32 (tm_min tm) < 60 \<longleftrightarrow> 0 \<le> tm_min tm \<and> tm_min tm < 60"
    "wrap_u32 (tm_sec tm) < 60 \<longleftrightarrow> 0 \<le> tm_sec tm \<and> tm_sec tm < 60"
    using less by (subst wrap_u32_less; force)+
  with True show ?thesis
    unfolding rtc_valid_tm_def y date_ok_def not_le [symmetric] by auto
next
  case False
  then show ?thesis by (auto simp: rtc_valid_tm_def)
qed

lemma rtc_tm_to_time64_civil:
  assumes "rtc_valid_tm tm = 0" "tm_ints tm" "tm_year tm \<le> 5883589"
  shows "rtc_tm_to_time64 tm =
     ((civil_days (tm_year tm + 1900) (nat (tm_mon tm)) (tm_mday tm) * 24 + tm_hour tm) * 60
        + tm_min tm) * 60 + tm_sec tm"
proof -
  note v = rtc_valid_tm_iff [OF assms(2), THEN iffD1, OF assms(1)]
  have "mktime64 (tm_year tm + 1900) (int (nat (tm_mon tm)) + 1) (tm_mday tm) (tm_hour tm) (tm_min tm) (tm_sec tm) =
     ((civil_days (tm_year tm + 1900) (nat (tm_mon tm)) (tm_mday tm) * 24 + tm_hour tm) * 60
        + tm_min tm) * 60 + tm_sec tm"
    using v assms(3) date_ok_day_of_year(3) [of "tm_year tm + 1900" "nat (tm_mon tm)" "tm_mday tm"]
    by (intro mktime64_civil) (auto simp: date_ok_def)
  moreover have "tm_mon tm < 12" "tm_mday tm \<le> 31"
    using v date_ok_day_of_year(3) [of "tm_year tm + 1900" "nat (tm_mon tm)" "tm_mday tm"]
    by (auto simp: date_ok_def)
  ultimately show ?thesis using v by (simp add: rtc_tm_to_time64_def date_ok_def)
qed

lemma hms_split:
  fixes h m s D :: int
  assumes "0 \<le> h" "h < 24" "0 \<le> m" "m < 60" "0 \<le> s" "s < 60"
  defines "t \<equiv> ((D * 24 + h) * 60 + m) * 60 + s"
  shows "t div 86400 = D" "t mod 86400 div 3600 = h" "t mod 86400 mod 3600 div 60 = m"
    "t mod 86400 mod 3600 mod 60 = s"
proof -
  define a b where "a = 60 * m + s" and "b = 3600 * h + a"
  have a: "0 \<le> a" "a < 3600" and b: "0 \<le> b" "b < 86400" using assms(1-6) by (simp_all add: a_def b_def)
  have "t = 86400 * D + b" by (simp add: t_def a_def b_def)
  then have t: "t div 86400 = D" "t mod 86400 = b"
    using b by (rule int_div_pos_eq int_mod_pos_eq; fail)+
  have "b div 3600 = h" "b mod 3600 = a" using b_def a by (rule int_div_pos_eq int_mod_pos_eq; fail)+
  moreover have "a div 60 = m" "a mod 60 = s"
    using a_def assms(5,6) by (rule int_div_pos_eq int_mod_pos_eq; fail)+
  ultimately show "t div 86400 = D" "t mod 86400 div 3600 = h" "t mod 86400 mod 3600 div 60 = m"
    "t mod 86400 mod 3600 mod 60 = s" by (simp_all only: t)
qed

lemma rtc_time64_to_tm_valid:
  assumes "0 \<le> t" "t div 86400 < 2147483648"
  shows "rtc_valid_tm (rtc_time64_to_tm t) = 0" "tm_ints (rtc_time64_to_tm t)"
proof -
  note date = rtc_time64_to_tm_date [OF assms]
  have mon: "nat (tm_mon (rtc_time64_to_tm t)) < 12" using date(1,2) by simp
  then have ok: "date_ok (tm_year (rtc_time64_to_tm t) + 1900) (nat (tm_mon (rtc_time64_to_tm t)))
      (tm_mday (rtc_time64_to_tm t))" using date(3,4) by (simp add: date_ok_def)
  define h mi sc where "h = t mod 86400 div 3600" and "mi = t mod 86400 mod 3600 div 60"
    and "sc = t mod 86400 mod 3600 mod 60"
  have hms: "0 \<le> h" "h < 24" "0 \<le> mi" "mi < 60" "0 \<le> sc" "sc < 60"
  proof -
    define s where "s = t mod 86400"
    have "0 \<le> s" "s < 86400" "0 \<le> s mod 3600" "s mod 3600 < 3600" by (simp_all add: s_def)
    then show "0 \<le> h" "h < 24" "0 \<le> mi" "mi < 60" "0 \<le> sc" "sc < 60"
      by (simp_all add: h_def mi_def sc_def flip: s_def)
  qed
  note date' = date(9-11) [folded h_def mi_def sc_def]
  show ints: "tm_ints (rtc_time64_to_tm t)"
    using date(1-3,6,7) date_ok_day_of_year(3) [OF ok] hms by (simp add: tm_ints_def date')
  show "rtc_valid_tm (rtc_time64_to_tm t) = 0"
    using date(1,6,7) ok hms by (simp add: rtc_valid_tm_iff [OF ints] date')
qed

text \<open>
  \<^verbatim>\<open>mtk_rtc_set_alarm\<close> postpones an alarm by one second through \<^verbatim>\<open>ktime_t\<close>; the nanosecond count
  bounds the dates for which that is exact.
\<close>

lemma rtc_ktime_postpone:
  assumes "0 \<le> rtc_tm_to_time64 tm" "rtc_tm_to_time64 tm < 9223372035"
  shows "rtc_ktime_to_tm (s64 (rtc_tm_to_ktime tm + NSEC_PER_SEC)) =
     rtc_time64_to_tm (rtc_tm_to_time64 tm + 1)"
proof -
  define t where "t = rtc_tm_to_time64 tm"
  have t: "0 \<le> t" "t < 9223372035" using assms by (simp_all add: t_def)
  then have "s64 (rtc_tm_to_ktime tm + NSEC_PER_SEC) = (t + 1) * NSEC_PER_SEC"
    by (simp add: rtc_tm_to_ktime_def ktime_set_def flip: t_def)
  moreover have "((t + 1) * NSEC_PER_SEC) sdiv NSEC_PER_SEC = t + 1" "((t + 1) * NSEC_PER_SEC) smod NSEC_PER_SEC = 0"
    using t sdiv_pos [of "(t + 1) * NSEC_PER_SEC" NSEC_PER_SEC] smod_pos [of "(t + 1) * NSEC_PER_SEC" NSEC_PER_SEC]
    by simp_all
  moreover have "(t + 1) * NSEC_PER_SEC \<noteq> 0" using t by simp
  ultimately have "rtc_ktime_to_tm (s64 (rtc_tm_to_ktime tm + NSEC_PER_SEC)) = rtc_time64_to_tm (t + 1)"
    by (simp only: rtc_ktime_to_tm_def ns_to_timespec64_def Let_def if_False prod.case simp_thms) simp
  then show ?thesis by (simp add: t_def)
qed

section \<open>Properties\<close>

text \<open>
  C14: the conversion of a time to a calendar date and back is exact: for every non-negative time
  whose day number fits a C int, \<^verbatim>\<open>rtc_time64_to_tm\<close> yields a valid date, and
  \<^verbatim>\<open>rtc_tm_to_time64\<close> of that date is the time again.
\<close>

theorem rtc_time64_roundtrip:
  assumes "0 \<le> t" "t div 86400 < 2147483648"
  shows "rtc_valid_tm (rtc_time64_to_tm t) = 0 \<and> rtc_tm_to_time64 (rtc_time64_to_tm t) = t"
proof -
  note valid = rtc_time64_to_tm_valid [OF assms] and date = rtc_time64_to_tm_date [OF assms]
  have "rtc_tm_to_time64 (rtc_time64_to_tm t) =
      ((t div 86400 * 24 + t mod 86400 div 3600) * 60 + t mod 86400 mod 3600 div 60) * 60
        + t mod 86400 mod 3600 mod 60"
    using rtc_tm_to_time64_civil [OF valid] date(5,7) by (simp add: date(9-11))
  also have "\<dots> = t div 86400 * 86400 + (t mod 86400 div 3600 * 3600 + (t mod 86400 mod 3600 div 60 * 60
        + t mod 86400 mod 3600 mod 60))" by simp
  also have "\<dots> = t" by (simp only: div_mult_mod_eq)
  finally show ?thesis using valid(1) by simp
qed

theorem rtc_time64_roundtrip_witness:
  "rtc_valid_tm (rtc_time64_to_tm 1709210096) = 0 \<and> rtc_tm_to_time64 (rtc_time64_to_tm 1709210096) = 1709210096"
  using rtc_time64_roundtrip [of 1709210096] by simp

text \<open>
  C22: the conversion of a date to a time and back is exact: for every valid \<^verbatim>\<open>struct rtc_time\<close> up
  to the year 5881579, whose day number still fits a C int, the six fields come back unchanged.
\<close>

theorem rtc_tm_roundtrip:
  assumes "rtc_valid_tm tm = 0" "tm_ints tm" "tm_year tm \<le> 5879679"
  defines "tm' \<equiv> rtc_time64_to_tm (rtc_tm_to_time64 tm)"
  shows "tm_sec tm' = tm_sec tm \<and> tm_min tm' = tm_min tm \<and> tm_hour tm' = tm_hour tm \<and>
     tm_mday tm' = tm_mday tm \<and> tm_mon tm' = tm_mon tm \<and> tm_year tm' = tm_year tm"
proof -
  note v = rtc_valid_tm_iff [OF assms(2), THEN iffD1, OF assms(1)]
  define D where "D = civil_days (tm_year tm + 1900) (nat (tm_mon tm)) (tm_mday tm)"
  define t where "t = ((D * 24 + tm_hour tm) * 60 + tm_min tm) * 60 + tm_sec tm"
  have t: "rtc_tm_to_time64 tm = t"
    using rtc_tm_to_time64_civil [OF assms(1,2)] assms(3) by (simp add: t_def D_def)
  have hms: "t div 86400 = D" "t mod 86400 div 3600 = tm_hour tm" "t mod 86400 mod 3600 div 60 = tm_min tm"
    "t mod 86400 mod 3600 mod 60 = tm_sec tm"
    unfolding t_def using v by (simp_all only: hms_split)
  have ok: "date_ok (tm_year tm + 1900) (nat (tm_mon tm)) (tm_mday tm)" using v by simp
  have D: "0 \<le> D" "D < 2147483648" using civil_days_range [OF ok] v assms(3) by (simp_all add: D_def)
  have t0: "0 \<le> t" using D(1) v by (simp add: t_def)
  have tD: "t div 86400 < 2147483648" using hms(1) D(2) by simp
  note date = rtc_time64_to_tm_date [OF t0 tD, folded tm'_def [unfolded t]]
  have "date_ok (tm_year tm' + 1900) (nat (tm_mon tm')) (tm_mday tm')"
    using date(1-4) by (simp add: date_ok_def)
  from civil_days_inj [OF this ok] have "tm_year tm' = tm_year tm" "nat (tm_mon tm') = nat (tm_mon tm)"
    "tm_mday tm' = tm_mday tm" using date(5) hms(1) by (simp_all add: D_def)
  moreover have "tm_mon tm' = tm_mon tm" using calculation(2) date(1) v by (simp add: eq_nat_nat_iff)
  ultimately show ?thesis by (simp only: date(9-11) hms(2-4) simp_thms)
qed

theorem rtc_tm_roundtrip_witness:
  "let tm = \<lparr>tm_sec = 59, tm_min = 59, tm_hour = 23, tm_mday = 29, tm_mon = 1, tm_year = 124,
        tm_wday = 0, tm_yday = 0, tm_isdst = 0\<rparr>;
       tm' = rtc_time64_to_tm (rtc_tm_to_time64 tm)
   in tm_sec tm' = 59 \<and> tm_min tm' = 59 \<and> tm_hour tm' = 23 \<and> tm_mday tm' = 29 \<and> tm_mon tm' = 1 \<and>
      tm_year tm' = 124"
  using rtc_tm_roundtrip [of "\<lparr>tm_sec = 59, tm_min = 59, tm_hour = 23, tm_mday = 29, tm_mon = 1,
      tm_year = 124, tm_wday = 0, tm_yday = 0, tm_isdst = 0\<rparr>"]
  by (simp add: Let_def rtc_valid_tm_def tm_ints_def rtc_month_days_def rtc_days_in_month_def is_leap_year_def)

end
