(* ===== verification/Rtc_Mt6397.thy ===== *)
theory Rtc_Mt6397
  imports Rtc_Lib
begin

text \<open>
  The RTC driver of the MediaTek PMICs (\<^verbatim>\<open>drivers/rtc/rtc-mt6397.c\<close>) with the \<^verbatim>\<open>regmap\<close> calls it
  makes (\<^verbatim>\<open>drivers/base/regmap/regmap.c\<close>, for the bus-less 16-bit map with stride 2 that
  \<^verbatim>\<open>mtk-pmic-wrap.c\<close> registers).

  The record \<open>mt6397_rtc\<close> is \<^verbatim>\<open>struct mt6397_rtc\<close> together with the chip behind it: the register
  file, the outcome of the coming bus accesses (\<open>bus\<close>: 0 is success, \<open>n\<close> the error \<open>-n\<close>; success when
  the list is used up), the clock ticks that happen before the coming accesses to the time
  registers (\<open>ticks\<close>), what one tick does to the registers (\<open>hw_tick\<close>), how many polls see the
  busy bit after a write trigger (\<open>busy_after\<close>) and how many polls fit in the timeout
  (\<open>patience\<close>).  So every error branch of the driver can be reached.

  \<open>regs\<close> are the registers the bus sees and \<open>core\<close> those of the clock domain that keeps running without the
  tablet: as the comments of the driver say, what is written reaches the hardware with the write trigger, and only
  this survives a loss of power.

  \<open>locked\<close> is the driver's mutex.  Whoever takes a mutex that is held waits for it; as each operation here runs
  to its end, it would wait for ever, and \<open>stuck\<close> records this.  The theorems show that it never happens.

  The lemmas show that set and read of time and alarm are inverse and that what is set survives a loss of power,
  that a time that is read is one the clock showed, that no sequence of operations of the driver touches the register
  bits the sign-of-life driver keeps its reasons in, and that every path releases the mutex and none waits for itself.
\<close>

section \<open>The chip and the register map\<close>

record mt6397_rtc =
  addr_base :: u32
  wrtgr :: u32
  locked :: bool
  stuck :: bool
  irq_updates :: nat
  regs :: "u32 \<Rightarrow> u16"
  core :: "u32 \<Rightarrow> u16"
  bus :: "nat list"
  ticks :: "bool list"
  hw_tick :: "(u32 \<Rightarrow> u16) \<Rightarrow> u32 \<Rightarrow> u16"
  cbusy :: nat
  busy_after :: nat
  patience :: nat

abbreviation (input) RTC_BBPU :: u32 where "RTC_BBPU \<equiv> 0x0000"
abbreviation (input) RTC_BBPU_CBUSY :: u16 where "RTC_BBPU_CBUSY \<equiv> 0x40"
abbreviation (input) RTC_IRQ_STA :: u32 where "RTC_IRQ_STA \<equiv> 0x0002"
abbreviation (input) RTC_IRQ_STA_AL :: u16 where "RTC_IRQ_STA_AL \<equiv> 1"
abbreviation (input) RTC_IRQ_EN :: u32 where "RTC_IRQ_EN \<equiv> 0x0004"
abbreviation (input) RTC_IRQ_EN_AL :: u16 where "RTC_IRQ_EN_AL \<equiv> 1"
abbreviation (input) RTC_IRQ_EN_ONESHOT_AL :: u16 where "RTC_IRQ_EN_ONESHOT_AL \<equiv> 5"
abbreviation (input) RTC_AL_MASK :: u32 where "RTC_AL_MASK \<equiv> 0x0008"
abbreviation (input) RTC_AL_MASK_DOW :: u16 where "RTC_AL_MASK_DOW \<equiv> 0x10"
abbreviation (input) RTC_TC_SEC :: u32 where "RTC_TC_SEC \<equiv> 0x000a"
abbreviation (input) RTC_AL_SEC :: u32 where "RTC_AL_SEC \<equiv> 0x0018"
abbreviation (input) RTC_AL_HOU :: u32 where "RTC_AL_HOU \<equiv> 0x001c"
abbreviation (input) RTC_AL_DOW :: u32 where "RTC_AL_DOW \<equiv> 0x0020"
abbreviation (input) RTC_AL_MTH :: u32 where "RTC_AL_MTH \<equiv> 0x0022"
abbreviation (input) RTC_PDN1 :: u32 where "RTC_PDN1 \<equiv> 0x002c"
abbreviation (input) RTC_PDN1_PWRON_TIME :: u16 where "RTC_PDN1_PWRON_TIME \<equiv> 0x80"
abbreviation (input) RTC_PDN2 :: u32 where "RTC_PDN2 \<equiv> 0x002e"
abbreviation (input) RTC_PDN2_PWRON_ALARM :: u16 where "RTC_PDN2_PWRON_ALARM \<equiv> 0x10"
abbreviation (input) RTC_SPAR0 :: u32 where "RTC_SPAR0 \<equiv> 0x0030"
abbreviation (input) RTC_SPAR0_LPRST :: u16 where "RTC_SPAR0_LPRST \<equiv> 0x200"
abbreviation (input) RTC_SPAR1 :: u32 where "RTC_SPAR1 \<equiv> 0x0032"
abbreviation (input) RTC_WRTGR_MT6358 :: u32 where "RTC_WRTGR_MT6358 \<equiv> 0x003a"
abbreviation (input) RTC_MIN_YEAR_OFFSET :: int where "RTC_MIN_YEAR_OFFSET \<equiv> 68"

text \<open>The masks of the time registers, by offset: seconds, minutes, hours, day, weekday, month, year.\<close>

definition rtc_masks :: "u16 list" where
  "rtc_masks = [0x3f, 0x3f, 0x1f, 0x1f, 0x07, 0x0f, 0x7f]"

definition bus_access :: "mt6397_rtc \<Rightarrow> int \<times> mt6397_rtc" where
  "bus_access s = (case bus s of [] \<Rightarrow> (0, s) | c # cs \<Rightarrow> (- int c, s\<lparr>bus := cs\<rparr>))"

definition is_tc_reg :: "mt6397_rtc \<Rightarrow> u32 \<Rightarrow> bool" where
  "is_tc_reg s a \<longleftrightarrow> a - addr_base s \<in> {0x0a, 0x0c, 0x0e, 0x10, 0x12, 0x14, 0x16}"

definition clock_tick :: "u32 \<Rightarrow> mt6397_rtc \<Rightarrow> mt6397_rtc" where
  "clock_tick a s =
     (if is_tc_reg s a
      then case ticks s of [] \<Rightarrow> s
           | b # bs \<Rightarrow> s\<lparr>ticks := bs, regs := (if b then hw_tick s (regs s) else regs s),
                             core := (if b then hw_tick s (core s) else core s)\<rparr>
      else s)"

definition regmap_read :: "u32 \<Rightarrow> mt6397_rtc \<Rightarrow> (int + u16) \<times> mt6397_rtc" where
  "regmap_read a s =
     (let (ret, s) = bus_access s
      in if ret \<noteq> 0 then (Inl ret, s)
         else let s = clock_tick a s
              in if a = addr_base s + RTC_BBPU
                 then if cbusy s > 0 then (Inr (regs s a OR RTC_BBPU_CBUSY), s\<lparr>cbusy := cbusy s - 1\<rparr>)
                      else (Inr (regs s a AND NOT RTC_BBPU_CBUSY), s)
                 else (Inr (regs s a), s))"

definition regmap_write :: "u32 \<Rightarrow> u16 \<Rightarrow> mt6397_rtc \<Rightarrow> int \<times> mt6397_rtc" where
  "regmap_write a v s =
     (let (ret, s) = bus_access s
      in if ret \<noteq> 0 then (ret, s)
         else if a = addr_base s + wrtgr s
         then (0, s\<lparr>regs := (regs s)(a := v), core := (regs s)(a := v), cbusy := busy_after s\<rparr>)
         else (0, s\<lparr>regs := (regs s)(a := v)\<rparr>))"

definition regmap_update_bits :: "u32 \<Rightarrow> u16 \<Rightarrow> u16 \<Rightarrow> mt6397_rtc \<Rightarrow> int \<times> mt6397_rtc" where
  "regmap_update_bits a msk val s =
     (case regmap_read a s of
        (Inl ret, s) \<Rightarrow> (ret, s)
      | (Inr orig, s) \<Rightarrow>
          let tmp = (orig AND NOT msk) OR (val AND msk)
          in if tmp \<noteq> orig then regmap_write a tmp s else (0, s))"

fun regmap_bulk_read :: "u32 \<Rightarrow> nat \<Rightarrow> mt6397_rtc \<Rightarrow> (int + u16 list) \<times> mt6397_rtc" where
  "regmap_bulk_read a 0 s = (Inr [], s)"
| "regmap_bulk_read a (Suc n) s =
     (case regmap_read a s of
        (Inl ret, s) \<Rightarrow> (Inl ret, s)
      | (Inr v, s) \<Rightarrow>
          (case regmap_bulk_read (a + 2) n s of
             (Inl ret, s) \<Rightarrow> (Inl ret, s)
           | (Inr vs, s) \<Rightarrow> (Inr (v # vs), s)))"

fun regmap_bulk_write :: "u32 \<Rightarrow> u16 list \<Rightarrow> mt6397_rtc \<Rightarrow> int \<times> mt6397_rtc" where
  "regmap_bulk_write a [] s = (0, s)"
| "regmap_bulk_write a (v # vs) s =
     (let (ret, s) = regmap_write a v s
      in if ret \<noteq> 0 then (ret, s) else regmap_bulk_write (a + 2) vs s)"

text \<open>
  The polling loops of the two write triggers.  \<^verbatim>\<open>regmap_read_poll_timeout\<close> reads once more
  after the timeout, the other loop does not.
\<close>

fun poll_cbusy :: "nat \<Rightarrow> mt6397_rtc \<Rightarrow> int \<times> mt6397_rtc" where
  "poll_cbusy 0 s =
     (case regmap_read (addr_base s + RTC_BBPU) s of
        (Inl ret, s) \<Rightarrow> (ret, s)
      | (Inr data, s) \<Rightarrow>
          if data AND RTC_BBPU_CBUSY = 0 then (0, s)
          else (case regmap_read (addr_base s + RTC_BBPU) s of
                  (Inl ret, s) \<Rightarrow> (ret, s)
                | (Inr data, s) \<Rightarrow> (if data AND RTC_BBPU_CBUSY = 0 then 0 else - ETIMEDOUT, s)))"
| "poll_cbusy (Suc n) s =
     (case regmap_read (addr_base s + RTC_BBPU) s of
        (Inl ret, s) \<Rightarrow> (ret, s)
      | (Inr data, s) \<Rightarrow> if data AND RTC_BBPU_CBUSY = 0 then (0, s) else poll_cbusy n s)"

fun poll_cbusy_nonsleep :: "nat \<Rightarrow> mt6397_rtc \<Rightarrow> int \<times> mt6397_rtc" where
  "poll_cbusy_nonsleep n s =
     (case regmap_read (addr_base s + RTC_BBPU) s of
        (Inl ret, s) \<Rightarrow> (ret, s)
      | (Inr data, s) \<Rightarrow>
          if data AND RTC_BBPU_CBUSY = 0 then (0, s)
          else case n of 0 \<Rightarrow> (- ETIMEDOUT, s) | Suc m \<Rightarrow> poll_cbusy_nonsleep m s)"

declare poll_cbusy_nonsleep.simps [simp del]

section \<open>The driver\<close>

definition mtk_rtc_write_trigger :: "mt6397_rtc \<Rightarrow> int \<times> mt6397_rtc" where
  "mtk_rtc_write_trigger rtc =
     (let (ret, rtc) = regmap_write (addr_base rtc + wrtgr rtc) 1 rtc
      in if ret < 0 then (ret, rtc) else poll_cbusy (patience rtc) rtc)"

definition mtk_rtc_write_trigger_nonsleep :: "mt6397_rtc \<Rightarrow> int \<times> mt6397_rtc" where
  "mtk_rtc_write_trigger_nonsleep rtc =
     (let (ret, rtc) = regmap_write (addr_base rtc + wrtgr rtc) 1 rtc
      in if ret < 0 then (ret, rtc) else poll_cbusy_nonsleep (patience rtc) rtc)"

definition mutex_lock :: "mt6397_rtc \<Rightarrow> mt6397_rtc" where
  "mutex_lock rtc = (if locked rtc then rtc\<lparr>stuck := True\<rparr> else rtc\<lparr>locked := True\<rparr>)"

definition mutex_unlock :: "mt6397_rtc \<Rightarrow> mt6397_rtc" where
  "mutex_unlock rtc = rtc\<lparr>locked := False\<rparr>"

text \<open>The spare fields (\<^verbatim>\<open>mtk_rtc_spare_reg_fields\<close>): register, lowest and highest bit.\<close>

definition mtk_rtc_spare_reg_fields :: "(u32 \<times> nat \<times> nat) list" where
  "mtk_rtc_spare_reg_fields = [(RTC_AL_HOU, 8, 15), (RTC_AL_MTH, 8, 15), (RTC_SPAR0, 0, 7), (RTC_SPAR0, 8, 8)]"

definition field_mask :: "nat \<Rightarrow> nat \<Rightarrow> u16" where
  "field_mask lsb msb = push_bit lsb (mask (msb - lsb + 1))"

definition regmap_field_read :: "u32 \<times> nat \<times> nat \<Rightarrow> mt6397_rtc \<Rightarrow> (int + u16) \<times> mt6397_rtc" where
  "regmap_field_read f s =
     (case f of (reg, lsb, msb) \<Rightarrow>
        (case regmap_read (addr_base s + reg) s of
           (Inl ret, s) \<Rightarrow> (Inl ret, s)
         | (Inr v, s) \<Rightarrow> (Inr (drop_bit lsb (v AND field_mask lsb msb)), s)))"

definition regmap_field_write :: "u32 \<times> nat \<times> nat \<Rightarrow> u16 \<Rightarrow> mt6397_rtc \<Rightarrow> int \<times> mt6397_rtc" where
  "regmap_field_write f v s =
     (case f of (reg, lsb, msb) \<Rightarrow>
        regmap_update_bits (addr_base s + reg) (field_mask lsb msb) (push_bit lsb v) s)"

text \<open>
  The two NVMEM callbacks.  The result \<^term>\<open>None\<close> is an index outside \<^verbatim>\<open>rtc->spare\<close>, or, when no
  byte is asked for, the return of the uninitialised variable \<^verbatim>\<open>ret\<close>.
\<close>

fun rtc_nvram_read_loop :: "nat \<Rightarrow> nat \<Rightarrow> mt6397_rtc \<Rightarrow> (int \<times> u8 list \<times> mt6397_rtc) option" where
  "rtc_nvram_read_loop offset 0 rtc = Some (0, [], rtc)"
| "rtc_nvram_read_loop offset (Suc bytes) rtc =
     (if offset \<ge> length mtk_rtc_spare_reg_fields then None
      else case regmap_field_read (mtk_rtc_spare_reg_fields ! offset) rtc of
          (Inl ret, rtc) \<Rightarrow> Some (ret, [], rtc)
        | (Inr ival, rtc) \<Rightarrow>
            (case rtc_nvram_read_loop (Suc offset) bytes rtc of
               None \<Rightarrow> None
             | Some (ret, vs, rtc) \<Rightarrow> Some (ret, ucast ival # vs, rtc)))"

definition rtc_nvram_read :: "nat \<Rightarrow> nat \<Rightarrow> mt6397_rtc \<Rightarrow> (int \<times> u8 list \<times> mt6397_rtc) option" where
  "rtc_nvram_read offset bytes rtc =
     (if bytes = 0 then None
      else case rtc_nvram_read_loop offset bytes (mutex_lock rtc) of
          None \<Rightarrow> None
        | Some (ret, vs, rtc) \<Rightarrow> Some (ret, vs, mutex_unlock rtc))"

fun rtc_nvram_write_loop :: "nat \<Rightarrow> u8 list \<Rightarrow> mt6397_rtc \<Rightarrow> (int \<times> mt6397_rtc) option" where
  "rtc_nvram_write_loop offset [] rtc = Some (0, rtc)"
| "rtc_nvram_write_loop offset (v # vs) rtc =
     (if offset \<ge> length mtk_rtc_spare_reg_fields then None
      else let (ret, rtc) = regmap_field_write (mtk_rtc_spare_reg_fields ! offset) (ucast v) rtc
           in if ret \<noteq> 0 then Some (ret, rtc) else rtc_nvram_write_loop (Suc offset) vs rtc)"

definition rtc_nvram_write :: "nat \<Rightarrow> u8 list \<Rightarrow> mt6397_rtc \<Rightarrow> (int \<times> mt6397_rtc) option" where
  "rtc_nvram_write offset vs rtc =
     (if vs = [] then None
      else case rtc_nvram_write_loop offset vs (mutex_lock rtc) of
          None \<Rightarrow> None
        | Some (ret, rtc) \<Rightarrow>
            if ret \<noteq> 0 then Some (ret, mutex_unlock rtc)
            else Some (ret, mutex_unlock (snd (mtk_rtc_write_trigger rtc))))"

text \<open>The result of the interrupt handler: is it \<^verbatim>\<open>IRQ_HANDLED\<close>.\<close>

definition mtk_rtc_irq_handler_thread :: "mt6397_rtc \<Rightarrow> bool \<times> mt6397_rtc" where
  "mtk_rtc_irq_handler_thread rtc =
     (case regmap_read (addr_base rtc + RTC_IRQ_STA) rtc of
        (Inl ret, rtc) \<Rightarrow> (False, rtc)
      | (Inr irqsta, rtc) \<Rightarrow>
          if irqsta AND RTC_IRQ_STA_AL \<noteq> 0 then
            let rtc = rtc\<lparr>irq_updates := irq_updates rtc + 1\<rparr>;
                irqen = irqsta AND NOT RTC_IRQ_EN_AL;
                (ret, rtc) = regmap_write (addr_base rtc + RTC_IRQ_EN) irqen (mutex_lock rtc);
                rtc = (if ret = 0 then snd (mtk_rtc_write_trigger rtc) else rtc)
            in (True, mutex_unlock rtc)
          else (False, rtc))"

text \<open>
  The exported accessors go through \<^verbatim>\<open>mt6397_rtc_proxy\<close>, \<^term>\<open>None\<close> before the driver has probed.
  \<open>mtk_rtc_mark_sw_lprst\<close> does not check it: the outer \<^term>\<open>None\<close> is its NULL access.
\<close>

definition mtk_rtc_mark_sw_lprst :: "mt6397_rtc option \<Rightarrow> (int \<times> mt6397_rtc) option" where
  "mtk_rtc_mark_sw_lprst proxy =
     (case proxy of None \<Rightarrow> None
      | Some rtc \<Rightarrow>
          (case regmap_read (addr_base rtc + RTC_SPAR0) (mutex_lock rtc) of
             (Inl ret, rtc) \<Rightarrow> Some (ret, mutex_unlock rtc)
           | (Inr data, rtc) \<Rightarrow>
               let (ret, rtc) = regmap_write (addr_base rtc + RTC_SPAR0) (data OR RTC_SPAR0_LPRST) rtc
               in if ret < 0 then Some (ret, mutex_unlock rtc)
                  else let (ret, rtc) = mtk_rtc_write_trigger rtc in Some (ret, mutex_unlock rtc)))"

definition mtk_rtc_write :: "u16 \<Rightarrow> u16 \<Rightarrow> mt6397_rtc option \<Rightarrow> int \<times> mt6397_rtc option" where
  "mtk_rtc_write addr data proxy =
     (case proxy of None \<Rightarrow> (- 1, None)
      | Some rtc \<Rightarrow>
          let (ret, rtc) = regmap_write (addr_base rtc + ucast addr) data rtc in (ret, Some rtc))"

definition mtk_rtc_read :: "u16 \<Rightarrow> mt6397_rtc option \<Rightarrow> u16 \<times> mt6397_rtc option" where
  "mtk_rtc_read addr proxy =
     (case proxy of None \<Rightarrow> (0, None)
      | Some rtc \<Rightarrow>
          (case regmap_read (addr_base rtc + ucast addr) rtc of
             (Inl ret, rtc) \<Rightarrow> (0, Some rtc)
           | (Inr data, rtc) \<Rightarrow> (data, Some rtc)))"

definition mtk_rtc_write_trigger_out :: "mt6397_rtc option \<Rightarrow> mt6397_rtc option" where
  "mtk_rtc_write_trigger_out proxy = map_option (\<lambda>rtc. snd (mtk_rtc_write_trigger_nonsleep rtc)) proxy"

definition mtk_rtc_acquire_lock :: "mt6397_rtc option \<Rightarrow> mt6397_rtc option" where
  "mtk_rtc_acquire_lock proxy = map_option mutex_lock proxy"

definition mtk_rtc_release_lock :: "mt6397_rtc option \<Rightarrow> mt6397_rtc option" where
  "mtk_rtc_release_lock proxy = map_option mutex_unlock proxy"

text \<open>The fields a read of the time registers \<open>data\<close> sets.\<close>

definition tm_of_regs :: "u16 list \<Rightarrow> rtc_time \<Rightarrow> rtc_time" where
  "tm_of_regs data tm =
     tm\<lparr>tm_sec := uint (data ! 0 AND rtc_masks ! 0), tm_min := uint (data ! 1 AND rtc_masks ! 1),
        tm_hour := uint (data ! 2 AND rtc_masks ! 2), tm_mday := uint (data ! 3 AND rtc_masks ! 3),
        tm_mon := uint (data ! 5 AND rtc_masks ! 5), tm_year := uint (data ! 6 AND rtc_masks ! 6)\<rparr>"

text \<open>The first component of the result is the error, or the seconds read a second time.\<close>

definition mtk_rtc_read_time_once ::
    "mt6397_rtc \<Rightarrow> rtc_time \<Rightarrow> (int + int) \<times> rtc_time \<times> mt6397_rtc" where
  "mtk_rtc_read_time_once rtc tm =
     (case regmap_bulk_read (addr_base rtc + RTC_TC_SEC) 7 (mutex_lock rtc) of
        (Inl ret, rtc) \<Rightarrow> (Inl ret, tm, mutex_unlock rtc)
      | (Inr data, rtc) \<Rightarrow>
          let tm = tm_of_regs data tm
          in (case regmap_read (addr_base rtc + RTC_TC_SEC) rtc of
                (Inl ret, rtc) \<Rightarrow> (Inl ret, tm, mutex_unlock rtc)
              | (Inr sec, rtc) \<Rightarrow> (Inr (uint (sec AND rtc_masks ! 0)), tm, mutex_unlock rtc)))"

text \<open>The table \<^verbatim>\<open>rtc_pwron_reg\<close>: register, mask and shift of each part of the power-on time.\<close>

definition rtc_pwron_reg :: "(u32 \<times> u16 \<times> nat) list" where
  "rtc_pwron_reg = [(RTC_SPAR0, 0x003f, 0), (RTC_SPAR1, 0x003f, 0), (RTC_SPAR1, 0x07c0, 6),
     (RTC_SPAR1, 0xf800, 11), (0, 0, 0), (RTC_PDN2, 0x000f, 0), (RTC_PDN2, 0x7f00, 8)]"

definition pwron_data :: "nat \<Rightarrow> int \<Rightarrow> u16" where
  "pwron_data i x = (case rtc_pwron_reg ! i of (reg, msk, sh) \<Rightarrow> push_bit sh (word_of_int x) AND msk)"

fun mtk_rtc_set_pwron_loop :: "nat list \<Rightarrow> u16 list \<Rightarrow> mt6397_rtc \<Rightarrow> mt6397_rtc" where
  "mtk_rtc_set_pwron_loop [] data rtc = rtc"
| "mtk_rtc_set_pwron_loop (i # is) data rtc =
     (if i = 4 then mtk_rtc_set_pwron_loop is data rtc
      else case rtc_pwron_reg ! i of (reg, msk, sh) \<Rightarrow>
        let (ret, rtc) = regmap_update_bits (addr_base rtc + reg) msk (data ! i) rtc
        in if ret < 0 then rtc
           else mtk_rtc_set_pwron_loop is data (snd (mtk_rtc_write_trigger rtc)))"

definition mtk_rtc_set_pwron_time :: "mt6397_rtc \<Rightarrow> rtc_time \<Rightarrow> mt6397_rtc" where
  "mtk_rtc_set_pwron_time rtc tm =
     mtk_rtc_set_pwron_loop [0..<7]
       [pwron_data 0 (tm_sec tm), pwron_data 1 (tm_min tm), pwron_data 2 (tm_hour tm),
        pwron_data 3 (tm_mday tm), 0, pwron_data 5 (tm_mon tm), pwron_data 6 (tm_year tm)] rtc"

definition mtk_rtc_save_pwron_time :: "mt6397_rtc \<Rightarrow> bool \<Rightarrow> rtc_time \<Rightarrow> mt6397_rtc" where
  "mtk_rtc_save_pwron_time rtc enable tm =
     (let rtc = mtk_rtc_set_pwron_time rtc tm;
          pdn1 = (if enable then RTC_PDN1_PWRON_TIME else 0);
          (ret, rtc) = regmap_update_bits (addr_base rtc + RTC_PDN1) RTC_PDN1_PWRON_TIME pdn1 rtc
      in if ret < 0 then rtc else snd (mtk_rtc_write_trigger rtc))"

text \<open>
  The read loop repeats while a rollover of the seconds is seen; \<open>fuel\<close> bounds the turns and
  \<^term>\<open>None\<close> is running out of it.
\<close>

fun mtk_rtc_read_time_loop ::
    "nat \<Rightarrow> mt6397_rtc \<Rightarrow> rtc_time \<Rightarrow> (int \<times> rtc_time \<times> mt6397_rtc) option" where
  "mtk_rtc_read_time_loop 0 rtc tm = None"
| "mtk_rtc_read_time_loop (Suc fuel) rtc tm =
     (case mtk_rtc_read_time_once rtc tm of
        (Inl ret, tm, rtc) \<Rightarrow> Some (ret, tm, rtc)
      | (Inr sec, tm, rtc) \<Rightarrow>
          if sec < tm_sec tm then mtk_rtc_read_time_loop fuel rtc tm else Some (0, tm, rtc))"

definition mtk_rtc_read_time ::
    "nat \<Rightarrow> mt6397_rtc \<Rightarrow> rtc_time \<Rightarrow> (int \<times> rtc_time \<times> mt6397_rtc) option" where
  "mtk_rtc_read_time fuel rtc tm =
     (case mtk_rtc_read_time_loop fuel rtc tm of
        None \<Rightarrow> None
      | Some (ret, tm, rtc) \<Rightarrow>
          if ret < 0 then Some (ret, tm, rtc)
          else
            let tm = tm\<lparr>tm_year := s32 (tm_year tm + RTC_MIN_YEAR_OFFSET), tm_mon := s32 (tm_mon tm - 1)\<rparr>;
                time = rtc_tm_to_time64 tm;
                days = s32 (time sdiv 86400)
            in Some (ret, tm\<lparr>tm_wday := s32 (days + 4) smod 7\<rparr>, rtc))"

text \<open>\<open>dow\<close> is the uninitialised element \<^verbatim>\<open>data[RTC_OFFSET_DOW]\<close>.\<close>

definition mtk_rtc_set_time :: "u16 \<Rightarrow> mt6397_rtc \<Rightarrow> rtc_time \<Rightarrow> int \<times> rtc_time \<times> mt6397_rtc" where
  "mtk_rtc_set_time dow rtc tm =
     (let tm = tm\<lparr>tm_year := s32 (tm_year tm - RTC_MIN_YEAR_OFFSET), tm_mon := s32 (tm_mon tm + 1)\<rparr>;
          data = [word_of_int (tm_sec tm), word_of_int (tm_min tm), word_of_int (tm_hour tm),
                  word_of_int (tm_mday tm), dow, word_of_int (tm_mon tm), word_of_int (tm_year tm)];
          (ret, rtc) = regmap_bulk_write (addr_base rtc + RTC_TC_SEC) data (mutex_lock rtc)
      in if ret < 0 then (ret, tm, mutex_unlock rtc)
         else let (ret, rtc) = mtk_rtc_write_trigger rtc in (ret, tm, mutex_unlock rtc))"

record rtc_wkalrm =
  alm_enabled :: u8
  alm_pending :: u8
  alm_time :: rtc_time

definition mtk_rtc_read_alarm :: "mt6397_rtc \<Rightarrow> rtc_wkalrm \<Rightarrow> int \<times> rtc_wkalrm \<times> mt6397_rtc" where
  "mtk_rtc_read_alarm rtc alm =
     (case regmap_read (addr_base rtc + RTC_IRQ_EN) (mutex_lock rtc) of
        (Inl ret, rtc) \<Rightarrow> (ret, alm, mutex_unlock rtc)
      | (Inr irqen, rtc) \<Rightarrow>
          (case regmap_read (addr_base rtc + RTC_PDN2) rtc of
             (Inl ret, rtc) \<Rightarrow> (ret, alm, mutex_unlock rtc)
           | (Inr pdn2, rtc) \<Rightarrow>
               (case regmap_bulk_read (addr_base rtc + RTC_AL_SEC) 7 rtc of
                  (Inl ret, rtc) \<Rightarrow> (ret, alm, mutex_unlock rtc)
                | (Inr data, rtc) \<Rightarrow>
                    let tm = tm_of_regs data (alm_time alm);
                        tm = tm\<lparr>tm_year := s32 (tm_year tm + RTC_MIN_YEAR_OFFSET),
                                tm_mon := s32 (tm_mon tm - 1)\<rparr>
                    in (0, \<lparr>alm_enabled = (if irqen AND RTC_IRQ_EN_AL \<noteq> 0 then 1 else 0),
                            alm_pending = (if pdn2 AND RTC_PDN2_PWRON_ALARM \<noteq> 0 then 1 else 0),
                            alm_time = tm\<rparr>, mutex_unlock rtc))))"

text \<open>The alarm registers after merging the new time into what was read.\<close>

definition al_merge :: "u16 list \<Rightarrow> nat \<Rightarrow> int \<Rightarrow> u16" where
  "al_merge data i x = (data ! i AND NOT (rtc_masks ! i)) OR (word_of_int x AND rtc_masks ! i)"

definition mtk_rtc_program_alarm :: "mt6397_rtc \<Rightarrow> bool \<Rightarrow> u16 list \<Rightarrow> int \<times> mt6397_rtc" where
  "mtk_rtc_program_alarm rtc enabled data =
     (if enabled then
        let (ret, rtc) = regmap_bulk_write (addr_base rtc + RTC_AL_SEC) data rtc
        in if ret < 0 then (ret, rtc)
           else let (ret, rtc) = regmap_write (addr_base rtc + RTC_AL_MASK) RTC_AL_MASK_DOW rtc
                in if ret < 0 then (ret, rtc)
                   else let (ret, rtc) = regmap_update_bits (addr_base rtc + RTC_IRQ_EN)
                                           RTC_IRQ_EN_ONESHOT_AL RTC_IRQ_EN_ONESHOT_AL rtc
                        in if ret < 0 then (ret, rtc) else mtk_rtc_write_trigger rtc
      else
        let (ret, rtc) = regmap_update_bits (addr_base rtc + RTC_IRQ_EN) RTC_IRQ_EN_ONESHOT_AL 0 rtc
        in if ret < 0 then (ret, rtc) else mtk_rtc_write_trigger rtc)"

definition mtk_rtc_set_alarm :: "mt6397_rtc \<Rightarrow> rtc_wkalrm \<Rightarrow> int \<times> rtc_wkalrm \<times> mt6397_rtc" where
  "mtk_rtc_set_alarm rtc alm =
     (let tm = alm_time alm;
          tm = (if alm_enabled alm = 1 then rtc_ktime_to_tm (s64 (rtc_tm_to_ktime tm + NSEC_PER_SEC)) else tm);
          tm = tm\<lparr>tm_year := s32 (tm_year tm - RTC_MIN_YEAR_OFFSET), tm_mon := s32 (tm_mon tm + 1)\<rparr>;
          alm = alm\<lparr>alm_time := tm\<rparr>;
          rtc = mutex_lock rtc;
          rtc = (if alm_enabled alm = 3 then mtk_rtc_save_pwron_time rtc True tm
                 else if alm_enabled alm = 4 then mtk_rtc_save_pwron_time rtc False tm else rtc);
          (ret, rtc) = regmap_update_bits (addr_base rtc + RTC_PDN2) RTC_PDN2_PWRON_ALARM 0 rtc
      in if ret < 0 then (ret, alm, mutex_unlock rtc)
         else
           (case regmap_bulk_read (addr_base rtc + RTC_AL_SEC) 7 (snd (mtk_rtc_write_trigger rtc)) of
              (Inl ret, rtc) \<Rightarrow> (ret, alm, mutex_unlock rtc)
            | (Inr data, rtc) \<Rightarrow>
                let data = [al_merge data 0 (tm_sec tm), al_merge data 1 (tm_min tm),
                            al_merge data 2 (tm_hour tm), al_merge data 3 (tm_mday tm), data ! 4,
                            al_merge data 5 (tm_mon tm), al_merge data 6 (tm_year tm)];
                    (ret, rtc) = mtk_rtc_program_alarm rtc (alm_enabled alm \<noteq> 0) data
                in (ret, alm, mutex_unlock rtc)))"

definition alarm_set_power_on ::
    "nat \<Rightarrow> mt6397_rtc \<Rightarrow> rtc_wkalrm \<Rightarrow> rtc_time \<Rightarrow> (int \<times> rtc_wkalrm \<times> mt6397_rtc) option" where
  "alarm_set_power_on fuel rtc alm tm =
     (let err = rtc_valid_tm (alm_time alm)
      in if err \<noteq> 0 then Some (err, alm, rtc)
         else
           let scheduled = rtc_tm_to_time64 (alm_time alm)
           in (case mtk_rtc_read_time fuel rtc tm of
                 None \<Rightarrow> None
               | Some (err, tm, rtc) \<Rightarrow>
                   if err \<noteq> 0 then Some (err, alm, rtc)
                   else
                     let now = rtc_tm_to_time64 tm;
                         alm = alm\<lparr>alm_enabled := (if scheduled \<le> now then 4 else 3)\<rparr>;
                         (_, alm, rtc) = mtk_rtc_set_alarm rtc alm
                     in Some (err, alm, rtc)))"

text \<open>
  \<open>poff\<close> says that the command is \<^verbatim>\<open>RTC_POFF_ALM_SET\<close>; \<open>uarg\<close> is the time in user space,
  \<^term>\<open>None\<close> if it cannot be copied; \<open>alm\<close> and \<open>tm\<close> are the uninitialised locals.
\<close>

definition mtk_rtc_ioctl ::
    "nat \<Rightarrow> mt6397_rtc \<Rightarrow> bool \<Rightarrow> rtc_time option \<Rightarrow> rtc_wkalrm \<Rightarrow> rtc_time \<Rightarrow> (int \<times> mt6397_rtc) option" where
  "mtk_rtc_ioctl fuel rtc poff uarg alm tm =
     (if poff then
        (case uarg of None \<Rightarrow> Some (- EFAULT, rtc)
         | Some t \<Rightarrow>
             (case alarm_set_power_on fuel rtc (alm\<lparr>alm_time := t\<rparr>) tm of
                None \<Rightarrow> None | Some (err, alm, rtc) \<Rightarrow> Some (err, rtc)))
      else Some (- EINVAL, rtc))"

section \<open>What the driver leaves alone\<close>

text \<open>
  Bits 10 to 15 of \<^verbatim>\<open>RTC_SPAR0\<close> and bits 8 to 15 of \<^verbatim>\<open>RTC_AL_DOW\<close> belong to the sign-of-life
  driver.  \<open>sol_view\<close> is what that driver sees of the chip, with the state of the mutex; \<open>chip_ok\<close> says that a
  clock tick does not change these two registers and that the trigger register is one of the two the driver
  knows; \<open>idle\<close> that the mutex is free and nobody waits for it.
\<close>

definition sol_view :: "mt6397_rtc \<Rightarrow> u32 \<times> u32 \<times> ((u32 \<Rightarrow> u16) \<Rightarrow> u32 \<Rightarrow> u16) \<times> u16 \<times> u16 \<times> bool \<times> bool" where
  "sol_view s = (addr_base s, wrtgr s, hw_tick s, regs s (addr_base s + RTC_SPAR0) AND 0xFC00,
     regs s (addr_base s + RTC_AL_DOW) AND 0xFF00, locked s, stuck s)"

definition idle :: "mt6397_rtc \<Rightarrow> bool" where
  "idle s \<longleftrightarrow> \<not> locked s \<and> \<not> stuck s"

definition chip_ok :: "mt6397_rtc \<Rightarrow> bool" where
  "chip_ok s \<longleftrightarrow> wrtgr s \<in> {RTC_WRTGR_MT6358, 0x003c} \<and>
     (\<forall>f. hw_tick s f (addr_base s + RTC_SPAR0) = f (addr_base s + RTC_SPAR0) \<and>
          hw_tick s f (addr_base s + RTC_AL_DOW) = f (addr_base s + RTC_AL_DOW))"

lemma chip_ok_view: "sol_view s = sol_view s' \<Longrightarrow> chip_ok s = chip_ok s'"
  by (simp add: sol_view_def chip_ok_def)

lemma sol_view_simps [simp]:
  "sol_view (s\<lparr>bus := x1\<rparr>) = sol_view s" "sol_view (s\<lparr>cbusy := x2\<rparr>) = sol_view s"
  "sol_view (s\<lparr>irq_updates := x4\<rparr>) = sol_view s" "sol_view (s\<lparr>ticks := x5\<rparr>) = sol_view s"
  by (simp_all add: sol_view_def)

lemma lock_simps [simp]:
  "addr_base (mutex_lock s) = addr_base s" "addr_base (mutex_unlock s) = addr_base s"
  "wrtgr (mutex_lock s) = wrtgr s" "wrtgr (mutex_unlock s) = wrtgr s"
  "hw_tick (mutex_lock s) = hw_tick s" "hw_tick (mutex_unlock s) = hw_tick s"
  "regs (mutex_lock s) = regs s" "regs (mutex_unlock s) = regs s"
  "core (mutex_lock s) = core s" "core (mutex_unlock s) = core s"
  "bus (mutex_lock s) = bus s" "bus (mutex_unlock s) = bus s"
  "ticks (mutex_lock s) = ticks s" "ticks (mutex_unlock s) = ticks s"
  "busy_after (mutex_lock s) = busy_after s" "busy_after (mutex_unlock s) = busy_after s"
  "patience (mutex_lock s) = patience s" "patience (mutex_unlock s) = patience s"
  "\<not> locked (mutex_unlock s)" "stuck (mutex_unlock s) = stuck s"
  by (simp_all add: mutex_lock_def mutex_unlock_def)

lemma idle_simps:
  assumes "idle s"
  shows "mutex_lock s = s\<lparr>locked := True\<rparr>" "s\<lparr>locked := False\<rparr> = s"
  using assms by (simp_all add: mutex_lock_def idle_def)

text \<open>A critical section that keeps the view, with the mutex free before it.\<close>

lemma view_unlock:
  assumes "idle s" "sol_view s1 = sol_view (mutex_lock s)"
  shows "sol_view (mutex_unlock s1) = sol_view s" "idle (mutex_unlock s1)"
proof -
  have "sol_view s1 = sol_view (s\<lparr>locked := True\<rparr>)" "\<not> locked s" "\<not> stuck s"
    using assms idle_simps(1) [OF assms(1)] by (simp_all add: idle_def)
  then show "sol_view (mutex_unlock s1) = sol_view s" "idle (mutex_unlock s1)"
    by (auto simp: sol_view_def idle_def mutex_unlock_def)
qed

lemma view_addr_base: "sol_view s' = sol_view s \<Longrightarrow> addr_base s' = addr_base s"
  by (simp add: sol_view_def)

lemma view_bus_access: "bus_access s = (r, s') \<Longrightarrow> sol_view s' = sol_view s"
  by (auto simp: bus_access_def split: list.splits)

lemma view_clock_tick: "chip_ok s \<Longrightarrow> sol_view (clock_tick a s) = sol_view s"
  by (simp add: clock_tick_def chip_ok_def sol_view_def split: list.splits)

lemma view_regmap_read:
  assumes "regmap_read a s = (r, s')" "chip_ok s"
  shows "sol_view s' = sol_view s"
proof -
  obtain ret s1 where b: "bus_access s = (ret, s1)" by (cases "bus_access s")
  have v1: "sol_view s1 = sol_view s" using b by (rule view_bus_access)
  then have "chip_ok s1" using assms(2) chip_ok_view by blast
  then have "sol_view (clock_tick a s1) = sol_view s" using v1 view_clock_tick by simp
  then show ?thesis using assms(1) b v1 by (auto simp: regmap_read_def Let_def split: if_splits)
qed

text \<open>A write goes to another register, or keeps the bits.\<close>

definition keeps_sol :: "mt6397_rtc \<Rightarrow> u32 \<Rightarrow> u16 \<Rightarrow> bool" where
  "keeps_sol s a v \<longleftrightarrow>
     (a = addr_base s + RTC_SPAR0 \<longrightarrow> v AND 0xFC00 = regs s a AND 0xFC00) \<and>
     (a = addr_base s + RTC_AL_DOW \<longrightarrow> v AND 0xFF00 = regs s a AND 0xFF00)"

lemma view_regmap_write:
  assumes "regmap_write a v s = (r, s')" "keeps_sol s a v"
  shows "sol_view s' = sol_view s"
proof -
  obtain ret s1 where b: "bus_access s = (ret, s1)" by (cases "bus_access s")
  have "addr_base s1 = addr_base s" "regs s1 = regs s" "wrtgr s1 = wrtgr s" "hw_tick s1 = hw_tick s"
    "locked s1 = locked s" "stuck s1 = stuck s"
    using b by (auto simp: bus_access_def split: list.splits)
  then show ?thesis using assms b
    by (auto simp: regmap_write_def keeps_sol_def sol_view_def Let_def split: if_splits)
qed

lemma and_merge:
  fixes msk :: "'a::len word"
  assumes "msk AND k = 0"
  shows "((x AND NOT msk) OR (v AND msk)) AND k = x AND k"
  using assms by (auto simp: bit_eq_iff bit_simps)

lemma or_outside:
  fixes x :: "'a::len word"
  assumes "k AND m = 0"
  shows "(x OR k) AND m = x AND m"
  using assms by (auto simp: bit_eq_iff bit_simps)

lemma read_value: "regmap_read a s = (Inr v, s') \<Longrightarrow> a \<noteq> addr_base s \<Longrightarrow> v = regs s' a \<and> addr_base s' = addr_base s"
  by (auto simp: regmap_read_def bus_access_def clock_tick_def Let_def split: if_splits list.splits)

lemma view_update_bits:
  assumes "regmap_update_bits a msk v s = (r, s')" "chip_ok s"
    and "a = addr_base s + RTC_SPAR0 \<Longrightarrow> msk AND 0xFC00 = 0"
    and "a = addr_base s + RTC_AL_DOW \<Longrightarrow> msk AND 0xFF00 = 0"
  shows "sol_view s' = sol_view s"
proof -
  obtain x s1 where r: "regmap_read a s = (x, s1)" by (cases "regmap_read a s")
  have v1: "sol_view s1 = sol_view s" using r assms(2) by (rule view_regmap_read)
  show ?thesis
  proof (cases x)
    case (Inl e)
    then show ?thesis using assms(1) r v1 by (simp add: regmap_update_bits_def)
  next
    case (Inr y)
    have base: "addr_base s1 = addr_base s" using v1 by (rule view_addr_base)
    have y: "a \<noteq> addr_base s \<Longrightarrow> y = regs s1 a" using read_value [of a s y s1] r Inr by simp
    have "keeps_sol s1 a ((y AND NOT msk) OR (v AND msk))"
      unfolding keeps_sol_def base
    proof (intro conjI impI)
      assume a: "a = addr_base s + RTC_SPAR0"
      show "((y AND NOT msk) OR (v AND msk)) AND 0xFC00 = regs s1 a AND 0xFC00"
        using y a by (simp add: and_merge [OF assms(3) [OF a]])
    next
      assume a: "a = addr_base s + RTC_AL_DOW"
      show "((y AND NOT msk) OR (v AND msk)) AND 0xFF00 = regs s1 a AND 0xFF00"
        using y a by (simp add: and_merge [OF assms(4) [OF a]])
    qed
    then show ?thesis
      using assms(1) r v1 Inr view_regmap_write [of a _ s1 r s']
      by (auto simp: regmap_update_bits_def Let_def split: if_splits)
  qed
qed

lemma chip_ok_step: "sol_view s' = sol_view s \<Longrightarrow> chip_ok s \<Longrightarrow> chip_ok s'"
  using chip_ok_view by blast

lemma chip_ok_lock [simp]: "chip_ok (mutex_lock s) = chip_ok s" "chip_ok (mutex_unlock s) = chip_ok s"
  by (simp_all add: chip_ok_def)

lemma view_poll_cbusy: "poll_cbusy n s = (r, s') \<Longrightarrow> chip_ok s \<Longrightarrow> sol_view s' = sol_view s"
proof (induction n arbitrary: s)
  case 0
  obtain x s1 where 1: "regmap_read (addr_base s + RTC_BBPU) s = (x, s1)" by fastforce
  obtain x2 s2 where 2: "regmap_read (addr_base s1 + RTC_BBPU) s1 = (x2, s2)" by fastforce
  have v1: "sol_view s1 = sol_view s" using 1 0(2) by (rule view_regmap_read)
  have "sol_view s2 = sol_view s1" using 2 chip_ok_step [OF v1 0(2)] by (rule view_regmap_read)
  then show ?case using 0(1) 1 2 v1 by (auto split: sum.splits if_splits)
next
  case (Suc n)
  obtain x s1 where 1: "regmap_read (addr_base s + RTC_BBPU) s = (x, s1)" by fastforce
  have v1: "sol_view s1 = sol_view s" using 1 Suc.prems(2) by (rule view_regmap_read)
  then show ?case
    using Suc.prems(1) 1 Suc.IH [OF _ chip_ok_step [OF v1 Suc.prems(2)]]
    by (auto split: sum.splits if_splits)
qed

lemma view_poll_cbusy_nonsleep:
  "poll_cbusy_nonsleep n s = (r, s') \<Longrightarrow> chip_ok s \<Longrightarrow> sol_view s' = sol_view s"
proof (induction n arbitrary: s)
  case 0
  obtain x s1 where 1: "regmap_read (addr_base s + RTC_BBPU) s = (x, s1)" by fastforce
  have "sol_view s1 = sol_view s" using 1 0(2) by (rule view_regmap_read)
  then show ?case using 0(1) 1 by (auto simp: poll_cbusy_nonsleep.simps [of 0] split: sum.splits if_splits)
next
  case (Suc n)
  obtain x s1 where 1: "regmap_read (addr_base s + RTC_BBPU) s = (x, s1)" by fastforce
  have v1: "sol_view s1 = sol_view s" using 1 Suc.prems(2) by (rule view_regmap_read)
  then show ?case
    using Suc.prems(1) 1 Suc.IH [OF _ chip_ok_step [OF v1 Suc.prems(2)]]
    by (auto simp: poll_cbusy_nonsleep.simps [of "Suc n"] split: sum.splits if_splits)
qed

lemma keeps_sol_view: "sol_view s' = sol_view s \<Longrightarrow> keeps_sol s' a v = keeps_sol s a v"
  by (auto simp: keeps_sol_def sol_view_def)

lemma keeps_sol_other:
  "a \<noteq> addr_base s + RTC_SPAR0 \<Longrightarrow> a \<noteq> addr_base s + RTC_AL_DOW \<Longrightarrow> keeps_sol s a v"
  by (simp add: keeps_sol_def)

lemma keeps_sol_trigger: "chip_ok s \<Longrightarrow> keeps_sol s (addr_base s + wrtgr s) v"
  by (rule keeps_sol_other) (auto simp: chip_ok_def)

lemma view_trigger:
  assumes "mtk_rtc_write_trigger s = (r, s')" "chip_ok s"
  shows "sol_view s' = sol_view s"
proof -
  obtain x s1 where 1: "regmap_write (addr_base s + wrtgr s) 1 s = (x, s1)" by fastforce
  have v1: "sol_view s1 = sol_view s" using 1 keeps_sol_trigger [OF assms(2)] by (rule view_regmap_write)
  then show ?thesis
    using assms 1 view_poll_cbusy [of "patience s1" s1 r s'] chip_ok_step [OF v1 assms(2)]
    by (auto simp: mtk_rtc_write_trigger_def split: if_splits)
qed

lemma view_trigger_nonsleep:
  assumes "mtk_rtc_write_trigger_nonsleep s = (r, s')" "chip_ok s"
  shows "sol_view s' = sol_view s"
proof -
  obtain x s1 where 1: "regmap_write (addr_base s + wrtgr s) 1 s = (x, s1)" by fastforce
  have v1: "sol_view s1 = sol_view s" using 1 keeps_sol_trigger [OF assms(2)] by (rule view_regmap_write)
  then show ?thesis
    using assms 1 view_poll_cbusy_nonsleep [of "patience s1" s1 r s'] chip_ok_step [OF v1 assms(2)]
    by (auto simp: mtk_rtc_write_trigger_nonsleep_def split: if_splits)
qed

lemma view_bulk_read: "regmap_bulk_read a n s = (r, s') \<Longrightarrow> chip_ok s \<Longrightarrow> sol_view s' = sol_view s"
proof (induction n arbitrary: a s r s')
  case (Suc n)
  obtain x s1 where 1: "regmap_read a s = (x, s1)" by fastforce
  obtain y s2 where 2: "regmap_bulk_read (a + 2) n s1 = (y, s2)" by fastforce
  have v1: "sol_view s1 = sol_view s" using 1 Suc.prems(2) by (rule view_regmap_read)
  have "sol_view s2 = sol_view s1" using Suc.IH [OF 2 chip_ok_step [OF v1 Suc.prems(2)]] .
  then show ?case using Suc.prems(1) 1 2 v1 by (auto split: sum.splits)
qed simp

lemma view_bulk_write:
  assumes "regmap_bulk_write a vs s = (r, s')" "chip_ok s"
    and "\<And>i. i < length vs \<Longrightarrow> keeps_sol s (a + 2 * of_nat i) (vs ! i) \<and> a + 2 * of_nat i \<noteq> addr_base s + RTC_SPAR0"
  shows "sol_view s' = sol_view s"
  using assms
proof (induction vs arbitrary: a s)
  case (Cons v vs)
  obtain x s1 where 1: "regmap_write a v s = (x, s1)" by fastforce
  have "keeps_sol s a v" using Cons.prems(3) [of 0] by simp
  with 1 have v1: "sol_view s1 = sol_view s" by (rule view_regmap_write)
  have "keeps_sol s1 (a + 2 + 2 * of_nat i) (vs ! i) \<and> a + 2 + 2 * of_nat i \<noteq> addr_base s1 + RTC_SPAR0"
    if "i < length vs" for i
  proof -
    have "a + 2 * of_nat (Suc i) = a + 2 + 2 * of_nat i" by (simp add: algebra_simps)
    then show ?thesis
      using Cons.prems(3) [of "Suc i"] that
      by (simp only: keeps_sol_view [OF v1] view_addr_base [OF v1] length_Cons Suc_less_eq nth_Cons_Suc simp_thms)
  qed
  then show ?case
    using Cons.prems(1) 1 v1 Cons.IH [OF _ chip_ok_step [OF v1 Cons.prems(2)], of "a + 2"]
    by (auto split: if_splits)
qed simp

text \<open>A chain of steps: each keeps the view of the state before it.\<close>

lemma view_trigger': "chip_ok s \<Longrightarrow> sol_view (snd (mtk_rtc_write_trigger s)) = sol_view s"
  using view_trigger [of s] by (cases "mtk_rtc_write_trigger s") simp

lemma view_pwron_loop:
  "set is \<subseteq> {0..<7} \<Longrightarrow> chip_ok s \<Longrightarrow> sol_view (mtk_rtc_set_pwron_loop is data s) = sol_view s"
proof (induction "is" arbitrary: s)
  case (Cons i "is")
  show ?case
  proof (cases "i = 4")
    case True
    then show ?thesis using Cons by simp
  next
    case False
    obtain reg msk sh where e: "rtc_pwron_reg ! i = (reg, msk, sh)" by (cases "rtc_pwron_reg ! i")
    obtain r s1 where 1: "regmap_update_bits (addr_base s + reg) msk (data ! i) s = (r, s1)" by fastforce
    have "i \<in> {0, 1, 2, 3, 5, 6}" using Cons.prems(1) False by auto
    then have "reg \<noteq> RTC_AL_DOW \<and> (reg = RTC_SPAR0 \<longrightarrow> msk AND 0xFC00 = 0)"
      using e by (auto simp: rtc_pwron_reg_def)
    then have v1: "sol_view s1 = sol_view s" using 1 Cons.prems(2) by (intro view_update_bits) auto
    have ok1: "chip_ok s1" using v1 Cons.prems(2) by (rule chip_ok_step)
    have v2: "sol_view (snd (mtk_rtc_write_trigger s1)) = sol_view s" using view_trigger' [OF ok1] v1 by simp
    have "sol_view (mtk_rtc_set_pwron_loop is data (snd (mtk_rtc_write_trigger s1))) = sol_view s"
      using Cons.IH [OF _ chip_ok_step [OF v2 Cons.prems(2)]] Cons.prems(1) v2 by simp
    then show ?thesis using False e 1 v1 by simp
  qed
qed simp

lemma view_save_pwron_time:
  assumes "chip_ok s"
  shows "sol_view (mtk_rtc_save_pwron_time s enable tm) = sol_view s"
proof -
  define s0 where "s0 = mtk_rtc_set_pwron_time s tm"
  have v0: "sol_view s0 = sol_view s"
    unfolding s0_def mtk_rtc_set_pwron_time_def using assms by (intro view_pwron_loop) auto
  note ok0 = chip_ok_step [OF v0 assms]
  let ?pdn1 = "if enable then RTC_PDN1_PWRON_TIME else 0"
  obtain r s1 where 1: "regmap_update_bits (addr_base s0 + RTC_PDN1) RTC_PDN1_PWRON_TIME ?pdn1 s0 = (r, s1)"
    by fastforce
  have v1: "sol_view s1 = sol_view s0" using 1 ok0 by (rule view_update_bits) simp_all
  then show ?thesis
    using 1 v0 view_trigger' [OF chip_ok_step [OF v1 ok0]]
    by (simp add: mtk_rtc_save_pwron_time_def Let_def flip: s0_def)
qed

lemma seven_less: "i < 7 \<Longrightarrow> i \<in> {0, 1, 2, 3, 4, 5, 6::nat}"
  by auto

lemma view_program_alarm:
  assumes "mtk_rtc_program_alarm s enabled data = (r, s')" "chip_ok s" "length data = 7"
    and "data ! 4 AND 0xFF00 = regs s (addr_base s + RTC_AL_DOW) AND 0xFF00"
  shows "sol_view s' = sol_view s"
proof (cases enabled)
  case True
  obtain r1 s1 where 1: "regmap_bulk_write (addr_base s + RTC_AL_SEC) data s = (r1, s1)" by fastforce
  have v1: "sol_view s1 = sol_view s"
  proof (rule view_bulk_write [OF 1 assms(2)])
    fix i assume "i < length data"
    then have "i \<in> {0, 1, 2, 3, 4, 5, 6}" using seven_less assms(3) by simp
    then show "keeps_sol s (addr_base s + RTC_AL_SEC + 2 * of_nat i) (data ! i) \<and>
        addr_base s + RTC_AL_SEC + 2 * of_nat i \<noteq> addr_base s + RTC_SPAR0"
      using assms(4) by (auto simp: keeps_sol_def) (simp add: add.commute)
  qed
  note ok1 = chip_ok_step [OF v1 assms(2)]
  obtain r2 s2 where 2: "regmap_write (addr_base s1 + RTC_AL_MASK) RTC_AL_MASK_DOW s1 = (r2, s2)" by fastforce
  have v2: "sol_view s2 = sol_view s1" using 2 by (rule view_regmap_write) (simp add: keeps_sol_other)
  note ok2 = chip_ok_step [OF v2 ok1]
  obtain r3 s3 where 3: "regmap_update_bits (addr_base s2 + RTC_IRQ_EN) RTC_IRQ_EN_ONESHOT_AL
      RTC_IRQ_EN_ONESHOT_AL s2 = (r3, s3)" by fastforce
  have v3: "sol_view s3 = sol_view s2" using 3 ok2 by (rule view_update_bits) simp_all
  show ?thesis
    using assms(1) True 1 2 3 v1 v2 v3 view_trigger [of s3 r s'] chip_ok_step [OF v3 ok2]
    by (simp add: mtk_rtc_program_alarm_def split: if_splits)
next
  case False
  obtain r1 s1 where 1: "regmap_update_bits (addr_base s + RTC_IRQ_EN) RTC_IRQ_EN_ONESHOT_AL 0 s = (r1, s1)"
    by fastforce
  have v1: "sol_view s1 = sol_view s" using 1 assms(2) by (rule view_update_bits) simp_all
  show ?thesis
    using assms(1) False 1 v1 view_trigger [of s1 r s'] chip_ok_step [OF v1 assms(2)]
    by (simp add: mtk_rtc_program_alarm_def split: if_splits)
qed

lemma length_bulk_read: "regmap_bulk_read a n s = (Inr data, s') \<Longrightarrow> length data = n"
  by (induction n arbitrary: a s data) (auto split: prod.splits sum.splits)

lemma bulk_read_value:
  assumes "regmap_bulk_read a n s = (Inr data, s')" "i < n" "chip_ok s"
    and "a + 2 * of_nat i = addr_base s + RTC_AL_DOW"
  shows "data ! i AND 0xFF00 = regs s (addr_base s + RTC_AL_DOW) AND 0xFF00 \<and> length data = n"
  using assms
proof (induction n arbitrary: a s data i)
  case (Suc n)
  obtain v s1 vs where 1: "regmap_read a s = (Inr v, s1)" "regmap_bulk_read (a + 2) n s1 = (Inr vs, s')"
    "data = v # vs" using Suc.prems(1) by (auto split: prod.splits sum.splits)
  have v1: "sol_view s1 = sol_view s" using 1(1) Suc.prems(3) by (rule view_regmap_read)
  have base: "addr_base s1 = addr_base s" using v1 by (rule view_addr_base)
  have al: "regs s1 (addr_base s + RTC_AL_DOW) AND 0xFF00 = regs s (addr_base s + RTC_AL_DOW) AND 0xFF00"
    using v1 base by (simp add: sol_view_def)
  have len: "length vs = n" using length_bulk_read [OF 1(2)] .
  show ?case
  proof (cases i)
    case 0
    then have "v = regs s1 (addr_base s + RTC_AL_DOW)"
      using read_value [OF 1(1)] Suc.prems(4) by simp
    then show ?thesis using 0 1(3) al len by simp
  next
    case (Suc j)
    have "a + 2 + 2 * of_nat j = addr_base s1 + RTC_AL_DOW"
      using Suc.prems(4) Suc base by (simp add: algebra_simps)
    then show ?thesis
      using Suc.IH [OF 1(2) _ chip_ok_step [OF v1 Suc.prems(3)], of j] Suc.prems(2) Suc 1(3) al base by simp
  qed
qed simp

lemma view_set_alarm:
  assumes "mtk_rtc_set_alarm s alm = (r, alm', s')" "chip_ok s" "idle s"
  shows "sol_view s' = sol_view s"
proof -
  define tm where "tm = (let tm = alm_time alm;
          tm = (if alm_enabled alm = 1 then rtc_ktime_to_tm (s64 (rtc_tm_to_ktime tm + NSEC_PER_SEC)) else tm)
       in tm\<lparr>tm_year := s32 (tm_year tm - RTC_MIN_YEAR_OFFSET), tm_mon := s32 (tm_mon tm + 1)\<rparr>)"
  define s0 where "s0 = (if alm_enabled alm = 3 then mtk_rtc_save_pwron_time (mutex_lock s) True tm
      else if alm_enabled alm = 4 then mtk_rtc_save_pwron_time (mutex_lock s) False tm else mutex_lock s)"
  let ?v = "sol_view (mutex_lock s)"
  have ok: "chip_ok (mutex_lock s)" using assms(2) by simp
  have v0: "sol_view s0 = ?v" using ok by (simp add: s0_def view_save_pwron_time)
  note ok0 = chip_ok_step [OF v0 ok]
  obtain r1 s1 where 1: "regmap_update_bits (addr_base s0 + RTC_PDN2) RTC_PDN2_PWRON_ALARM 0 s0 = (r1, s1)"
    by fastforce
  have v1: "sol_view s1 = ?v" using view_update_bits [OF 1 ok0] v0 by simp
  define s2 where "s2 = snd (mtk_rtc_write_trigger s1)"
  have v2: "sol_view s2 = ?v" using view_trigger' [OF chip_ok_step [OF v1 ok]] v1 by (simp add: s2_def)
  have base: "addr_base s2 = addr_base s1" using v1 v2 by (simp add: sol_view_def)
  note ok2 = chip_ok_step [OF v2 ok]
  obtain x s3 where 3: "regmap_bulk_read (addr_base s2 + RTC_AL_SEC) 7 s2 = (x, s3)" by fastforce
  have v3: "sol_view s3 = ?v" using view_bulk_read [OF 3 ok2] v2 by simp
  note ok3 = chip_ok_step [OF v3 ok]
  show ?thesis
  proof (cases "r1 < 0 \<or> (\<exists>e. x = Inl e)")
    case True
    then show ?thesis
      using assms(1) 1 3 view_unlock(1) [OF assms(3) v1] view_unlock(1) [OF assms(3) v3] base
      by (auto simp: mtk_rtc_set_alarm_def Let_def tm_def s0_def s2_def split: if_splits)
  next
    case False
    then obtain data where x: "x = Inr data" by (cases x) auto
    have al: "data ! 4 AND 0xFF00 = regs s2 (addr_base s2 + RTC_AL_DOW) AND 0xFF00"
      using bulk_read_value [OF 3 [unfolded x], of 4] ok2 by simp
    define data' where "data' = [al_merge data 0 (tm_sec tm), al_merge data 1 (tm_min tm),
        al_merge data 2 (tm_hour tm), al_merge data 3 (tm_mday tm), data ! 4,
        al_merge data 5 (tm_mon tm), al_merge data 6 (tm_year tm)]"
    obtain r4 s4 where 4: "mtk_rtc_program_alarm s3 (alm_enabled alm \<noteq> 0) data' = (r4, s4)" by fastforce
    have "data' ! 4 AND 0xFF00 = regs s3 (addr_base s3 + RTC_AL_DOW) AND 0xFF00"
      using al v2 v3 by (auto simp: data'_def sol_view_def)
    then have "sol_view s4 = sol_view s3" by (intro view_program_alarm [OF 4 ok3]) (simp_all add: data'_def)
    moreover have "s' = mutex_unlock s4"
      using assms(1) 1 3 4 False x base
      by (simp add: mtk_rtc_set_alarm_def Let_def tm_def s0_def s2_def data'_def split: if_splits)
    ultimately show ?thesis using view_unlock(1) [OF assms(3), of s4] v3 by simp
  qed
qed

lemma view_set_time:
  assumes "mtk_rtc_set_time dow s tm = (r, tm', s')" "chip_ok s" "idle s"
  shows "sol_view s' = sol_view s"
proof -
  define s0 where "s0 = mutex_lock s"
  define data :: "u16 list" where "data = [word_of_int (tm_sec tm), word_of_int (tm_min tm),
     word_of_int (tm_hour tm), word_of_int (tm_mday tm), dow, word_of_int (s32 (tm_mon tm + 1)),
     word_of_int (s32 (tm_year tm - RTC_MIN_YEAR_OFFSET))]"
  obtain r1 s1 where 1: "regmap_bulk_write (addr_base s0 + RTC_TC_SEC) data s0 = (r1, s1)" by fastforce
  have ok0: "chip_ok s0" using assms(2) by (simp add: s0_def)
  have v1: "sol_view s1 = sol_view s0"
  proof (rule view_bulk_write [OF 1 ok0])
    fix i assume "i < length data"
    then have "i \<in> {0, 1, 2, 3, 4, 5, 6}" using seven_less by (simp add: data_def)
    then show "keeps_sol s0 (addr_base s0 + RTC_TC_SEC + 2 * of_nat i) (data ! i) \<and>
        addr_base s0 + RTC_TC_SEC + 2 * of_nat i \<noteq> addr_base s0 + RTC_SPAR0"
      by (auto simp: keeps_sol_def)
  qed
  obtain r2 s2 where 2: "mtk_rtc_write_trigger s1 = (r2, s2)" by fastforce
  have "sol_view s2 = sol_view s1" using 2 chip_ok_step [OF v1 ok0] by (rule view_trigger)
  moreover have "s' = mutex_unlock s1 \<or> s' = mutex_unlock s2"
    using assms(1) 1 2
    by (simp add: mtk_rtc_set_time_def data_def s0_def Let_def del: regmap_bulk_write.simps split: if_splits)
  ultimately show ?thesis using v1 view_unlock(1) [OF assms(3)] by (auto simp: s0_def)
qed

lemma view_nvram_write_loop:
  "rtc_nvram_write_loop off vs s = Some (r, s') \<Longrightarrow> chip_ok s \<Longrightarrow> sol_view s' = sol_view s"
proof (induction vs arbitrary: off s)
  case (Cons v vs)
  define fld where "fld = mtk_rtc_spare_reg_fields ! off"
  obtain reg lsb msb where f: "fld = (reg, lsb, msb)" by (cases fld)
  obtain r1 s1 where 1: "regmap_field_write fld (ucast v) s = (r1, s1)" by fastforce
  have off: "off < length mtk_rtc_spare_reg_fields" using Cons.prems(1) by (auto split: if_splits)
  then have "off \<in> {0, 1, 2, 3}" by (auto simp: mtk_rtc_spare_reg_fields_def)
  then have "reg \<noteq> RTC_AL_DOW \<and> (reg = RTC_SPAR0 \<longrightarrow> field_mask lsb msb AND 0xFC00 = 0)"
    using f by (auto simp: fld_def mtk_rtc_spare_reg_fields_def field_mask_def mask_eq_exp_minus_1)
  moreover have "regmap_update_bits (addr_base s + reg) (field_mask lsb msb) (push_bit lsb (ucast v)) s = (r1, s1)"
    using 1 f by (simp add: regmap_field_write_def)
  ultimately have v1: "sol_view s1 = sol_view s" using Cons.prems(2) by (intro view_update_bits) auto
  then show ?case
    using Cons.prems(1) off 1 Cons.IH [OF _ chip_ok_step [OF v1 Cons.prems(2)]]
    by (auto simp: fld_def split: if_splits)
qed simp

lemma view_nvram_write:
  assumes "rtc_nvram_write off vs s = Some (r, s')" "chip_ok s" "idle s"
  shows "sol_view s' = sol_view s"
proof -
  obtain r1 s1 where 1: "rtc_nvram_write_loop off vs (mutex_lock s) = Some (r1, s1)"
    using assms(1) by (auto simp: rtc_nvram_write_def split: if_splits option.splits)
  have ok: "chip_ok (mutex_lock s)" using assms(2) by simp
  have v1: "sol_view s1 = sol_view (mutex_lock s)" using view_nvram_write_loop [OF 1 ok] .
  then have "sol_view (snd (mtk_rtc_write_trigger s1)) = sol_view (mutex_lock s)"
    using view_trigger' [OF chip_ok_step [OF v1 ok]] by simp
  then show ?thesis
    using assms(1) 1 view_unlock(1) [OF assms(3) v1] view_unlock(1) [OF assms(3)]
    by (auto simp: rtc_nvram_write_def split: if_splits)
qed

lemma view_nvram_read_loop:
  "rtc_nvram_read_loop off n s = Some (r, vs, s') \<Longrightarrow> chip_ok s \<Longrightarrow> sol_view s' = sol_view s"
proof (induction n arbitrary: off s vs)
  case (Suc n)
  obtain x s1 where 1: "regmap_field_read (mtk_rtc_spare_reg_fields ! off) s = (x, s1)" by fastforce
  obtain reg lsb msb where f: "mtk_rtc_spare_reg_fields ! off = (reg, lsb, msb)" by (cases "mtk_rtc_spare_reg_fields ! off")
  obtain y s2 where 2: "regmap_read (addr_base s + reg) s = (y, s2)" by fastforce
  have "s1 = s2" using 1 2 f by (auto simp: regmap_field_read_def split: sum.splits)
  then have v1: "sol_view s1 = sol_view s" using view_regmap_read [OF 2 Suc.prems(2)] by simp
  show ?case
    using Suc.prems(1) 1 v1 Suc.IH [OF _ chip_ok_step [OF v1 Suc.prems(2)], of "Suc off"]
    by (auto split: if_splits sum.splits option.splits)
qed simp

lemma view_nvram_read:
  assumes "rtc_nvram_read off n s = Some (r, vs, s')" "chip_ok s" "idle s"
  shows "sol_view s' = sol_view s"
proof -
  obtain s1 where 1: "rtc_nvram_read_loop off n (mutex_lock s) = Some (r, vs, s1)" "s' = mutex_unlock s1"
    using assms(1) by (auto simp: rtc_nvram_read_def split: if_splits option.splits)
  show ?thesis using view_unlock(1) [OF assms(3) view_nvram_read_loop [OF 1(1)]] assms(2) 1(2) by simp
qed

lemma view_mark_sw_lprst:
  assumes "mtk_rtc_mark_sw_lprst (Some s) = Some (r, s')" "chip_ok s" "idle s"
  shows "sol_view s' = sol_view s"
proof -
  obtain x s1 where 1: "regmap_read (addr_base s + RTC_SPAR0) (mutex_lock s) = (x, s1)" by fastforce
  have ok: "chip_ok (mutex_lock s)" using assms(2) by simp
  have v1: "sol_view s1 = sol_view (mutex_lock s)" using view_regmap_read [OF 1 ok] .
  note ok1 = chip_ok_step [OF v1 ok] and base = view_addr_base [OF v1] and u = view_unlock(1) [OF assms(3)]
  show ?thesis
  proof (cases x)
    case (Inr data)
    obtain r2 s2 where 2: "regmap_write (addr_base s1 + RTC_SPAR0) (data OR RTC_SPAR0_LPRST) s1 = (r2, s2)"
      by fastforce
    have "data = regs s1 (addr_base s1 + RTC_SPAR0)" using read_value [OF 1 [unfolded Inr]] base by simp
    then have "keeps_sol s1 (addr_base s1 + RTC_SPAR0) (data OR RTC_SPAR0_LPRST)"
      by (simp add: keeps_sol_def or_outside)
    then have v2: "sol_view s2 = sol_view s1" by (rule view_regmap_write [OF 2])
    obtain r3 s3 where 3: "mtk_rtc_write_trigger s2 = (r3, s3)" by fastforce
    have "sol_view s3 = sol_view s2" using 3 chip_ok_step [OF v2 ok1] by (rule view_trigger)
    then show ?thesis
      using assms(1) 1 2 3 Inr u [of s2] u [of s3] v1 v2 by (auto simp: mtk_rtc_mark_sw_lprst_def split: if_splits)
  qed (use assms(1) 1 u [OF v1] in \<open>auto simp: mtk_rtc_mark_sw_lprst_def\<close>)
qed

lemma view_irq_handler:
  assumes "mtk_rtc_irq_handler_thread s = (r, s')" "chip_ok s" "idle s"
  shows "sol_view s' = sol_view s"
proof -
  obtain x s1 where 1: "regmap_read (addr_base s + RTC_IRQ_STA) s = (x, s1)" by fastforce
  have v1: "sol_view s1 = sol_view s" using 1 assms(2) by (rule view_regmap_read)
  define s1' where "s1' = s1\<lparr>irq_updates := irq_updates s1 + 1\<rparr>"
  have s1': "sol_view s1' = sol_view s" "chip_ok s1'" using v1 chip_ok_step [of s1' s] assms(2) by (simp_all add: s1'_def)
  then have i1: "idle s1'" using assms(3) by (simp add: idle_def sol_view_def)
  show ?thesis
  proof (cases x)
    case (Inr sta)
    obtain r3 s3 where 3: "regmap_write (addr_base s1' + RTC_IRQ_EN) (sta AND NOT RTC_IRQ_EN_AL) (mutex_lock s1') = (r3, s3)"
      by fastforce
    have v3: "sol_view s3 = sol_view (mutex_lock s1')" using 3 by (rule view_regmap_write) (simp add: keeps_sol_other)
    have v4: "sol_view (snd (mtk_rtc_write_trigger s3)) = sol_view (mutex_lock s1')"
      using view_trigger' [OF chip_ok_step [OF v3]] s1'(2) v3 by simp
    show ?thesis
      using assms(1) 1 3 Inr v1 s1'(1) view_unlock(1) [OF i1 v3] view_unlock(1) [OF i1 v4]
      by (auto simp: mtk_rtc_irq_handler_thread_def Let_def s1'_def split: if_splits)
  qed (use assms(1) 1 v1 in \<open>auto simp: mtk_rtc_irq_handler_thread_def\<close>)
qed

lemma view_read_once:
  assumes "mtk_rtc_read_time_once s tm = (x, tm', s')" "chip_ok s" "idle s"
  shows "sol_view s' = sol_view s"
proof -
  obtain y s1 where 1: "regmap_bulk_read (addr_base s + RTC_TC_SEC) 7 (mutex_lock s) = (y, s1)" by fastforce
  obtain z s2 where 2: "regmap_read (addr_base s1 + RTC_TC_SEC) s1 = (z, s2)" by fastforce
  have ok: "chip_ok (mutex_lock s)" using assms(2) by simp
  have v1: "sol_view s1 = sol_view (mutex_lock s)" using 1 ok by (rule view_bulk_read)
  have v2: "sol_view s2 = sol_view (mutex_lock s)" using view_regmap_read [OF 2 chip_ok_step [OF v1 ok]] v1 by simp
  show ?thesis
    using assms(1) 1 2 view_unlock(1) [OF assms(3) v1] view_unlock(1) [OF assms(3) v2]
    by (auto simp: mtk_rtc_read_time_once_def Let_def simp del: regmap_bulk_read.simps split: sum.splits)
qed

lemma idle_view: "sol_view s' = sol_view s \<Longrightarrow> idle s' = idle s"
  by (simp add: sol_view_def idle_def)

lemma view_read_time_loop:
  "mtk_rtc_read_time_loop fuel s tm = Some (r, tm', s') \<Longrightarrow> chip_ok s \<Longrightarrow> idle s \<Longrightarrow> sol_view s' = sol_view s"
proof (induction fuel arbitrary: s tm)
  case (Suc fuel)
  obtain x tm1 s1 where 1: "mtk_rtc_read_time_once s tm = (x, tm1, s1)" by (cases "mtk_rtc_read_time_once s tm")
  have v1: "sol_view s1 = sol_view s" using view_read_once [OF 1 Suc.prems(2,3)] .
  show ?case
    using Suc.prems 1 v1 Suc.IH [of s1 tm1] chip_ok_step [OF v1] idle_view [OF v1]
    by (auto split: sum.splits if_splits)
qed simp

lemma view_read_time:
  assumes "mtk_rtc_read_time fuel s tm = Some (r, tm', s')" "chip_ok s" "idle s"
  shows "sol_view s' = sol_view s"
proof -
  obtain tm1 where "mtk_rtc_read_time_loop fuel s tm = Some (r, tm1, s')"
    using assms(1) by (auto simp: mtk_rtc_read_time_def Let_def split: option.splits if_splits)
  then show ?thesis using assms(2,3) by (rule view_read_time_loop)
qed

lemma view_read_alarm:
  assumes "mtk_rtc_read_alarm s alm = (r, alm', s')" "chip_ok s" "idle s"
  shows "sol_view s' = sol_view s"
proof -
  obtain x s1 where 1: "regmap_read (addr_base s + RTC_IRQ_EN) (mutex_lock s) = (x, s1)" by fastforce
  obtain y s2 where 2: "regmap_read (addr_base s1 + RTC_PDN2) s1 = (y, s2)" by fastforce
  obtain z s3 where 3: "regmap_bulk_read (addr_base s2 + RTC_AL_SEC) 7 s2 = (z, s3)" by fastforce
  have ok: "chip_ok (mutex_lock s)" using assms(2) by simp
  have v1: "sol_view s1 = sol_view (mutex_lock s)" using 1 ok by (rule view_regmap_read)
  have v2: "sol_view s2 = sol_view (mutex_lock s)" using view_regmap_read [OF 2 chip_ok_step [OF v1 ok]] v1 by simp
  have v3: "sol_view s3 = sol_view (mutex_lock s)" using view_bulk_read [OF 3 chip_ok_step [OF v2 ok]] v2 by simp
  note u = view_unlock(1) [OF assms(3)]
  show ?thesis
    using assms(1) 1 2 3 u [OF v1] u [OF v2] u [OF v3]
    by (auto simp: mtk_rtc_read_alarm_def Let_def simp del: regmap_bulk_read.simps split: sum.splits)
qed

lemma view_ioctl:
  assumes "mtk_rtc_ioctl fuel s poff uarg alm tm = Some (r, s')" "chip_ok s" "idle s"
  shows "sol_view s' = sol_view s"
proof (cases "poff \<and> uarg \<noteq> None")
  case True
  then obtain t alm1 where a: "alarm_set_power_on fuel s (alm\<lparr>alm_time := t\<rparr>) tm = Some (r, alm1, s')"
    using assms(1) by (auto simp: mtk_rtc_ioctl_def split: option.splits)
  show ?thesis
  proof (cases "rtc_valid_tm t = 0")
    case v: True
    obtain err tm1 s1 where 1: "mtk_rtc_read_time fuel s tm = Some (err, tm1, s1)"
      using a v by (auto simp: alarm_set_power_on_def split: option.splits)
    have v1: "sol_view s1 = sol_view s" using view_read_time [OF 1 assms(2,3)] .
    have "\<exists>alm2 r2 alm3. s' = s1 \<or> mtk_rtc_set_alarm s1 alm2 = (r2, alm3, s')"
      using a v 1 by (auto simp: alarm_set_power_on_def Let_def split: if_splits prod.splits)
    then show ?thesis
      using v1 view_set_alarm [OF _ chip_ok_step [OF v1 assms(2)]] assms(3) by (auto simp: idle_view [OF v1])
  qed (use a in \<open>simp add: alarm_set_power_on_def\<close>)
qed (use assms(1) in \<open>auto simp: mtk_rtc_ioctl_def split: if_splits option.splits\<close>)

text \<open>
  The operations other parts of the kernel call: the RTC class operations, the NVMEM callbacks, the ioctl, the
  interrupt thread and the mark of a software reset.  The raw accessors are for the sign-of-life driver itself.
\<close>

datatype rtc_op =
    ReadTime rtc_time
  | SetTime u16 rtc_time
  | ReadAlarm rtc_wkalrm
  | SetAlarm rtc_wkalrm
  | NvramRead nat nat
  | NvramWrite nat "u8 list"
  | Ioctl bool "rtc_time option" rtc_wkalrm rtc_time
  | IrqThread
  | MarkSwLprst

fun rtc_do :: "nat \<Rightarrow> rtc_op \<Rightarrow> mt6397_rtc \<Rightarrow> mt6397_rtc option" where
  "rtc_do fuel (ReadTime tm) rtc = map_option (\<lambda>(_, _, rtc). rtc) (mtk_rtc_read_time fuel rtc tm)"
| "rtc_do fuel (SetTime dow tm) rtc = Some (snd (snd (mtk_rtc_set_time dow rtc tm)))"
| "rtc_do fuel (ReadAlarm alm) rtc = Some (snd (snd (mtk_rtc_read_alarm rtc alm)))"
| "rtc_do fuel (SetAlarm alm) rtc = Some (snd (snd (mtk_rtc_set_alarm rtc alm)))"
| "rtc_do fuel (NvramRead offset bytes) rtc = map_option (\<lambda>(_, _, rtc). rtc) (rtc_nvram_read offset bytes rtc)"
| "rtc_do fuel (NvramWrite offset vs) rtc = map_option snd (rtc_nvram_write offset vs rtc)"
| "rtc_do fuel (Ioctl poff uarg alm tm) rtc = map_option snd (mtk_rtc_ioctl fuel rtc poff uarg alm tm)"
| "rtc_do fuel IrqThread rtc = Some (snd (mtk_rtc_irq_handler_thread rtc))"
| "rtc_do fuel MarkSwLprst rtc = map_option snd (mtk_rtc_mark_sw_lprst (Some rtc))"

fun rtc_ops :: "nat \<Rightarrow> rtc_op list \<Rightarrow> mt6397_rtc \<Rightarrow> mt6397_rtc option" where
  "rtc_ops fuel [] rtc = Some rtc"
| "rtc_ops fuel (op # ops) rtc = Option.bind (rtc_do fuel op rtc) (rtc_ops fuel ops)"

lemma view_rtc_do:
  assumes "rtc_do fuel op s = Some s'" "chip_ok s" "idle s"
  shows "sol_view s' = sol_view s"
proof (cases op)
  case (SetTime dow tm)
  then show ?thesis using assms(1) view_set_time [OF _ assms(2,3)] by (cases "mtk_rtc_set_time dow s tm") auto
next
  case (ReadAlarm alm)
  then show ?thesis using assms(1) view_read_alarm [OF _ assms(2,3)] by (cases "mtk_rtc_read_alarm s alm") auto
next
  case (SetAlarm alm)
  then show ?thesis using assms(1) view_set_alarm [OF _ assms(2,3)] by (cases "mtk_rtc_set_alarm s alm") auto
next
  case IrqThread
  then show ?thesis using assms(1) view_irq_handler [OF _ assms(2,3)] by (cases "mtk_rtc_irq_handler_thread s") auto
qed (use assms view_read_time view_nvram_read view_nvram_write view_ioctl view_mark_sw_lprst in auto)

lemma view_rtc_ops:
  "rtc_ops fuel ops s = Some s' \<Longrightarrow> chip_ok s \<Longrightarrow> idle s \<Longrightarrow> sol_view s' = sol_view s"
proof (induction ops arbitrary: s)
  case (Cons op ops)
  obtain s1 where 1: "rtc_do fuel op s = Some s1" "rtc_ops fuel ops s1 = Some s'"
    using Cons.prems(1) by (auto simp: bind_eq_Some_conv)
  have v1: "sol_view s1 = sol_view s" using view_rtc_do [OF 1(1) Cons.prems(2,3)] .
  show ?case using Cons.IH [OF 1(2) chip_ok_step [OF v1 Cons.prems(2)]] Cons.prems(3) v1 by (simp add: idle_view [OF v1])
qed simp

section \<open>Set and read back\<close>

text \<open>A chip without bus errors, whose clock does not tick meanwhile and that is ready in time.\<close>

definition quiet :: "mt6397_rtc \<Rightarrow> bool" where
  "quiet s \<longleftrightarrow> bus s = [] \<and> ticks s = [] \<and> busy_after s \<le> patience s \<and>
     wrtgr s \<in> {RTC_WRTGR_MT6358, 0x003c}"

lemma quiet_simps [simp]:
  "quiet (s\<lparr>regs := x1\<rparr>) = quiet s" "quiet (s\<lparr>cbusy := x2\<rparr>) = quiet s" "quiet (s\<lparr>locked := x3\<rparr>) = quiet s"
  "quiet (s\<lparr>core := x4\<rparr>) = quiet s" "quiet (mutex_lock s) = quiet s" "quiet (mutex_unlock s) = quiet s"
  by (simp_all add: quiet_def)

lemma idle_updates [simp]:
  "idle (s\<lparr>regs := x1\<rparr>) = idle s" "idle (s\<lparr>cbusy := x2\<rparr>) = idle s" "idle (s\<lparr>core := x3\<rparr>) = idle s"
  by (simp_all add: idle_def)

definition calm :: "mt6397_rtc \<Rightarrow> bool" where
  "calm s \<longleftrightarrow> quiet s \<and> idle s"

text \<open>What a write trigger has brought to the clock domain: everything that was written.\<close>

definition committed :: "mt6397_rtc \<Rightarrow> bool" where
  "committed s \<longleftrightarrow> core s = regs s"

lemma quiet_read: "quiet s \<Longrightarrow> a \<noteq> addr_base s \<Longrightarrow> regmap_read a s = (Inr (regs s a), s)"
  by (simp add: quiet_def regmap_read_def bus_access_def clock_tick_def)

lemma quiet_write:
  "quiet s \<Longrightarrow> a \<noteq> addr_base s + wrtgr s \<Longrightarrow> regmap_write a v s = (0, s\<lparr>regs := (regs s)(a := v)\<rparr>)"
  by (simp add: quiet_def regmap_write_def bus_access_def)

lemma quiet_update_bits:
  assumes "quiet s" "a \<noteq> addr_base s" "a \<noteq> addr_base s + wrtgr s"
  shows "regmap_update_bits a msk v s =
     (0, s\<lparr>regs := (regs s)(a := (regs s a AND NOT msk) OR (v AND msk))\<rparr>)"
  using quiet_read [OF assms(1,2)] quiet_write [OF assms(1,3)]
  by (simp add: regmap_update_bits_def Let_def)

lemma bit_cleared: "(x AND NOT k) AND k = (0::'a::len word)" and bit_set: "(x OR k) AND k = (k::'a::len word)"
  by (auto simp: bit_eq_iff bit_simps)

lemma cbusy_bits [simp]: "(x AND - 65) AND 64 = (0::u16)" "(x OR 64) AND 64 = (64::u16)"
  using bit_cleared [of x 64] bit_set [of x 64] by simp_all

lemma bbpu_read:
  assumes "bus s = []"
  shows "regmap_read (addr_base s + RTC_BBPU) s =
     (if cbusy s > 0 then (Inr (regs s (addr_base s) OR RTC_BBPU_CBUSY), s\<lparr>cbusy := cbusy s - 1\<rparr>)
      else (Inr (regs s (addr_base s) AND NOT RTC_BBPU_CBUSY), s))"
  using assms by (simp add: regmap_read_def bus_access_def clock_tick_def is_tc_reg_def)

lemma poll_cbusy_ready: "cbusy s \<le> n \<Longrightarrow> bus s = [] \<Longrightarrow> poll_cbusy n s = (0, s\<lparr>cbusy := 0\<rparr>)"
proof (induction n arbitrary: s)
  case 0
  then show ?case by (simp only: poll_cbusy.simps bbpu_read) simp
next
  case (Suc n)
  then show ?case
    by (cases "cbusy s") (simp_all only: poll_cbusy.simps bbpu_read, simp_all)
qed

lemma quiet_trigger:
  "quiet s \<Longrightarrow> mtk_rtc_write_trigger s =
     (0, s\<lparr>regs := (regs s)(addr_base s + wrtgr s := 1), core := (regs s)(addr_base s + wrtgr s := 1), cbusy := 0\<rparr>)"
  by (simp add: mtk_rtc_write_trigger_def regmap_write_def bus_access_def quiet_def poll_cbusy_ready)

lemma quiet_bulk_read:
  assumes "quiet s" "a - addr_base s \<in> {RTC_TC_SEC, RTC_AL_SEC}"
  shows "regmap_bulk_read a 7 s =
     (Inr [regs s a, regs s (a + 2), regs s (a + 4), regs s (a + 6), regs s (a + 8), regs s (a + 10), regs s (a + 12)], s)"
proof -
  have "a + 2 * of_nat i \<noteq> addr_base s" if "i < 7" for i
    using seven_less [OF that] assms(2) by (auto simp: diff_eq_eq)
  from this [of 0] this [of 1] this [of 2] this [of 3] this [of 4] this [of 5] this [of 6]
  show ?thesis using assms(1) by (simp add: eval_nat_numeral(2,3) numeral_2_eq_2 quiet_read add.assoc)
qed

lemma quiet_bulk_write:
  assumes "quiet s" "a \<in> {RTC_TC_SEC, RTC_AL_SEC}"
  shows "regmap_bulk_write (addr_base s + a) [d0, d1, d2, d3, d4, d5, d6] s =
     (0, s\<lparr>regs := (regs s)(addr_base s + a := d0, addr_base s + a + 2 := d1, addr_base s + a + 4 := d2,
        addr_base s + a + 6 := d3, addr_base s + a + 8 := d4, addr_base s + a + 10 := d5,
        addr_base s + a + 12 := d6)\<rparr>)"
proof -
  have w: "wrtgr s = 0x3a \<or> wrtgr s = 0x3c" using assms(1) by (simp add: quiet_def)
  show ?thesis
    using assms w by (elim insertE disjE emptyE) (simp_all add: quiet_write add.assoc)
qed

lemma uint_field:
  assumes "0 \<le> x" "x < 2 ^ k" "k < 16"
  shows "uint ((word_of_int x :: u16) AND mask k) = x"
proof -
  have "x < 2 ^ 16" using assms(2,3) power_strict_increasing [of k 16 "2::int"] by linarith
  then have "uint (word_of_int x :: u16) = x" using assms(1) by (simp add: uint_word_of_int)
  then show ?thesis
    using assms(1,2) by (simp add: unsigned_take_bit_eq take_bit_int_eq_self flip: take_bit_eq_mask)
qed

lemma uint_fields:
  "0 \<le> x \<Longrightarrow> x < 64 \<Longrightarrow> uint ((word_of_int x :: u16) AND 0x3f) = x"
  "0 \<le> x \<Longrightarrow> x < 32 \<Longrightarrow> uint ((word_of_int x :: u16) AND 0x1f) = x"
  "0 \<le> x \<Longrightarrow> x < 16 \<Longrightarrow> uint ((word_of_int x :: u16) AND 0x0f) = x"
  "0 \<le> x \<Longrightarrow> x < 128 \<Longrightarrow> uint ((word_of_int x :: u16) AND 0x7f) = x"
  using uint_field [of x 6] uint_field [of x 5] uint_field [of x 4] uint_field [of x 7]
  by (simp_all add: mask_eq_exp_minus_1)

definition tc_regs :: "mt6397_rtc \<Rightarrow> u32 \<Rightarrow> u16 list" where
  "tc_regs s a = [regs s (addr_base s + a), regs s (addr_base s + a + 2), regs s (addr_base s + a + 4),
     regs s (addr_base s + a + 6), regs s (addr_base s + a + 8), regs s (addr_base s + a + 10),
     regs s (addr_base s + a + 12)]"

lemma quiet_read_once:
  assumes "quiet s" "idle s"
  shows "mtk_rtc_read_time_once s tm = (Inr (tm_sec (tm_of_regs (tc_regs s RTC_TC_SEC) tm)),
     tm_of_regs (tc_regs s RTC_TC_SEC) tm, s)"
proof -
  have "quiet (mutex_lock s)" using assms by simp
  then have "regmap_bulk_read (addr_base s + RTC_TC_SEC) 7 (mutex_lock s) = (Inr (tc_regs s RTC_TC_SEC), mutex_lock s)"
    "regmap_read (addr_base s + RTC_TC_SEC) (mutex_lock s) = (Inr (regs s (addr_base s + RTC_TC_SEC)), mutex_lock s)"
    using quiet_bulk_read [of "mutex_lock s" "addr_base s + RTC_TC_SEC"] quiet_read [of "mutex_lock s"]
    by (simp_all add: tc_regs_def)
  then show ?thesis
    by (simp add: mtk_rtc_read_time_once_def tm_of_regs_def tc_regs_def mutex_unlock_def idle_simps [OF assms(2)]
        del: regmap_bulk_read.simps)
qed

text \<open>What the registers hold after a valid time was written, and how it reads.\<close>

definition holds_time :: "u16 list \<Rightarrow> rtc_time \<Rightarrow> bool" where
  "holds_time data tm \<longleftrightarrow> uint (data ! 0 AND rtc_masks ! 0) = tm_sec tm \<and>
     uint (data ! 1 AND rtc_masks ! 1) = tm_min tm \<and> uint (data ! 2 AND rtc_masks ! 2) = tm_hour tm \<and>
     uint (data ! 3 AND rtc_masks ! 3) = tm_mday tm \<and> uint (data ! 5 AND rtc_masks ! 5) = tm_mon tm + 1 \<and>
     uint (data ! 6 AND rtc_masks ! 6) = tm_year tm - RTC_MIN_YEAR_OFFSET"

lemma valid_tm_ranges:
  assumes "rtc_valid_tm tm = 0" "tm_ints tm"
  shows "0 \<le> tm_sec tm" "tm_sec tm < 60" "0 \<le> tm_min tm" "tm_min tm < 60" "0 \<le> tm_hour tm" "tm_hour tm < 24"
    "1 \<le> tm_mday tm" "tm_mday tm \<le> 31" "0 \<le> tm_mon tm" "tm_mon tm < 12" "70 \<le> tm_year tm"
proof -
  note v = rtc_valid_tm_iff [OF assms(2), THEN iffD1, OF assms(1)]
  then show "0 \<le> tm_sec tm" "tm_sec tm < 60" "0 \<le> tm_min tm" "tm_min tm < 60" "0 \<le> tm_hour tm" "tm_hour tm < 24"
    "1 \<le> tm_mday tm" "tm_mday tm \<le> 31" "0 \<le> tm_mon tm" "tm_mon tm < 12" "70 \<le> tm_year tm"
    using date_ok_day_of_year(3) [of "tm_year tm + 1900" "nat (tm_mon tm)" "tm_mday tm"]
    by (auto simp: date_ok_def)
qed

lemma quiet_set_time:
  assumes "quiet s" "rtc_valid_tm tm = 0" "tm_ints tm" "tm_year tm < 196" "idle s"
  obtains s' tm' where "mtk_rtc_set_time dow s tm = (0, tm', s')" "quiet s'" "idle s'" "committed s'"
    "addr_base s' = addr_base s" "holds_time (tc_regs s' RTC_TC_SEC) tm"
proof -
  note r = valid_tm_ranges [OF assms(2,3)]
  have w: "wrtgr s = 0x3a \<or> wrtgr s = 0x3c" using assms(1) by (simp add: quiet_def)
  define d0 d1 d2 d3 d5 d6 :: u16 where "d0 = word_of_int (tm_sec tm)" and "d1 = word_of_int (tm_min tm)"
    and "d2 = word_of_int (tm_hour tm)" and "d3 = word_of_int (tm_mday tm)"
    and "d5 = word_of_int (tm_mon tm + 1)" and "d6 = word_of_int (tm_year tm - 68)"
  note d = d0_def d1_def d2_def d3_def d5_def d6_def
  have f: "uint (d0 AND 0x3f) = tm_sec tm" "uint (d1 AND 0x3f) = tm_min tm" "uint (d2 AND 0x1f) = tm_hour tm"
    "uint (d3 AND 0x1f) = tm_mday tm" "uint (d5 AND 0x0f) = tm_mon tm + 1" "uint (d6 AND 0x7f) = tm_year tm - 68"
    unfolding d using r assms(4) by (intro uint_fields; simp)+
  define s1 where "s1 = (mutex_lock s)\<lparr>regs := (regs s)(addr_base s + 0xa := d0, addr_base s + 0xc := d1,
    addr_base s + 0xe := d2, addr_base s + 0x10 := d3, addr_base s + 0x12 := dow, addr_base s + 0x14 := d5,
    addr_base s + 0x16 := d6)\<rparr>"
  have s1: "regmap_bulk_write (addr_base s + RTC_TC_SEC) [d0, d1, d2, d3, dow, d5, d6] (mutex_lock s) = (0, s1)"
    using quiet_bulk_write [of "mutex_lock s" RTC_TC_SEC] assms(1)
    by (simp add: s1_def add.assoc del: regmap_bulk_write.simps)
  have q1: "quiet s1" "addr_base s1 = addr_base s" "wrtgr s1 = wrtgr s" "idle (mutex_unlock s1)"
    using assms(1,5) by (simp_all add: s1_def idle_simps) (simp add: idle_def mutex_unlock_def)
  define s2 where "s2 = mutex_unlock (s1\<lparr>regs := (regs s1)(addr_base s1 + wrtgr s1 := 1),
    core := (regs s1)(addr_base s1 + wrtgr s1 := 1), cbusy := 0\<rparr>)"
  have "s32 (tm_year tm - 68) = tm_year tm - 68" "s32 (tm_mon tm + 1) = tm_mon tm + 1" using r assms(4) by simp_all
  then have "mtk_rtc_set_time dow s tm = (0, tm\<lparr>tm_year := tm_year tm - 68, tm_mon := tm_mon tm + 1\<rparr>, s2)"
    using s1 [unfolded d] quiet_trigger [OF q1(1)]
    by (simp add: mtk_rtc_set_time_def Let_def s2_def del: regmap_bulk_write.simps)
  moreover have "holds_time (tc_regs s2 RTC_TC_SEC) tm"
    using q1(2,3) w f
    by (elim disjE) (simp_all add: s2_def holds_time_def tc_regs_def rtc_masks_def s1_def add.assoc)
  moreover have "quiet s2" "idle s2" "committed s2" "addr_base s2 = addr_base s"
    using q1 by (simp_all add: s2_def idle_def committed_def mutex_unlock_def)
  ultimately show ?thesis using that by blast
qed

lemma quiet_read_time:
  assumes "quiet s" "holds_time (tc_regs s RTC_TC_SEC) tm" "rtc_valid_tm tm = 0" "tm_ints tm" "tm_year tm < 196" "idle s"
  obtains tm' where "mtk_rtc_read_time (Suc n) s tm0 = Some (0, tm', s)"
    "tm_sec tm' = tm_sec tm" "tm_min tm' = tm_min tm" "tm_hour tm' = tm_hour tm" "tm_mday tm' = tm_mday tm"
    "tm_mon tm' = tm_mon tm" "tm_year tm' = tm_year tm"
    "tm_wday tm' = (civil_days (tm_year tm + 1900) (nat (tm_mon tm)) (tm_mday tm) + 4) mod 7"
proof -
  note r = valid_tm_ranges [OF assms(3,4)]
  define D where "D = civil_days (tm_year tm + 1900) (nat (tm_mon tm)) (tm_mday tm)"
  define t1 where "t1 = (tm_of_regs (tc_regs s RTC_TC_SEC) tm0)\<lparr>tm_year := tm_year tm, tm_mon := tm_mon tm\<rparr>"
  have t1: "tm_sec t1 = tm_sec tm" "tm_min t1 = tm_min tm" "tm_hour t1 = tm_hour tm" "tm_mday t1 = tm_mday tm"
    "tm_mon t1 = tm_mon tm" "tm_year t1 = tm_year tm"
    using assms(2) by (simp_all add: t1_def tm_of_regs_def holds_time_def)
  have time: "rtc_tm_to_time64 t1 = ((D * 24 + tm_hour tm) * 60 + tm_min tm) * 60 + tm_sec tm"
    using rtc_tm_to_time64_civil [OF assms(3,4)] assms(5) by (simp add: rtc_tm_to_time64_def t1 D_def)
  have ok: "date_ok (tm_year tm + 1900) (nat (tm_mon tm)) (tm_mday tm)"
    using rtc_valid_tm_iff [OF assms(4)] assms(3) by simp
  have D: "0 \<le> D" "D < 2147483648" "D \<le> 46020"
    using civil_days_range [OF ok] civil_days_bound [OF ok] r(11) assms(5) by (simp_all add: D_def)
  have "rtc_tm_to_time64 t1 sdiv 86400 = D"
    unfolding time using D(1) r(1-6) by (subst sdiv_pos) (simp_all only: hms_split, simp_all)
  then have wday: "s32 (s32 (rtc_tm_to_time64 t1 sdiv 86400) + 4) smod 7 = (D + 4) mod 7"
    using D smod_pos [of "D + 4" 7] by simp
  have "tm_year (tm_of_regs (tc_regs s RTC_TC_SEC) tm0) = tm_year tm - 68"
    "tm_mon (tm_of_regs (tc_regs s RTC_TC_SEC) tm0) = tm_mon tm + 1"
    using assms(2) by (simp_all add: tm_of_regs_def holds_time_def)
  then have "mtk_rtc_read_time (Suc n) s tm0 = Some (0, t1\<lparr>tm_wday := (D + 4) mod 7\<rparr>, s)"
    using quiet_read_once [OF assms(1,6)] r(9-11) assms(5) wday
    by (simp add: mtk_rtc_read_time_def Let_def t1_def)
  then show ?thesis using that [of "t1\<lparr>tm_wday := (D + 4) mod 7\<rparr>"] t1 by (simp add: D_def)
qed

lemma al_merge_field:
  "al_merge data i x AND rtc_masks ! i = word_of_int x AND rtc_masks ! i"
  unfolding al_merge_def by (auto simp: bit_eq_iff bit_simps)

lemma or_inside:
  fixes x :: "'a::len word"
  assumes "k AND m = m"
  shows "(x OR k) AND m = m"
  using assms by (auto simp: bit_eq_iff bit_simps)

lemma alarm_next_second:
  assumes "rtc_valid_tm tm = 0" "tm_ints tm" "tm_year tm < 195"
  defines "tm' \<equiv> rtc_time64_to_tm (rtc_tm_to_time64 tm + 1)"
  shows "rtc_ktime_to_tm (s64 (rtc_tm_to_ktime tm + NSEC_PER_SEC)) = tm'" "rtc_valid_tm tm' = 0" "tm_ints tm'"
    "tm_year tm' < 196"
proof -
  note r = valid_tm_ranges [OF assms(1,2)]
  define t where "t = rtc_tm_to_time64 tm"
  define D where "D = civil_days (tm_year tm + 1900) (nat (tm_mon tm)) (tm_mday tm)"
  have ok: "date_ok (tm_year tm + 1900) (nat (tm_mon tm)) (tm_mday tm)"
    using rtc_valid_tm_iff [OF assms(2)] assms(1) by simp
  have new_year: "date_ok 2095 0 1" "civil_days 2095 0 1 = 45656"
    by (simp_all add: date_ok_def rtc_month_days_def rtc_days_in_month_def civil_days_def rtc_ydays_def
        days_thru_def is_leap_year_def)
  have D: "0 \<le> D" "D < 45656"
    using civil_days_range(1) [OF ok] civil_days_year_less [OF ok new_year(1)] new_year(2) r(11) assms(3)
    by (simp_all add: D_def)
  have t: "t = ((D * 24 + tm_hour tm) * 60 + tm_min tm) * 60 + tm_sec tm"
    using rtc_tm_to_time64_civil [OF assms(1,2)] assms(3) by (simp add: t_def D_def)
  then have t0: "0 \<le> t" "t + 1 \<le> 45656 * 86400" using D r by simp_all
  then show "rtc_ktime_to_tm (s64 (rtc_tm_to_ktime tm + NSEC_PER_SEC)) = tm'"
    using rtc_ktime_postpone [of tm] by (simp add: tm'_def t_def)
  have d: "(t + 1) div 86400 \<le> 45656" "(t + 1) div 86400 < 2147483648" using t0 by simp_all
  then show v: "rtc_valid_tm tm' = 0" "tm_ints tm'"
    using rtc_time64_to_tm_valid [of "t + 1"] t0(1) by (simp_all add: tm'_def t_def)
  have "civil_days (tm_year tm' + 1900) (nat (tm_mon tm')) (tm_mday tm') = (t + 1) div 86400"
    using rtc_time64_to_tm_date(5) [of "t + 1"] t0(1) d(2) by (simp add: tm'_def t_def)
  moreover have "date_ok (tm_year tm' + 1900) (nat (tm_mon tm')) (tm_mday tm')"
    using rtc_valid_tm_iff [OF v(2)] v(1) by simp
  ultimately show "tm_year tm' < 196"
    using civil_days_year_less [OF new_year(1), of "tm_year tm' + 1900" "nat (tm_mon tm')" "tm_mday tm'"]
      new_year(2) d(1) by (cases "tm_year tm' < 196") auto
qed

lemma quiet_program_alarm:
  fixes d0 d1 d2 d3 d4 d5 d6 :: u16
  assumes "quiet s"
  defines "f \<equiv> (regs s)(addr_base s + 0x18 := d0, addr_base s + 0x1a := d1, addr_base s + 0x1c := d2,
        addr_base s + 0x1e := d3, addr_base s + 0x20 := d4, addr_base s + 0x22 := d5, addr_base s + 0x24 := d6,
        addr_base s + RTC_AL_MASK := RTC_AL_MASK_DOW,
        addr_base s + RTC_IRQ_EN := (regs s (addr_base s + RTC_IRQ_EN) AND NOT RTC_IRQ_EN_ONESHOT_AL) OR RTC_IRQ_EN_ONESHOT_AL,
        addr_base s + wrtgr s := 1)"
  shows "mtk_rtc_program_alarm s True [d0, d1, d2, d3, d4, d5, d6] = (0, s\<lparr>regs := f, core := f, cbusy := 0\<rparr>)"
proof -
  have w: "wrtgr s = 0x3a \<or> wrtgr s = 0x3c" using assms(1) by (simp add: quiet_def)
  show ?thesis
    using w quiet_bulk_write [OF assms(1), of RTC_AL_SEC] assms(1)
    by (elim disjE)
      (simp_all add: mtk_rtc_program_alarm_def quiet_write quiet_update_bits quiet_trigger add.assoc f_def
        del: regmap_bulk_write.simps)
qed

lemma quiet_set_alarm:
  assumes "quiet s" "rtc_valid_tm (alm_time alm) = 0" "tm_ints (alm_time alm)" "tm_year (alm_time alm) < 195"
    and "alm_enabled alm = 1" "idle s"
  obtains s' alm' where "mtk_rtc_set_alarm s alm = (0, alm', s')" "quiet s'" "idle s'" "committed s'"
    "addr_base s' = addr_base s" "regs s' (addr_base s + RTC_IRQ_EN) AND RTC_IRQ_EN_AL = 1"
    "holds_time (tc_regs s' RTC_AL_SEC) (rtc_time64_to_tm (rtc_tm_to_time64 (alm_time alm) + 1))"
proof -
  define tm where "tm = rtc_time64_to_tm (rtc_tm_to_time64 (alm_time alm) + 1)"
  note nxt = alarm_next_second [OF assms(2-4), folded tm_def]
  note r = valid_tm_ranges [OF nxt(2,3)]
  have w: "wrtgr s = 0x3a \<or> wrtgr s = 0x3c" using assms(1) by (simp add: quiet_def)
  have s32: "s32 (tm_year tm - 68) = tm_year tm - 68" "s32 (tm_mon tm + 1) = tm_mon tm + 1" using r nxt(4) by simp_all
  define s1 where "s1 = (mutex_lock s)\<lparr>regs := (regs s)(addr_base s + RTC_PDN2 :=
      (regs s (addr_base s + RTC_PDN2) AND NOT RTC_PDN2_PWRON_ALARM) OR (0 AND RTC_PDN2_PWRON_ALARM))\<rparr>"
  have upd: "regmap_update_bits (addr_base s + RTC_PDN2) RTC_PDN2_PWRON_ALARM 0 (mutex_lock s) = (0, s1)"
    using quiet_update_bits [of "mutex_lock s"] assms(1) w by (auto simp: s1_def)
  define s2 where "s2 = s1\<lparr>regs := (regs s1)(addr_base s1 + wrtgr s1 := 1),
    core := (regs s1)(addr_base s1 + wrtgr s1 := 1), cbusy := 0\<rparr>"
  have q2: "quiet s2" "addr_base s2 = addr_base s" "wrtgr s2 = wrtgr s" "addr_base s1 = addr_base s"
    using assms(1) by (simp_all add: s2_def s1_def)
  have i2: "idle (mutex_unlock s2)" using assms(6) by (simp add: s2_def s1_def idle_simps) (simp add: idle_def mutex_unlock_def)
  have trig: "mtk_rtc_write_trigger s1 = (0, s2)"
    using quiet_trigger [of s1] assms(1) by (simp add: s1_def s2_def)
  define data where "data = tc_regs s2 RTC_AL_SEC"
  have read: "regmap_bulk_read (addr_base s + RTC_AL_SEC) 7 s2 = (Inr data, s2)"
    using quiet_bulk_read [OF q2(1), of "addr_base s + RTC_AL_SEC"] q2(2) by (simp add: data_def tc_regs_def)
  define d0 d1 d2 d3 d5 d6 where d: "d0 = al_merge data 0 (tm_sec tm)" "d1 = al_merge data 1 (tm_min tm)"
    "d2 = al_merge data 2 (tm_hour tm)" "d3 = al_merge data 3 (tm_mday tm)"
    "d5 = al_merge data 5 (tm_mon tm + 1)" "d6 = al_merge data 6 (tm_year tm - 68)"
  obtain s3 where s3: "mtk_rtc_program_alarm s2 True [d0, d1, d2, d3, data ! 4, d5, d6] = (0, s3)"
    "quiet s3" "addr_base s3 = addr_base s" "tc_regs s3 RTC_AL_SEC = [d0, d1, d2, d3, data ! 4, d5, d6]"
    "regs s3 (addr_base s + RTC_IRQ_EN) AND RTC_IRQ_EN_AL = 1" "committed s3" "stuck s3 = stuck s2"
    using quiet_program_alarm [OF q2(1)] q2 w or_inside [of "5::u16" 1]
    by (elim disjE) (simp_all add: tc_regs_def add.assoc committed_def)
  have "uint (d0 AND rtc_masks ! 0) = tm_sec tm" "uint (d1 AND rtc_masks ! 1) = tm_min tm"
    "uint (d2 AND rtc_masks ! 2) = tm_hour tm" "uint (d3 AND rtc_masks ! 3) = tm_mday tm"
    "uint (d5 AND rtc_masks ! 5) = tm_mon tm + 1" "uint (d6 AND rtc_masks ! 6) = tm_year tm - 68"
    unfolding d al_merge_field
    using uint_fields(1) [of "tm_sec tm"] uint_fields(1) [of "tm_min tm"] uint_fields(2) [of "tm_hour tm"]
      uint_fields(2) [of "tm_mday tm"] uint_fields(3) [of "tm_mon tm + 1"] uint_fields(4) [of "tm_year tm - 68"]
      r nxt(4) by (simp_all add: rtc_masks_def)
  then have f: "holds_time [d0, d1, d2, d3, data ! 4, d5, d6] tm" by (simp add: holds_time_def)
  have "mtk_rtc_set_alarm s alm = (0, alm\<lparr>alm_time := tm\<lparr>tm_year := tm_year tm - 68, tm_mon := tm_mon tm + 1\<rparr>\<rparr>,
      mutex_unlock s3)"
    using assms(5) s3(1) [unfolded d]
    by (simp add: mtk_rtc_set_alarm_def nxt(1) s32 upd trig read q2(2,4) Let_def)
  then show ?thesis
    using that [of _ "mutex_unlock s3"] s3(2-7) f i2
    by (simp add: tc_regs_def idle_def committed_def flip: tm_def)
qed

lemma quiet_read_alarm:
  assumes "quiet s" "holds_time (tc_regs s RTC_AL_SEC) tm" "regs s (addr_base s + RTC_IRQ_EN) AND RTC_IRQ_EN_AL = 1"
    and "rtc_valid_tm tm = 0" "tm_ints tm" "tm_year tm < 196" "idle s"
  obtains a where "mtk_rtc_read_alarm s alm = (0, a, s)" "alm_enabled a = 1"
    "tm_sec (alm_time a) = tm_sec tm" "tm_min (alm_time a) = tm_min tm" "tm_hour (alm_time a) = tm_hour tm"
    "tm_mday (alm_time a) = tm_mday tm" "tm_mon (alm_time a) = tm_mon tm" "tm_year (alm_time a) = tm_year tm"
proof -
  note r = valid_tm_ranges [OF assms(4,5)]
  have q: "quiet (mutex_lock s)" using assms(1) by simp
  have 1: "regmap_read (addr_base s + RTC_IRQ_EN) (mutex_lock s) = (Inr (regs s (addr_base s + RTC_IRQ_EN)), mutex_lock s)"
    "regmap_read (addr_base s + RTC_PDN2) (mutex_lock s) = (Inr (regs s (addr_base s + RTC_PDN2)), mutex_lock s)"
    using quiet_read [OF q] by simp_all
  have 2: "regmap_bulk_read (addr_base s + RTC_AL_SEC) 7 (mutex_lock s) = (Inr (tc_regs s RTC_AL_SEC), mutex_lock s)"
    using quiet_bulk_read [OF q, of "addr_base s + RTC_AL_SEC"] by (simp add: tc_regs_def)
  have "mutex_unlock (mutex_lock s) = s" by (simp add: mutex_unlock_def idle_simps [OF assms(7)])
  then show ?thesis
    using assms(2,3,6) r that 1 2
    by (simp add: mtk_rtc_read_alarm_def tm_of_regs_def holds_time_def Let_def del: regmap_bulk_read.simps)
qed

section \<open>Reading a running clock\<close>

text \<open>
  What a tick of the clock does: the seconds count up and nothing else changes, or they go from
  59 to 0 (and the chip carries into the other registers).
\<close>

definition tick_law :: "mt6397_rtc \<Rightarrow> bool" where
  "tick_law s \<longleftrightarrow>
     (let f = regs s; f' = hw_tick s (regs s); b = addr_base s
      in (uint (f' (b + 0x0a) AND rtc_masks ! 0) = uint (f (b + 0x0a) AND rtc_masks ! 0) + 1 \<and>
          f' (b + 0x0c) = f (b + 0x0c) \<and> f' (b + 0x0e) = f (b + 0x0e) \<and> f' (b + 0x10) = f (b + 0x10) \<and>
          f' (b + 0x14) = f (b + 0x14) \<and> f' (b + 0x16) = f (b + 0x16)) \<or>
         (uint (f' (b + 0x0a) AND rtc_masks ! 0) = 0 \<and> uint (f (b + 0x0a) AND rtc_masks ! 0) = 59))"

lemma tc_read:
  assumes "bus s = []" "ticks s = b # bs" "off \<in> {0x0a, 0x0c, 0x0e, 0x10, 0x12, 0x14, 0x16}"
  shows "regmap_read (addr_base s + off) s =
     (Inr ((if b then hw_tick s (regs s) else regs s) (addr_base s + off)),
      s\<lparr>ticks := bs, regs := (if b then hw_tick s (regs s) else regs s), core := (if b then hw_tick s (core s) else core s)\<rparr>)"
proof -
  have "is_tc_reg s (addr_base s + off)" "addr_base s + off \<noteq> addr_base s"
    using assms(3) by (auto simp: is_tc_reg_def)
  then show ?thesis using assms(1,2) by (simp add: regmap_read_def bus_access_def clock_tick_def)
qed

lemma tc_bulk_read:
  assumes "bus s = []" "ticks s = b0 # b1 # b2 # b3 # b4 # b5 # b6 # rest"
    and t: "\<And>b f. t b f = (if b then hw_tick s f else f)"
    and f: "f0 = t b0 (regs s)" "f1 = t b1 f0" "f2 = t b2 f1" "f3 = t b3 f2" "f4 = t b4 f3" "f5 = t b5 f4" "f6 = t b6 f5"
  shows "\<exists>c. regmap_bulk_read (addr_base s + RTC_TC_SEC) 7 s =
     (Inr [f0 (addr_base s + 0x0a), f1 (addr_base s + 0x0c), f2 (addr_base s + 0x0e), f3 (addr_base s + 0x10),
           f4 (addr_base s + 0x12), f5 (addr_base s + 0x14), f6 (addr_base s + 0x16)],
      s\<lparr>ticks := rest, regs := f6, core := c\<rparr>)"
proof -
  define st where "st = (\<lambda>ts f c. s\<lparr>ticks := ts, regs := f, core := c\<rparr>)"
  have rd: "regmap_read (addr_base s + off) (st (b # bs) f c) = (Inr (t b f (addr_base s + off)), st bs (t b f) (t b c))"
    if "off \<in> {0x0a, 0x0c, 0x0e, 0x10, 0x12, 0x14, 0x16}" for off b bs f c
    using tc_read [of "st (b # bs) f c" b bs off] that assms(1) by (simp add: st_def t)
  have "s = st (b0 # b1 # b2 # b3 # b4 # b5 # b6 # rest) (regs s) (core s)" using assms(2) by (simp add: st_def)
  moreover have "\<exists>c. regmap_bulk_read (addr_base s + RTC_TC_SEC) 7 (st (b0 # b1 # b2 # b3 # b4 # b5 # b6 # rest) (regs s) (core s)) =
     (Inr [f0 (addr_base s + 0x0a), f1 (addr_base s + 0x0c), f2 (addr_base s + 0x0e), f3 (addr_base s + 0x10),
           f4 (addr_base s + 0x12), f5 (addr_base s + 0x14), f6 (addr_base s + 0x16)], st rest f6 c)"
    by (simp add: eval_nat_numeral(2,3) numeral_2_eq_2 rd add.assoc f) blast
  ultimately show ?thesis by (simp add: st_def)
qed

lemma read_once_ticks:
  assumes "bus s = []" "ticks s = b0 # b1 # b2 # b3 # b4 # b5 # b6 # b7 # rest"
    and t: "\<And>b f. t b f = (if b then hw_tick s f else f)"
    and f: "f0 = t b0 (regs s)" "f1 = t b1 f0" "f2 = t b2 f1" "f3 = t b3 f2" "f4 = t b4 f3" "f5 = t b5 f4" "f6 = t b6 f5"
    and f7: "f7 = t b7 f6"
  shows "\<exists>s'. mtk_rtc_read_time_once s tm =
     (Inr (uint (f7 (addr_base s + 0x0a) AND rtc_masks ! 0)),
      tm_of_regs [f0 (addr_base s + 0x0a), f1 (addr_base s + 0x0c), f2 (addr_base s + 0x0e), f3 (addr_base s + 0x10),
           f4 (addr_base s + 0x12), f5 (addr_base s + 0x14), f6 (addr_base s + 0x16)] tm, s')"
proof -
  define s1 where "s1 = mutex_lock s"
  have s1: "bus s1 = []" "ticks s1 = b0 # b1 # b2 # b3 # b4 # b5 # b6 # (b7 # rest)" "addr_base s1 = addr_base s"
    "hw_tick s1 = hw_tick s" "regs s1 = regs s" using assms(1,2) by (simp_all add: s1_def)
  have "\<exists>c. regmap_bulk_read (addr_base s1 + RTC_TC_SEC) 7 s1 =
     (Inr [f0 (addr_base s1 + 0x0a), f1 (addr_base s1 + 0x0c), f2 (addr_base s1 + 0x0e), f3 (addr_base s1 + 0x10),
           f4 (addr_base s1 + 0x12), f5 (addr_base s1 + 0x14), f6 (addr_base s1 + 0x16)],
      s1\<lparr>ticks := b7 # rest, regs := f6, core := c\<rparr>)"
    using s1(1,2) by (rule tc_bulk_read [where t = t]) (use t f s1(4,5) in simp_all)
  then obtain c where c: "regmap_bulk_read (addr_base s1 + RTC_TC_SEC) 7 s1 =
     (Inr [f0 (addr_base s1 + 0x0a), f1 (addr_base s1 + 0x0c), f2 (addr_base s1 + 0x0e), f3 (addr_base s1 + 0x10),
           f4 (addr_base s1 + 0x12), f5 (addr_base s1 + 0x14), f6 (addr_base s1 + 0x16)],
      s1\<lparr>ticks := b7 # rest, regs := f6, core := c\<rparr>)" by blast
  have "\<exists>s2. regmap_read (addr_base s + RTC_TC_SEC) (s1\<lparr>ticks := b7 # rest, regs := f6, core := c\<rparr>) =
      (Inr (f7 (addr_base s + 0x0a)), s2)"
    using tc_read [of "s1\<lparr>ticks := b7 # rest, regs := f6, core := c\<rparr>" b7 rest RTC_TC_SEC] s1 by (simp add: f7 t)
  then show ?thesis
    using c by (auto simp: mtk_rtc_read_time_once_def s1_def [symmetric] s1(3) Let_def simp del: regmap_bulk_read.simps)
qed

lemma one_tick_consistent:
  assumes "bus s = []" "k \<le> 7" "ticks s = replicate k False @ True # replicate (7 - k) False @ rest" "tick_law s"
    and "mtk_rtc_read_time_once s tm = (Inr sec, tm', s')" "\<not> sec < tm_sec tm'"
  shows "tm' = tm_of_regs (tc_regs s RTC_TC_SEC) tm \<or>
     tm' = tm_of_regs (tc_regs (s\<lparr>regs := hw_tick s (regs s)\<rparr>) RTC_TC_SEC) tm"
proof -
  have "k \<in> {0, 1, 2, 3, 4, 5, 6, 7}" using assms(2) by auto
  then have b: "ticks s = (k = 0) # (k = 1) # (k = 2) # (k = 3) # (k = 4) # (k = 5) # (k = 6) # (k = 7) # rest"
    using assms(3) by (auto simp: eval_nat_numeral(2,3) numeral_2_eq_2)
  define t where "t = (\<lambda>b f. if b then hw_tick s f else f)"
  note once = read_once_ticks [OF assms(1) b, of t, OF _ refl refl refl refl refl refl refl refl, of tm]
  show ?thesis
    using once \<open>k \<in> _\<close> assms(4-6)
    by (elim insertE emptyE)
      (simp_all add: t_def, auto simp: tick_law_def tc_regs_def tm_of_regs_def Let_def add.assoc)
qed

lemma is_tc_reg_bus [simp]: "is_tc_reg (s\<lparr>bus := x\<rparr>) a = is_tc_reg s a"
  by (simp add: is_tc_reg_def)

text \<open>The ticks still to come; an access without one of them leaves the registers as they were.\<close>

abbreviation (input) to_come :: "mt6397_rtc \<Rightarrow> nat" where
  "to_come s \<equiv> length (filter (\<lambda>b. b) (ticks s))"

lemma read_ticks:
  assumes "regmap_read a s = (Inr v, s')"
  shows "addr_base s' = addr_base s" "to_come s' \<le> to_come s"
    "to_come s' = to_come s \<Longrightarrow> regs s' = regs s \<and> (a \<noteq> addr_base s \<longrightarrow> v = regs s a)"
  using assms
  by (auto simp: regmap_read_def bus_access_def clock_tick_def Let_def split: if_splits list.splits)

lemma bulk_read_ticks:
  assumes "regmap_bulk_read a n s = (Inr vs, s')"
  shows "addr_base s' = addr_base s \<and> to_come s' \<le> to_come s \<and>
     (to_come s' = to_come s \<longrightarrow> regs s' = regs s \<and> (a \<noteq> addr_base s \<and> 0 < n \<longrightarrow> vs ! 0 = regs s a))"
  using assms
proof (induction n arbitrary: a s vs)
  case (Suc n)
  obtain v s1 ws where 1: "regmap_read a s = (Inr v, s1)" "regmap_bulk_read (a + 2) n s1 = (Inr ws, s')" "vs = v # ws"
    using Suc.prems by (auto split: prod.splits sum.splits)
  show ?case using read_ticks [OF 1(1)] Suc.IH [OF 1(2)] 1(3) by auto
qed simp

lemma read_once_progress:
  assumes "mtk_rtc_read_time_once s tm = (Inr sec, tm', s')" "sec < tm_sec tm'"
  shows "to_come s' < to_come s"
proof -
  define s0 where "s0 = mutex_lock s"
  have s0: "addr_base s0 = addr_base s" "ticks s0 = ticks s" by (simp_all add: s0_def)
  obtain data s1 v s2 where 1: "regmap_bulk_read (addr_base s0 + RTC_TC_SEC) 7 s0 = (Inr data, s1)"
    and 2: "regmap_read (addr_base s1 + RTC_TC_SEC) s1 = (Inr v, s2)" and e: "sec = uint (v AND rtc_masks ! 0)"
    "tm' = tm_of_regs data tm" "s' = mutex_unlock s2"
    using assms(1)
    by (auto simp: mtk_rtc_read_time_once_def s0_def Let_def split: prod.splits sum.splits)
  note b = bulk_read_ticks [OF 1] and r = read_ticks [OF 2]
  have "to_come s2 \<noteq> to_come s"
  proof
    assume "to_come s2 = to_come s"
    then have "to_come s1 = to_come s0" "to_come s2 = to_come s1" using b r(2) s0 by auto
    then have "data ! 0 = regs s0 (addr_base s0 + RTC_TC_SEC)" "v = regs s0 (addr_base s0 + RTC_TC_SEC)"
      using b r(3) by auto
    then show False using assms(2) e(1,2) by (simp add: tm_of_regs_def)
  qed
  then have "to_come s2 < to_come s" using b r(2) s0 by auto
  then show ?thesis using e(3) by simp
qed

lemma read_time_loop_returns: "to_come s < fuel \<Longrightarrow> \<exists>r. mtk_rtc_read_time_loop fuel s tm = Some r"
proof (induction fuel arbitrary: s tm)
  case (Suc fuel)
  obtain x tm' s' where 1: "mtk_rtc_read_time_once s tm = (x, tm', s')" by (cases "mtk_rtc_read_time_once s tm")
  show ?case
  proof (cases x)
    case (Inr sec)
    show ?thesis
    proof (cases "sec < tm_sec tm'")
      case True
      have "to_come s' < fuel" using read_once_progress [OF 1 [unfolded Inr] True] Suc.prems by simp
      with Suc.IH show ?thesis using 1 Inr True by simp
    qed (use 1 Inr in simp)
  qed (use 1 in simp)
qed simp

text \<open>After a loss of power the registers hold what the clock domain kept.\<close>

definition rtc_power_cycle :: "mt6397_rtc \<Rightarrow> mt6397_rtc" where
  "rtc_power_cycle rtc = rtc\<lparr>locked := False, stuck := False, irq_updates := 0, regs := core rtc, cbusy := 0\<rparr>"

lemma quiet_power_cycle [simp]: "quiet (rtc_power_cycle s) = quiet s" "idle (rtc_power_cycle s)"
  "addr_base (rtc_power_cycle s) = addr_base s"
  "core (rtc_power_cycle s) = core s" "regs (rtc_power_cycle s) = core s"
  by (simp_all add: rtc_power_cycle_def quiet_def idle_def)

section \<open>Properties\<close>

text \<open>
  C15: on a chip without bus errors whose clock does not tick meanwhile, a valid time up to the year 2095 that is set
  reads back unchanged, with the right day of the week, now and after a loss of power, which only what the write
  trigger brought to the clock domain survives; the mutex is free afterwards and was never waited for.
\<close>

theorem rtc_set_then_read_time:
  assumes "quiet rtc" "idle rtc" "rtc_valid_tm tm = 0" "tm_ints tm" "tm_year tm < 196"
    and "gap = id \<or> gap = rtc_power_cycle"
  shows "\<exists>tmw rtc1 tm' rtc2. mtk_rtc_set_time dow rtc tm = (0, tmw, rtc1) \<and> idle rtc1 \<and>
     mtk_rtc_read_time (Suc n) (gap rtc1) tm0 = Some (0, tm', rtc2) \<and> idle rtc2 \<and>
     tm_sec tm' = tm_sec tm \<and> tm_min tm' = tm_min tm \<and> tm_hour tm' = tm_hour tm \<and> tm_mday tm' = tm_mday tm \<and>
     tm_mon tm' = tm_mon tm \<and> tm_year tm' = tm_year tm \<and>
     tm_wday tm' = (civil_days (tm_year tm + 1900) (nat (tm_mon tm)) (tm_mday tm) + 4) mod 7"
proof -
  obtain s' tmw where 1: "mtk_rtc_set_time dow rtc tm = (0, tmw, s')" "quiet s'" "idle s'" "committed s'"
    "holds_time (tc_regs s' RTC_TC_SEC) tm" using quiet_set_time [OF assms(1,3-5,2)] by blast
  have c: "quiet (gap s')" "idle (gap s')" "holds_time (tc_regs (gap s') RTC_TC_SEC) tm"
    using assms(6) 1(2-5) by (auto simp: tc_regs_def committed_def)
  obtain tm' where 2: "mtk_rtc_read_time (Suc n) (gap s') tm0 = Some (0, tm', gap s')"
    "tm_sec tm' = tm_sec tm" "tm_min tm' = tm_min tm" "tm_hour tm' = tm_hour tm" "tm_mday tm' = tm_mday tm"
    "tm_mon tm' = tm_mon tm" "tm_year tm' = tm_year tm"
    "tm_wday tm' = (civil_days (tm_year tm + 1900) (nat (tm_mon tm)) (tm_mday tm) + 4) mod 7"
    using quiet_read_time [OF c(1,3) assms(3-5) c(2)] by blast
  then show ?thesis using 1(1,3) c(2) by blast
qed

definition rtc_example :: mt6397_rtc where
  "rtc_example = \<lparr>addr_base = 0x588, wrtgr = RTC_WRTGR_MT6358, locked = False, stuck = False, irq_updates = 0, regs = (\<lambda>_. 0),
     core = (\<lambda>_. 0), bus = [], ticks = [], hw_tick = (\<lambda>f. f(0x592 := f 0x592 + 1)), cbusy = 0, busy_after = 2, patience = 3\<rparr>"

definition tm_example :: rtc_time where
  "tm_example = \<lparr>tm_sec = 59, tm_min = 59, tm_hour = 23, tm_mday = 29, tm_mon = 1, tm_year = 124,
     tm_wday = 0, tm_yday = 0, tm_isdst = 0\<rparr>"

lemma example_ok [simp]:
  "quiet rtc_example" "idle rtc_example" "calm rtc_example" "chip_ok rtc_example" "rtc_valid_tm tm_example = 0" "tm_ints tm_example"
  "tm_sec tm_example = 59" "tm_min tm_example = 59" "tm_hour tm_example = 23" "tm_mday tm_example = 29"
  "tm_mon tm_example = 1" "tm_year tm_example = 124"
  by (simp_all add: rtc_example_def tm_example_def quiet_def idle_def calm_def chip_ok_def rtc_valid_tm_def tm_ints_def
      rtc_month_days_def rtc_days_in_month_def is_leap_year_def)

theorem rtc_set_then_read_time_witness:
  "\<exists>tmw rtc1 tm' rtc2. mtk_rtc_set_time 7 rtc_example tm_example = (0, tmw, rtc1) \<and>
     mtk_rtc_read_time 1 (rtc_power_cycle rtc1) tm_example = Some (0, tm', rtc2) \<and>
     tm_sec tm' = 59 \<and> tm_min tm' = 59 \<and> tm_hour tm' = 23 \<and> tm_mday tm' = 29 \<and> tm_mon tm' = 1 \<and>
     tm_year tm' = 124 \<and> tm_wday tm' = 4"
  using rtc_set_then_read_time [of rtc_example tm_example rtc_power_cycle 7 0 tm_example]
  by (auto simp: civil_days_def days_thru_def rtc_ydays_def is_leap_year_def)

text \<open>
  C23: on a chip without bus errors whose clock does not tick meanwhile, an alarm set for a valid time up to the year
  2094 reads back as enabled, at the next second of the calendar (the driver postpones it by one second), now and after
  a loss of power; the mutex is free afterwards and was never waited for.
\<close>

theorem rtc_set_then_read_alarm:
  assumes "quiet rtc" "idle rtc" "rtc_valid_tm (alm_time alm) = 0" "tm_ints (alm_time alm)" "tm_year (alm_time alm) < 195"
    and "alm_enabled alm = 1" "gap = id \<or> gap = rtc_power_cycle"
  defines "next \<equiv> rtc_time64_to_tm (rtc_tm_to_time64 (alm_time alm) + 1)"
  shows "\<exists>alm1 rtc1 a rtc2. mtk_rtc_set_alarm rtc alm = (0, alm1, rtc1) \<and> idle rtc1 \<and>
     mtk_rtc_read_alarm (gap rtc1) alm0 = (0, a, rtc2) \<and> idle rtc2 \<and> alm_enabled a = 1 \<and>
     tm_sec (alm_time a) = tm_sec next \<and> tm_min (alm_time a) = tm_min next \<and>
     tm_hour (alm_time a) = tm_hour next \<and> tm_mday (alm_time a) = tm_mday next \<and>
     tm_mon (alm_time a) = tm_mon next \<and> tm_year (alm_time a) = tm_year next"
proof -
  note nxt = alarm_next_second(2-4) [OF assms(3-5), folded next_def]
  obtain s' alm1 where 1: "mtk_rtc_set_alarm rtc alm = (0, alm1, s')" "quiet s'" "idle s'" "committed s'"
    "regs s' (addr_base s' + RTC_IRQ_EN) AND RTC_IRQ_EN_AL = 1" "holds_time (tc_regs s' RTC_AL_SEC) next"
    using quiet_set_alarm [OF assms(1,3-6,2), folded next_def] by metis
  have c: "quiet (gap s')" "idle (gap s')" "holds_time (tc_regs (gap s') RTC_AL_SEC) next"
    "regs (gap s') (addr_base (gap s') + RTC_IRQ_EN) AND RTC_IRQ_EN_AL = 1"
    using assms(7) 1(2-6) by (auto simp: tc_regs_def committed_def)
  obtain a where "mtk_rtc_read_alarm (gap s') alm0 = (0, a, gap s')" "alm_enabled a = 1"
    "tm_sec (alm_time a) = tm_sec next" "tm_min (alm_time a) = tm_min next" "tm_hour (alm_time a) = tm_hour next"
    "tm_mday (alm_time a) = tm_mday next" "tm_mon (alm_time a) = tm_mon next" "tm_year (alm_time a) = tm_year next"
    using quiet_read_alarm [OF c(1,3,4) nxt c(2)] by blast
  then show ?thesis using 1(1,3) c(2) by blast
qed

definition alm_example :: rtc_wkalrm where
  "alm_example = \<lparr>alm_enabled = 1, alm_pending = 0, alm_time = tm_example\<rparr>"

theorem rtc_set_then_read_alarm_witness:
  "\<exists>alm1 rtc1 a rtc2. mtk_rtc_set_alarm rtc_example alm_example = (0, alm1, rtc1) \<and>
     mtk_rtc_read_alarm (rtc_power_cycle rtc1) alm_example = (0, a, rtc2) \<and> alm_enabled a = 1 \<and>
     tm_mday (alm_time a) = tm_mday (rtc_time64_to_tm (rtc_tm_to_time64 tm_example + 1))"
  using rtc_set_then_read_alarm [of rtc_example alm_example rtc_power_cycle alm_example]
  by (auto simp: alm_example_def)

text \<open>
  C20: the RTC driver and the sign-of-life driver share two registers without harm.  No sequence of operations of the
  RTC driver (reading and setting the time, reading and setting an alarm, also a power-on alarm through the ioctl,
  reading and writing the NVMEM cells, the alarm interrupt, marking a software reset), whatever bus errors, timeouts and
  ticks it meets, changes the bits of \<^verbatim>\<open>RTC_SPAR0\<close> and \<^verbatim>\<open>RTC_AL_DOW\<close> that hold the life cycle reasons; and started with the
  mutex free it ends with the mutex free, without any operation having waited for itself.
\<close>

theorem rtc_keeps_sign_of_life_bits:
  assumes "chip_ok rtc" "idle rtc" "rtc_ops fuel ops rtc = Some rtc'"
  shows "addr_base rtc' = addr_base rtc \<and>
     regs rtc' (addr_base rtc + RTC_SPAR0) AND 0xFC00 = regs rtc (addr_base rtc + RTC_SPAR0) AND 0xFC00 \<and>
     regs rtc' (addr_base rtc + RTC_AL_DOW) AND 0xFF00 = regs rtc (addr_base rtc + RTC_AL_DOW) AND 0xFF00 \<and>
     \<not> locked rtc' \<and> \<not> stuck rtc'"
proof -
  have v: "sol_view rtc' = sol_view rtc" using view_rtc_ops [OF assms(3,1,2)] .
  show ?thesis using v assms(2) view_addr_base [OF v] by (simp add: sol_view_def idle_def)
qed

theorem rtc_keeps_sign_of_life_bits_witness:
  "let rtc = rtc_example\<lparr>bus := [0, 0, 5], regs := (\<lambda>_. 0xFFFF)\<rparr>
   in \<exists>rtc'. rtc_ops 1 [SetAlarm alm_example, MarkSwLprst] rtc = Some rtc' \<and>
     regs rtc' (0x588 + RTC_SPAR0) AND 0xFC00 = 0xFC00 \<and> \<not> stuck rtc'"
proof -
  let ?rtc = "rtc_example\<lparr>bus := [0, 0, 5], regs := (\<lambda>_. 0xFFFF)\<rparr>"
  obtain s1 where 1: "rtc_do 1 (SetAlarm alm_example) ?rtc = Some s1" by simp
  have "mtk_rtc_mark_sw_lprst (Some s1) \<noteq> None"
    by (auto simp: mtk_rtc_mark_sw_lprst_def Let_def split: prod.splits sum.splits if_splits)
  then obtain r2 s2 where "mtk_rtc_mark_sw_lprst (Some s1) = Some (r2, s2)" by fastforce
  then have r: "rtc_ops 1 [SetAlarm alm_example, MarkSwLprst] ?rtc = Some s2" using 1 by simp
  have "chip_ok ?rtc" "idle ?rtc" "addr_base ?rtc = 0x588" by (simp_all add: chip_ok_def idle_def rtc_example_def)
  then show ?thesis using rtc_keeps_sign_of_life_bits [OF _ _ r] r by (auto simp: Let_def)
qed

text \<open>
  C24: when the clock ticks once somewhere between the accesses of one read attempt, and the
  attempt is accepted, the time read is the one before or the one after the tick, never a mixture.
\<close>

theorem rtc_read_not_torn:
  assumes "bus rtc = []" "k \<le> 7" "ticks rtc = replicate k False @ True # replicate (7 - k) False @ rest" "tick_law rtc"
    and "mtk_rtc_read_time_once rtc tm = (Inr sec, tm', rtc')" "\<not> sec < tm_sec tm'"
  shows "tm' = tm_of_regs (tc_regs rtc RTC_TC_SEC) tm \<or>
     tm' = tm_of_regs (tc_regs (rtc\<lparr>regs := hw_tick rtc (regs rtc)\<rparr>) RTC_TC_SEC) tm"
  using assms by (rule one_tick_consistent)

text \<open>A chip that shows 12:34:20 and ticks between the reads of seconds and minutes.\<close>

definition rtc_running :: mt6397_rtc where
  "rtc_running = rtc_example\<lparr>regs := (\<lambda>_. 0)(0x592 := 20, 0x594 := 34, 0x596 := 12),
     ticks := [False, True, False, False, False, False, False, False]\<rparr>"

theorem rtc_read_not_torn_witness:
  "\<exists>tm' rtc'. mtk_rtc_read_time_once rtc_running tm_example = (Inr 21, tm', rtc') \<and> tm_sec tm' = 20 \<and>
     (tm' = tm_of_regs (tc_regs rtc_running RTC_TC_SEC) tm_example \<or>
      tm' = tm_of_regs (tc_regs (rtc_running\<lparr>regs := hw_tick rtc_running (regs rtc_running)\<rparr>) RTC_TC_SEC) tm_example)"
proof -
  define t where "t = (\<lambda>b f. if b then hw_tick rtc_running f else f)"
  have r: "bus rtc_running = []" "ticks rtc_running = replicate 1 False @ True # replicate (7 - 1) False @ []"
    "ticks rtc_running = [False, True, False, False, False, False, False, False]"
    by (simp_all add: rtc_running_def rtc_example_def eval_nat_numeral)
  have law: "tick_law rtc_running"
    by (simp add: tick_law_def rtc_running_def rtc_example_def rtc_masks_def)
  note once = read_once_ticks [OF r(1,3), of t, OF _ refl refl refl refl refl refl refl refl, of tm_example]
  then obtain tm' rtc' where "mtk_rtc_read_time_once rtc_running tm_example = (Inr 21, tm', rtc')" "tm_sec tm' = 20"
    by (auto simp: t_def rtc_running_def rtc_example_def rtc_masks_def tm_of_regs_def)
  moreover from this have "tm' = tm_of_regs (tc_regs rtc_running RTC_TC_SEC) tm_example \<or>
      tm' = tm_of_regs (tc_regs (rtc_running\<lparr>regs := hw_tick rtc_running (regs rtc_running)\<rparr>) RTC_TC_SEC) tm_example"
    by (intro rtc_read_not_torn [OF r(1) _ r(2) law, of tm_example 21 tm' rtc']) simp_all
  ultimately show ?thesis by blast
qed

text \<open>
  C25: reading the time ends: the attempts never exceed the number of clock ticks that come, plus one, whatever the
  bus does, since a repeated attempt has seen a tick.  (\<open>ticks\<close> has an entry for every access, and the true ones are the
  ticks.)
\<close>

theorem rtc_read_time_returns:
  assumes "length (filter (\<lambda>b. b) (ticks rtc)) < fuel"
  shows "\<exists>r. mtk_rtc_read_time fuel rtc tm = Some r"
  using read_time_loop_returns [OF assms, of tm] by (auto simp: mtk_rtc_read_time_def Let_def)

theorem rtc_read_time_returns_witness: "\<exists>r. mtk_rtc_read_time 2 rtc_running tm_example = Some r"
  using rtc_read_time_returns [of rtc_running 2 tm_example] by (simp add: rtc_running_def)

text \<open>
  setting the power-on alarm reports success even when programming the alarm failed: once the
  time is valid and the clock could be read, the result is 0 whatever \<^verbatim>\<open>mtk_rtc_set_alarm\<close>
  returned.
\<close>

theorem poweron_alarm_hides_errors:
  assumes "rtc_valid_tm (alm_time alm) = 0" "mtk_rtc_read_time fuel rtc tm = Some (0, tm', rtc1)"
    and "mtk_rtc_set_alarm rtc1 (alm\<lparr>alm_enabled :=
       (if rtc_tm_to_time64 (alm_time alm) \<le> rtc_tm_to_time64 tm' then 4 else 3)\<rparr>) = (err, alm2, rtc2)"
  shows "alarm_set_power_on fuel rtc alm tm = Some (0, alm2, rtc2)"
  using assms by (simp add: alarm_set_power_on_def)

text \<open>A chip whose bus works for the eight reads of the time and fails from then on.\<close>

definition rtc_failing :: mt6397_rtc where
  "rtc_failing = rtc_example\<lparr>bus := [0, 0, 0, 0, 0, 0, 0, 0, 5, 5, 5, 5, 5, 5, 5, 5],
     regs := (\<lambda>_. 0)(0x598 := 1, 0x59c := 1, 0x59e := 2)\<rparr>"

lemma rtc_failing_run:
  "map_option fst (mtk_rtc_read_time 1 rtc_failing tm_example) = Some 0"
  "map_option (\<lambda>(_, tm', rtc1). fst (mtk_rtc_set_alarm rtc1 (alm_example\<lparr>alm_enabled :=
       (if rtc_tm_to_time64 tm_example \<le> rtc_tm_to_time64 tm' then 4 else 3)\<rparr>)))
     (mtk_rtc_read_time 1 rtc_failing tm_example) = Some (- 5)"
  by code_simp+

theorem poweron_alarm_hides_errors_witness:
  "\<exists>tm' rtc1 alm2 rtc2. mtk_rtc_read_time 1 rtc_failing tm_example = Some (0, tm', rtc1) \<and>
     mtk_rtc_set_alarm rtc1 (alm_example\<lparr>alm_enabled :=
       (if rtc_tm_to_time64 tm_example \<le> rtc_tm_to_time64 tm' then 4 else 3)\<rparr>) = (- 5, alm2, rtc2) \<and>
     alarm_set_power_on 1 rtc_failing alm_example tm_example = Some (0, alm2, rtc2)"
proof -
  obtain tm' rtc1 where 1: "mtk_rtc_read_time 1 rtc_failing tm_example = Some (0, tm', rtc1)"
    using rtc_failing_run(1) by auto
  define x where "x = mtk_rtc_set_alarm rtc1 (alm_example\<lparr>alm_enabled :=
       (if rtc_tm_to_time64 (alm_time alm_example) \<le> rtc_tm_to_time64 tm' then 4 else 3)\<rparr>)"
  have "fst x = - 5" using rtc_failing_run(2) 1 by (simp add: x_def alm_example_def)
  then obtain alm2 rtc2 where "x = (- 5, alm2, rtc2)" by (cases x) auto
  note 2 = this [unfolded x_def]
  show ?thesis
    using poweron_alarm_hides_errors [OF _ 1 2] 1 2 by (auto simp: alm_example_def)
qed

end
