(* ===== verification/Sol_Rtc.thy ===== *)
theory Sol_Rtc
  imports Rtc_Mt6397
begin

text \<open>
  The RTC back end of Amazon's sign-of-life driver
  (\<^verbatim>\<open>drivers/staging/amazon/amzn_sign_of_life_rtc_impl.c\<close>): the reason of the last boot, shutdown,
  thermal shutdown and special mode are kept, three bits each, with a parity bit, in spare bits of
  two RTC registers that survive a reboot.  All register accesses go through the exported
  functions of the RTC driver (\<open>Rtc_Mt6397\<close>); the state is the driver's proxy.

  The lemmas show the round trip of every reason, that writing one reason keeps the others and
  the quiescent flag, that a flipped bit is detected, and that the unlocked window between the
  read and the write of a register loses a concurrent update.
\<close>

section \<open>Reasons and tables\<close>

datatype life_cycle_reason_t =
    LIFE_CYCLE_NOT_AVAILABLE
  | WARMBOOT_BY_KERNEL_PANIC | WARMBOOT_BY_KERNEL_WATCHDOG | WARMBOOT_BY_HW_WATCHDOG | WARMBOOT_BY_SW
  | COLDBOOT_BY_USB | COLDBOOT_BY_POWER_KEY | COLDBOOT_BY_POWER_SUPPLY
  | SHUTDOWN_BY_LONG_PWR_KEY_PRESS | SHUTDOWN_BY_SW | SHUTDOWN_BY_PWR_KEY
  | SHUTDOWN_BY_SUDDEN_POWER_LOSS | SHUTDOWN_BY_UNKNOWN_REASONS
  | THERMAL_SHUTDOWN_REASON_BATTERY | THERMAL_SHUTDOWN_REASON_PMIC | THERMAL_SHUTDOWN_REASON_SOC
  | THERMAL_SHUTDOWN_REASON_MODEM | THERMAL_SHUTDOWN_REASON_WIFI | THERMAL_SHUTDOWN_REASON_PCB
  | THERMAL_SHUTDOWN_REASON_BTS
  | LIFE_CYCLE_SMODE_NONE | LIFE_CYCLE_SMODE_LOW_BATTERY | LIFE_CYCLE_SMODE_WARM_BOOT_USB_CONNECTED
  | LIFE_CYCLE_SMODE_OTA | LIFE_CYCLE_SMODE_FACTORY_RESET | LIFE_CYCLE_SMODE_RTC_CHECK_FAIL

text \<open>\<^verbatim>\<open>struct rtc_lcr_map\<close> is a pair of the RTC code and the reason; the RTC codes count from 0.\<close>

type_synonym rtc_lcr_map = "int \<times> life_cycle_reason_t"

definition rtc_to_boot_reason :: "rtc_lcr_map list" where
  "rtc_to_boot_reason = [(0, LIFE_CYCLE_NOT_AVAILABLE), (1, WARMBOOT_BY_KERNEL_PANIC),
     (2, WARMBOOT_BY_KERNEL_WATCHDOG), (3, WARMBOOT_BY_HW_WATCHDOG), (4, WARMBOOT_BY_SW)]"

definition rtc_to_shutdown_reason :: "rtc_lcr_map list" where
  "rtc_to_shutdown_reason = [(0, LIFE_CYCLE_NOT_AVAILABLE), (1, SHUTDOWN_BY_LONG_PWR_KEY_PRESS),
     (2, SHUTDOWN_BY_SW), (3, SHUTDOWN_BY_PWR_KEY), (4, SHUTDOWN_BY_SUDDEN_POWER_LOSS),
     (5, SHUTDOWN_BY_UNKNOWN_REASONS)]"

definition rtc_to_thermal_shutdown_reason :: "rtc_lcr_map list" where
  "rtc_to_thermal_shutdown_reason = [(0, LIFE_CYCLE_NOT_AVAILABLE), (1, THERMAL_SHUTDOWN_REASON_BATTERY),
     (2, THERMAL_SHUTDOWN_REASON_PMIC), (3, THERMAL_SHUTDOWN_REASON_SOC), (4, THERMAL_SHUTDOWN_REASON_MODEM),
     (5, THERMAL_SHUTDOWN_REASON_WIFI), (6, THERMAL_SHUTDOWN_REASON_PCB), (7, THERMAL_SHUTDOWN_REASON_BTS)]"

definition rtc_to_special_mode_reason :: "rtc_lcr_map list" where
  "rtc_to_special_mode_reason = [(0, LIFE_CYCLE_NOT_AVAILABLE), (1, LIFE_CYCLE_SMODE_LOW_BATTERY),
     (2, LIFE_CYCLE_SMODE_WARM_BOOT_USB_CONNECTED), (3, LIFE_CYCLE_SMODE_OTA),
     (4, LIFE_CYCLE_SMODE_FACTORY_RESET)]"

text \<open>
  The number of table entries, \<^verbatim>\<open>table_num\<close>, is the length of the list.  The masks and register
  numbers are \<^verbatim>\<open>unsigned int\<close> in the source; all of them fit the 16 bits of the registers they are
  combined with.
\<close>

record sign_of_life_private_data =
  sol_mask :: u16
  sol_shift :: nat
  sol_reg :: u16
  rtc_to_lcr :: "rtc_lcr_map list"

datatype life_reason_type = BOOT | SHUTDOWN | THERMAL_SHUTDOWN | SPECIAL

abbreviation (input) SPAR0_REG :: u16 where "SPAR0_REG \<equiv> 0x0030"
abbreviation (input) AL_DOW_REG :: u16 where "AL_DOW_REG \<equiv> 0x0020"
abbreviation (input) PARITY_MASK :: u16 where "PARITY_MASK \<equiv> 0x4000"
abbreviation (input) PARITY_SHIFT :: nat where "PARITY_SHIFT \<equiv> 14"
abbreviation (input) PMIC_RTC_QUIESCENT :: u16 where "PMIC_RTC_QUIESCENT \<equiv> 0x8000"

fun life_cycle_reason :: "life_reason_type \<Rightarrow> sign_of_life_private_data" where
  "life_cycle_reason BOOT = \<lparr>sol_mask = 0x1C00, sol_shift = 10, sol_reg = SPAR0_REG,
     rtc_to_lcr = rtc_to_boot_reason\<rparr>"
| "life_cycle_reason SHUTDOWN = \<lparr>sol_mask = 0xE000, sol_shift = 13, sol_reg = SPAR0_REG,
     rtc_to_lcr = rtc_to_shutdown_reason\<rparr>"
| "life_cycle_reason THERMAL_SHUTDOWN = \<lparr>sol_mask = 0x0700, sol_shift = 8, sol_reg = AL_DOW_REG,
     rtc_to_lcr = rtc_to_thermal_shutdown_reason\<rparr>"
| "life_cycle_reason SPECIAL = \<lparr>sol_mask = 0x3800, sol_shift = 11, sol_reg = AL_DOW_REG,
     rtc_to_lcr = rtc_to_special_mode_reason\<rparr>"

definition life_cycle_reasons :: "sign_of_life_private_data list" where
  "life_cycle_reasons = map life_cycle_reason [BOOT, SHUTDOWN, THERMAL_SHUTDOWN, SPECIAL]"

section \<open>The functions\<close>

type_synonym rtc_proxy = "mt6397_rtc option"

abbreviation lcr_rtc_lock :: "rtc_proxy \<Rightarrow> rtc_proxy" where "lcr_rtc_lock \<equiv> mtk_rtc_acquire_lock"
abbreviation lcr_rtc_unlock :: "rtc_proxy \<Rightarrow> rtc_proxy" where "lcr_rtc_unlock \<equiv> mtk_rtc_release_lock"
abbreviation lcr_rtc_read :: "u16 \<Rightarrow> rtc_proxy \<Rightarrow> u16 \<times> rtc_proxy" where "lcr_rtc_read \<equiv> mtk_rtc_read"
abbreviation lcr_rtc_write :: "u16 \<Rightarrow> u16 \<Rightarrow> rtc_proxy \<Rightarrow> int \<times> rtc_proxy" where "lcr_rtc_write \<equiv> mtk_rtc_write"
abbreviation lcr_rtc_write_trigger :: "rtc_proxy \<Rightarrow> rtc_proxy" where
  "lcr_rtc_write_trigger \<equiv> mtk_rtc_write_trigger_out"

text \<open>
  Two shapes of critical section recur in the source: reading one register under the lock, and
  writing one register followed by the trigger under the lock.
\<close>

definition locked_read :: "u16 \<Rightarrow> rtc_proxy \<Rightarrow> u16 \<times> rtc_proxy" where
  "locked_read reg p =
     (let (v, p) = lcr_rtc_read reg (lcr_rtc_lock p) in (v, lcr_rtc_unlock p))"

definition locked_write :: "u16 \<Rightarrow> u16 \<Rightarrow> rtc_proxy \<Rightarrow> rtc_proxy" where
  "locked_write reg v p =
     (let (_, p) = lcr_rtc_write reg v (lcr_rtc_lock p) in lcr_rtc_unlock (lcr_rtc_write_trigger p))"

definition rtc_mark_quiescent :: "int \<Rightarrow> rtc_proxy \<Rightarrow> int \<times> rtc_proxy" where
  "rtc_mark_quiescent value p =
     (let (rtc_special_mode, p) = lcr_rtc_read AL_DOW_REG (lcr_rtc_lock p);
          rtc_special_mode = (if value = 0 then rtc_special_mode AND NOT PMIC_RTC_QUIESCENT
                              else rtc_special_mode OR PMIC_RTC_QUIESCENT);
          (_, p) = lcr_rtc_write AL_DOW_REG rtc_special_mode p
      in (0, lcr_rtc_unlock (lcr_rtc_write_trigger p)))"

fun search_rtc_loop :: "rtc_lcr_map list \<Rightarrow> life_cycle_reason_t \<Rightarrow> int \<Rightarrow> int" where
  "search_rtc_loop [] reason dflt = dflt"
| "search_rtc_loop ((rtc, lcr) # table) reason dflt =
     (if lcr = reason then rtc else search_rtc_loop table reason dflt)"

definition search_rtc_by_lcr :: "rtc_lcr_map list \<Rightarrow> life_cycle_reason_t \<Rightarrow> int" where
  "search_rtc_by_lcr table reason = search_rtc_loop table reason (fst (table ! 0))"

fun search_lcr_loop :: "rtc_lcr_map list \<Rightarrow> u16 \<Rightarrow> life_cycle_reason_t \<Rightarrow> life_cycle_reason_t" where
  "search_lcr_loop [] reason dflt = dflt"
| "search_lcr_loop ((rtc, lcr) # table) reason dflt =
     (if rtc = uint reason then lcr else search_lcr_loop table reason dflt)"

definition search_lcr_by_rtc :: "rtc_lcr_map list \<Rightarrow> u16 \<Rightarrow> life_cycle_reason_t" where
  "search_lcr_by_rtc table reason = search_lcr_loop table reason (snd (table ! 0))"

text \<open>\<open>mask_bits\<close> is the inner \<^verbatim>\<open>do ... while\<close> loop that counts the bits of a shifted mask.\<close>

function mask_bits :: "u16 \<Rightarrow> nat" where
  "mask_bits m = (let m = drop_bit 1 m in 1 + (if m \<noteq> 0 then mask_bits m else 0))"
  by auto

termination
proof (relation "measure unat")
  fix m x :: u16
  assume x: "x = drop_bit 1 m" "x \<noteq> 0"
  then have "unat x \<noteq> 0" by (simp add: unat_eq_0)
  moreover have "unat x = unat m div 2" by (simp add: x(1) drop_bit_eq_div unat_div)
  ultimately show "(x, m) \<in> measure unat" by simp
qed simp

fun xor_bits :: "nat \<Rightarrow> u32 \<Rightarrow> u32 \<Rightarrow> u32" where
  "xor_bits 0 x parity = x"
| "xor_bits (Suc n) x parity = xor_bits n (x XOR (parity AND 1)) (drop_bit 1 parity)"

fun gather_reasons :: "sign_of_life_private_data list \<Rightarrow> nat \<Rightarrow> u32 \<Rightarrow> rtc_proxy \<Rightarrow> nat \<times> u32 \<times> rtc_proxy" where
  "gather_reasons [] bit_count parity p = (bit_count, parity, p)"
| "gather_reasons (d # ds) bit_count parity p =
     (let (rtc_value, p) = locked_read (sol_reg d) p;
          rtc_breason = drop_bit (sol_shift d) (rtc_value AND sol_mask d)
      in gather_reasons ds (bit_count + mask_bits (drop_bit (sol_shift d) (sol_mask d)))
           (parity OR push_bit bit_count (ucast rtc_breason)) p)"

definition get_sign_of_life_parity :: "rtc_proxy \<Rightarrow> u32 \<times> rtc_proxy" where
  "get_sign_of_life_parity p =
     (let (bit_count, parity, p) = gather_reasons life_cycle_reasons 0 0 p
      in (xor_bits bit_count 0 parity, p))"

definition check_sign_of_life_parity :: "rtc_proxy \<Rightarrow> bool \<times> rtc_proxy" where
  "check_sign_of_life_parity p =
     (let (x, p) = get_sign_of_life_parity p;
          (rtc_value, p) = locked_read AL_DOW_REG p;
          reg_parity = drop_bit PARITY_SHIFT (rtc_value AND PARITY_MASK)
      in (ucast reg_parity = x, p))"

text \<open>One pass of the clearing loop reads, masks and writes a register in one critical section.\<close>

definition locked_clear :: "u16 \<Rightarrow> u16 \<Rightarrow> rtc_proxy \<Rightarrow> rtc_proxy" where
  "locked_clear reg msk p =
     (let (rtc_value, p) = lcr_rtc_read reg (lcr_rtc_lock p);
          (_, p) = lcr_rtc_write reg (rtc_value AND NOT msk) p
      in lcr_rtc_unlock (lcr_rtc_write_trigger p))"

definition rtc_clear_life_cycle_reason :: "rtc_proxy \<Rightarrow> rtc_proxy" where
  "rtc_clear_life_cycle_reason p =
     locked_clear AL_DOW_REG PARITY_MASK
       (fold (\<lambda>d. locked_clear (sol_reg d) (sol_mask d)) life_cycle_reasons p)"

text \<open>The result of a read is the status and the reason stored through the pointer.\<close>

definition rtc_read_life_cycle_reason ::
    "sign_of_life_private_data option \<Rightarrow> rtc_proxy \<Rightarrow> (int + life_cycle_reason_t) \<times> rtc_proxy" where
  "rtc_read_life_cycle_reason pdata p =
     (case pdata of None \<Rightarrow> (Inl (- EINVAL), p)
      | Some d \<Rightarrow>
          if sol_reg d = 0 then (Inl (- EINVAL), p)
          else
            let (rtc_value, p) = locked_read (sol_reg d) p;
                rtc_breason = drop_bit (sol_shift d) (rtc_value AND sol_mask d);
                (ok, p) = check_sign_of_life_parity p
            in (Inr (if \<not> ok then LIFE_CYCLE_SMODE_RTC_CHECK_FAIL
                     else search_lcr_by_rtc (rtc_to_lcr d) rtc_breason), p))"

text \<open>The part of the write behind its first critical section, which read \<open>rtc_breason\<close>.\<close>

definition rtc_write_rest ::
    "sign_of_life_private_data \<Rightarrow> u16 \<Rightarrow> u16 \<Rightarrow> rtc_proxy \<Rightarrow> rtc_proxy" where
  "rtc_write_rest d life_cycle_breason rtc_breason p =
     (let rtc_breason = (rtc_breason AND NOT (sol_mask d)) OR
            (push_bit (sol_shift d) life_cycle_breason AND sol_mask d);
          p = locked_write (sol_reg d) rtc_breason p;
          (rtc_breason, p) = locked_read AL_DOW_REG p;
          rtc_breason = rtc_breason AND NOT PARITY_MASK;
          (x, p) = get_sign_of_life_parity p;
          rtc_breason = rtc_breason OR (ucast (push_bit PARITY_SHIFT x) AND PARITY_MASK)
      in locked_write AL_DOW_REG rtc_breason p)"

definition rtc_write_life_cycle_reason ::
    "life_cycle_reason_t \<Rightarrow> sign_of_life_private_data option \<Rightarrow> rtc_proxy \<Rightarrow> int \<times> rtc_proxy" where
  "rtc_write_life_cycle_reason reason pdata p =
     (case pdata of None \<Rightarrow> (- EINVAL, p)
      | Some d \<Rightarrow>
          let life_cycle_breason = word_of_int (search_rtc_by_lcr (rtc_to_lcr d) reason);
              (rtc_breason, p) = locked_read (sol_reg d) p
          in (0, rtc_write_rest d life_cycle_breason rtc_breason p))"

text \<open>
  The platform state: the RTC and \<^verbatim>\<open>lcr_boot\<close>, the cold boot reason found on the kernel command
  line.  \<open>strstr\<close> returns the suffix the C function points to.
\<close>

record sol_platform =
  sol_rtc :: rtc_proxy
  lcr_boot :: life_cycle_reason_t

fun strstr :: "string \<Rightarrow> string \<Rightarrow> string option" where
  "strstr [] needle = (if needle = [] then Some [] else None)"
| "strstr (c # cs) needle =
     (if take (length needle) (c # cs) = needle then Some (c # cs) else strstr cs needle)"

definition keyword :: string where
  "keyword = ''androidboot.bootreason''"

text \<open>\<^term>\<open>None\<close> is a write outside the 32 bytes of \<^verbatim>\<open>bootreason_str\<close>.\<close>

definition get_android_bootreason :: "string \<Rightarrow> sol_platform \<Rightarrow> sol_platform option" where
  "get_android_bootreason cmdline sp =
     (case strstr cmdline keyword of
           None \<Rightarrow> Some sp
         | Some ptr \<Rightarrow>
             (case strstr ptr '' '' of
                None \<Rightarrow> Some sp
              | Some ptr_e \<Rightarrow>
                  let sz = int (length ptr - length ptr_e) - int (length keyword)
                  in if sz \<le> 0 then Some sp
                     else if sz > 31 then None
                     else
                       let bootreason_str = take (nat sz) (drop (length keyword) ptr)
                       in Some (sp\<lparr>lcr_boot :=
                            (if bootreason_str = ''=PowerKey'' then COLDBOOT_BY_POWER_KEY
                             else if bootreason_str = ''=usb'' then COLDBOOT_BY_USB
                             else if bootreason_str = ''=Watchdog'' then WARMBOOT_BY_KERNEL_WATCHDOG
                             else if bootreason_str = ''=wdt_hw'' then WARMBOOT_BY_HW_WATCHDOG
                             else if bootreason_str = ''=kernel_panic'' then WARMBOOT_BY_KERNEL_PANIC
                             else LIFE_CYCLE_NOT_AVAILABLE)\<rparr>)))"

definition read_reason :: "life_reason_type \<Rightarrow> sol_platform \<Rightarrow> (int + life_cycle_reason_t) \<times> sol_platform" where
  "read_reason ty sp =
     (let (r, p) = rtc_read_life_cycle_reason (Some (life_cycle_reason ty)) (sol_rtc sp)
      in (r, sp\<lparr>sol_rtc := p\<rparr>))"

definition write_reason :: "life_reason_type \<Rightarrow> life_cycle_reason_t \<Rightarrow> sol_platform \<Rightarrow> int \<times> sol_platform" where
  "write_reason ty reason sp =
     (let (r, p) = rtc_write_life_cycle_reason reason (Some (life_cycle_reason ty)) (sol_rtc sp)
      in (r, sp\<lparr>sol_rtc := p\<rparr>))"

definition rtc_read_boot_reason :: "sol_platform \<Rightarrow> (int + life_cycle_reason_t) \<times> sol_platform" where
  "rtc_read_boot_reason sp =
     (let (r, sp) = read_reason BOOT sp
      in (if r = Inr LIFE_CYCLE_NOT_AVAILABLE then Inr (lcr_boot sp) else r, sp))"

definition rtc_write_boot_reason :: "life_cycle_reason_t \<Rightarrow> sol_platform \<Rightarrow> int \<times> sol_platform" where
  "rtc_write_boot_reason = write_reason BOOT"

definition rtc_read_shutdown_reason :: "sol_platform \<Rightarrow> (int + life_cycle_reason_t) \<times> sol_platform" where
  "rtc_read_shutdown_reason = read_reason SHUTDOWN"

definition rtc_write_shutdown_reason :: "life_cycle_reason_t \<Rightarrow> sol_platform \<Rightarrow> int \<times> sol_platform" where
  "rtc_write_shutdown_reason = write_reason SHUTDOWN"

definition rtc_read_thermal_shutdown_reason ::
    "sol_platform \<Rightarrow> (int + life_cycle_reason_t) \<times> sol_platform" where
  "rtc_read_thermal_shutdown_reason = read_reason THERMAL_SHUTDOWN"

definition rtc_write_thermal_shutdown_reason :: "life_cycle_reason_t \<Rightarrow> sol_platform \<Rightarrow> int \<times> sol_platform" where
  "rtc_write_thermal_shutdown_reason = write_reason THERMAL_SHUTDOWN"

definition rtc_read_special_mode :: "sol_platform \<Rightarrow> (int + life_cycle_reason_t) \<times> sol_platform" where
  "rtc_read_special_mode = read_reason SPECIAL"

definition rtc_write_special_mode :: "life_cycle_reason_t \<Rightarrow> sol_platform \<Rightarrow> int \<times> sol_platform" where
  "rtc_write_special_mode = write_reason SPECIAL"

definition rtc_lcr_reset :: "sol_platform \<Rightarrow> int \<times> sol_platform" where
  "rtc_lcr_reset sp = (0, sp\<lparr>sol_rtc := rtc_clear_life_cycle_reason (sol_rtc sp)\<rparr>)"

section \<open>Register contents on a quiet chip\<close>

text \<open>
  \<open>spar0\<close> and \<open>al_dow\<close> are the two registers; on a quiet chip every critical section is a read or an
  update of them.
\<close>

definition spar0 :: "mt6397_rtc \<Rightarrow> u16" where
  "spar0 s = regs s (addr_base s + RTC_SPAR0)"

definition al_dow :: "mt6397_rtc \<Rightarrow> u16" where
  "al_dow s = regs s (addr_base s + RTC_AL_DOW)"

definition reg_val :: "u16 \<Rightarrow> mt6397_rtc \<Rightarrow> u16" where
  "reg_val r s = (if r = SPAR0_REG then spar0 s else al_dow s)"

lemma poll_nonsleep_ready: "cbusy s \<le> n \<Longrightarrow> bus s = [] \<Longrightarrow> poll_cbusy_nonsleep n s = (0, s\<lparr>cbusy := 0\<rparr>)"
proof (induction n arbitrary: s)
  case 0
  then show ?case by (simp only: poll_cbusy_nonsleep.simps [of 0] bbpu_read) simp
next
  case (Suc n)
  then show ?case
    by (cases "cbusy s") (simp_all only: poll_cbusy_nonsleep.simps [of "Suc n"] bbpu_read, simp_all)
qed

lemma quiet_trigger_nonsleep:
  "quiet s \<Longrightarrow> mtk_rtc_write_trigger_nonsleep s =
     (0, s\<lparr>regs := (regs s)(addr_base s + wrtgr s := 1), core := (regs s)(addr_base s + wrtgr s := 1), cbusy := 0\<rparr>)"
  by (simp add: mtk_rtc_write_trigger_nonsleep_def regmap_write_def bus_access_def quiet_def poll_nonsleep_ready)

lemma quiet_locked_read:
  assumes "calm s" "r \<in> {SPAR0_REG, AL_DOW_REG}"
  shows "locked_read r (Some s) = (reg_val r s, Some s)"
proof -
  have q: "quiet (mutex_lock s)" "idle s" using assms(1) by (simp_all add: calm_def)
  show ?thesis
    using assms(2) quiet_read [OF q(1), of "addr_base s + ucast r"] idle_simps [OF q(2)]
    by (auto simp: locked_read_def mtk_rtc_read_def mtk_rtc_acquire_lock_def mtk_rtc_release_lock_def mutex_unlock_def
        reg_val_def spar0_def al_dow_def)
qed

lemma quiet_locked_write:
  assumes "calm s" "r \<in> {SPAR0_REG, AL_DOW_REG}"
  obtains s' where "locked_write r v (Some s) = Some s'" "calm s'" "committed s'"
    "spar0 s' = (if r = SPAR0_REG then v else spar0 s)" "al_dow s' = (if r = AL_DOW_REG then v else al_dow s)"
proof -
  have w: "wrtgr s = 0x3a \<or> wrtgr s = 0x3c" using assms(1) by (simp add: calm_def quiet_def)
  have q: "quiet (mutex_lock s)" "idle s" using assms(1) by (simp_all add: calm_def)
  define s1 where "s1 = (mutex_lock s)\<lparr>regs := (regs s)(addr_base s + ucast r := v)\<rparr>"
  have 1: "regmap_write (addr_base s + ucast r) v (mutex_lock s) = (0, s1)"
    using quiet_write [OF q(1), of "addr_base s + ucast r" v] w assms(2) by (auto simp: s1_def)
  have q1: "quiet s1" using q(1) by (simp add: s1_def)
  define s2 where "s2 = mutex_unlock (s1\<lparr>regs := (regs s1)(addr_base s1 + wrtgr s1 := 1),
    core := (regs s1)(addr_base s1 + wrtgr s1 := 1), cbusy := 0\<rparr>)"
  have "locked_write r v (Some s) = Some s2"
    using 1 quiet_trigger_nonsleep [OF q1]
    by (simp add: locked_write_def mtk_rtc_write_def mtk_rtc_acquire_lock_def mtk_rtc_release_lock_def
        mtk_rtc_write_trigger_out_def s2_def)
  moreover have "calm s2" "committed s2"
    using q1 q(2) by (simp_all add: s2_def calm_def committed_def) (simp add: idle_def s1_def idle_simps [OF q(2)])
  moreover have "spar0 s2 = (if r = SPAR0_REG then v else spar0 s)" "al_dow s2 = (if r = AL_DOW_REG then v else al_dow s)"
    using assms(2) w by (auto simp: s2_def s1_def spar0_def al_dow_def)
  ultimately show ?thesis by (rule that)
qed


section \<open>Fields and parity\<close>

text \<open>
  \<open>field ty s\<close> are the three bits of one reason, \<open>packed s\<close> the twelve bits the parity is taken
  over, \<open>parity_ok s\<close> that the stored parity bit matches.
\<close>

definition field :: "life_reason_type \<Rightarrow> mt6397_rtc \<Rightarrow> u16" where
  "field ty s = drop_bit (sol_shift (life_cycle_reason ty))
     (reg_val (sol_reg (life_cycle_reason ty)) s AND sol_mask (life_cycle_reason ty))"

definition packed :: "mt6397_rtc \<Rightarrow> u32" where
  "packed s = ucast (field BOOT s) OR push_bit 3 (ucast (field SHUTDOWN s)) OR
     push_bit 6 (ucast (field THERMAL_SHUTDOWN s)) OR push_bit 9 (ucast (field SPECIAL s))"

definition parity_ok :: "mt6397_rtc \<Rightarrow> bool" where
  "parity_ok s \<longleftrightarrow> ucast (drop_bit PARITY_SHIFT (al_dow s AND PARITY_MASK)) = xor_bits 12 0 (packed s)"

named_theorems sol \<open>layout of the reasons in the two registers\<close>

lemma mask_field [sol]: "sol_mask (life_cycle_reason ty) = push_bit (sol_shift (life_cycle_reason ty)) 7"
  by (cases ty) (simp_all add: push_bit_eq_mult)

lemma reg_field [sol, simp]: "sol_reg (life_cycle_reason ty) \<in> {SPAR0_REG, AL_DOW_REG}"
  by (cases ty) simp_all

lemma field_bits [sol]: "drop_bit (sol_shift (life_cycle_reason ty)) (push_bit (sol_shift (life_cycle_reason ty)) (7::u16)) = 7"
  by (cases ty) (simp_all add: push_bit_eq_mult drop_bit_eq_div)

lemma masks_disjoint [sol]:
  "ty \<noteq> ty' \<Longrightarrow> sol_reg (life_cycle_reason ty) = sol_reg (life_cycle_reason ty') \<Longrightarrow>
     sol_mask (life_cycle_reason ty) AND sol_mask (life_cycle_reason ty') = 0"
  by (cases ty; cases ty') simp_all

lemma mask_parity_disjoint [sol]:
  "sol_reg (life_cycle_reason ty) = AL_DOW_REG \<Longrightarrow> PARITY_MASK AND sol_mask (life_cycle_reason ty) = 0"
  by (cases ty) simp_all

text \<open>The bits of a register that a write of a reason may change: its field and, in \<^verbatim>\<open>RTC_AL_DOW\<close>, the parity bit.\<close>

definition written_bits :: "life_reason_type \<Rightarrow> u16 \<Rightarrow> u16" where
  "written_bits ty r = (if sol_reg (life_cycle_reason ty) = r then sol_mask (life_cycle_reason ty) else 0) OR
     (if r = AL_DOW_REG then PARITY_MASK else 0)"

lemma mask_rest [sol]:
  "sol_reg (life_cycle_reason ty) = SPAR0_REG \<Longrightarrow> sol_mask (life_cycle_reason ty) AND 0x03FF = 0"
  "sol_reg (life_cycle_reason ty) = AL_DOW_REG \<Longrightarrow> sol_mask (life_cycle_reason ty) AND 0x80FF = 0"
  by (cases ty; simp)+

lemma xor_bits_acc: "xor_bits n x p = x XOR xor_bits n 0 p"
proof (induction n arbitrary: x p)
  case (Suc n)
  show ?case
    using Suc [of "x XOR (p AND 1)" "drop_bit 1 p"] Suc [of "0 XOR (p AND 1)" "drop_bit 1 p"]
    by (simp add: xor.assoc)
qed simp

lemma xor_bit: "x \<in> {0, 1} \<Longrightarrow> x XOR (p AND 1) \<in> {0, 1::u32}"
  by (auto simp: and_one_eq mod_2_eq_odd)

lemma xor_bits_range: "x \<in> {0, 1} \<Longrightarrow> xor_bits n x p \<in> {0, 1}"
proof (induction n arbitrary: x p)
  case (Suc n)
  then show ?case using xor_bit [OF Suc.prems, of p] by simp
qed simp

text \<open>Flipping one bit among the counted ones flips the parity.\<close>

lemma flip_low: "(p XOR 1) AND 1 = (p AND 1) XOR (1::u32)" "drop_bit 1 (p XOR 1) = drop_bit 1 (p::u32)"
  by (rule bit_word_eqI; auto simp: bit_simps)+

lemma flip_high:
  "Suc i < 32 \<Longrightarrow> (p XOR push_bit (Suc i) 1) AND 1 = p AND (1::u32)"
  "Suc i < 32 \<Longrightarrow> drop_bit 1 (p XOR push_bit (Suc i) 1) = drop_bit 1 (p::u32) XOR push_bit i 1"
  by (rule bit_word_eqI; auto simp: bit_simps)+

lemma xor_bits_flip: "i < n \<Longrightarrow> n \<le> 32 \<Longrightarrow> xor_bits n x (p XOR push_bit i 1) = xor_bits n x p XOR 1"
proof (induction n arbitrary: i x p)
  case (Suc n)
  show ?case
  proof (cases i)
    case 0
    have "xor_bits n (x XOR (p AND 1) XOR 1) (drop_bit 1 p) = xor_bits n (x XOR (p AND 1)) (drop_bit 1 p) XOR 1"
      by (subst (1 2) xor_bits_acc) (simp add: xor.assoc xor.left_commute xor.commute)
    then show ?thesis using 0 by (simp add: flip_low xor.assoc)
  next
    case (Suc j)
    then have j: "j < n" "n \<le> 32" "Suc j < 32" using Suc.prems by auto
    show ?thesis
      by (simp only: Suc xor_bits.simps flip_high [OF j(3)] Suc.IH [OF j(1,2)])
  qed
qed simp


section \<open>The functions on a quiet chip\<close>

lemma mask_bits_field: "mask_bits (drop_bit (sol_shift (life_cycle_reason ty)) (sol_mask (life_cycle_reason ty))) = 3"
proof -
  have "mask_bits 7 = 3" by (simp add: drop_bit_eq_div)
  then show ?thesis by (simp only: mask_field field_bits)
qed

lemma quiet_gather:
  assumes "calm s"
  shows "gather_reasons (life_cycle_reason ty # ds) n w (Some s) =
    gather_reasons ds (n + 3) (w OR push_bit n (ucast (field ty s))) (Some s)"
  by (simp only: gather_reasons.simps quiet_locked_read [OF assms reg_field] mask_bits_field field_def Let_def prod.case)

lemma quiet_get_parity:
  assumes "calm s"
  shows "get_sign_of_life_parity (Some s) = (xor_bits 12 0 (packed s), Some s)"
proof -
  have "gather_reasons life_cycle_reasons 0 0 (Some s) = (12, packed s, Some s)"
    unfolding life_cycle_reasons_def list.map
    using assms by (simp add: quiet_gather packed_def or.assoc del: life_cycle_reason.simps gather_reasons.simps(2))
  then show ?thesis by (simp add: get_sign_of_life_parity_def)
qed

lemma quiet_check_parity:
  assumes "calm s"
  shows "check_sign_of_life_parity (Some s) = (parity_ok s, Some s)"
  using assms by (simp add: check_sign_of_life_parity_def quiet_get_parity quiet_locked_read parity_ok_def
      reg_val_def al_dow_def)

lemma quiet_read_reason:
  assumes "calm s"
  shows "rtc_read_life_cycle_reason (Some (life_cycle_reason ty)) (Some s) =
    (Inr (if parity_ok s then search_lcr_by_rtc (rtc_to_lcr (life_cycle_reason ty)) (field ty s)
          else LIFE_CYCLE_SMODE_RTC_CHECK_FAIL), Some s)"
proof -
  have "sol_reg (life_cycle_reason ty) \<noteq> 0" by (cases ty) simp_all
  then show ?thesis
    using assms by (simp add: rtc_read_life_cycle_reason_def quiet_locked_read [OF assms reg_field] quiet_check_parity
        field_def del: life_cycle_reason.simps)
qed

text \<open>
  Writing a reason: its own field takes the code, the other fields and the remaining bits of both
  registers stay, and the parity matches afterwards.
\<close>

lemma field_put:
  assumes "drop_bit k (push_bit k m) = (m::u16)"
  shows "drop_bit k (((x AND NOT (push_bit k m)) OR (push_bit k c AND push_bit k m)) AND push_bit k m) = c AND m"
proof -
  have "((x AND NOT (push_bit k m)) OR (push_bit k c AND push_bit k m)) AND push_bit k m = push_bit k (c AND m)"
    by (rule bit_word_eqI) (auto simp: bit_simps)
  moreover have "drop_bit k (push_bit k (c AND m)) = c AND m"
  proof (rule bit_word_eqI)
    fix n assume "n < LENGTH(16)"
    show "bit (drop_bit k (push_bit k (c AND m))) n = bit (c AND m) n"
      using arg_cong [OF assms, of "\<lambda>w. bit w n"] by (auto simp: bit_simps)
  qed
  ultimately show ?thesis by simp
qed

lemma put_rest: "((x AND NOT m) OR (c AND m)) AND NOT m = x AND NOT (m::u16)"
  by (auto simp: bit_eq_iff bit_simps)

lemma rest_sub:
  fixes x y m k :: u16
  assumes "x AND NOT m = y AND NOT m" "m AND k = 0"
  shows "x AND k = y AND k"
proof (rule bit_word_eqI)
  fix n assume "n < LENGTH(16)"
  then show "bit (x AND k) n = bit (y AND k) n"
    using arg_cong [OF assms(1), of "\<lambda>w. bit w n"] arg_cong [OF assms(2), of "\<lambda>w. bit w n"] by (auto simp: bit_simps)
qed

lemma put_outside: "m AND m' = 0 \<Longrightarrow> ((x AND NOT m) OR (c AND m)) AND m' = x AND (m'::u16)"
  by (auto simp: bit_eq_iff bit_simps)

lemma parity_put:
  "x \<in> {0, 1::u32} \<Longrightarrow>
     ucast (drop_bit 14 (((v AND NOT 0x4000) OR (ucast (push_bit 14 x) AND 0x4000)) AND (0x4000::u16))) = x"
proof -
  assume "x \<in> {0, 1}"
  moreover have "((v AND NOT 0x4000) OR (0x4000 AND 0x4000)) AND 0x4000 = (0x4000::u16)"
    "((v AND NOT 0x4000) OR (0 AND 0x4000)) AND 0x4000 = (0::u16)"
    using bit_cleared [of v "0x4000"] bit_set [of "v AND NOT 0x4000" "0x4000"] by simp_all
  ultimately show ?thesis by (auto simp: push_bit_eq_mult drop_bit_eq_div)
qed


lemma field_cong:
  "reg_val (sol_reg (life_cycle_reason ty)) s' AND sol_mask (life_cycle_reason ty) =
     reg_val (sol_reg (life_cycle_reason ty)) s AND sol_mask (life_cycle_reason ty) \<Longrightarrow> field ty s' = field ty s"
  by (simp only: field_def)

lemma field_parity_bit:
  assumes "spar0 s' = spar0 s" "al_dow s' = (al_dow s AND NOT PARITY_MASK) OR (c AND PARITY_MASK)"
  shows "field ty s' = field ty s"
proof (rule field_cong, cases "sol_reg (life_cycle_reason ty) = AL_DOW_REG")
  case True
  then show "reg_val (sol_reg (life_cycle_reason ty)) s' AND sol_mask (life_cycle_reason ty) =
      reg_val (sol_reg (life_cycle_reason ty)) s AND sol_mask (life_cycle_reason ty)"
    using put_outside [OF mask_parity_disjoint [OF True], of "al_dow s" c] by (simp only: reg_val_def assms) simp
next
  case False
  then show "reg_val (sol_reg (life_cycle_reason ty)) s' AND sol_mask (life_cycle_reason ty) =
      reg_val (sol_reg (life_cycle_reason ty)) s AND sol_mask (life_cycle_reason ty)"
    using reg_field [of ty] by (simp add: reg_val_def assms(1))
qed

lemma packed_cong: "(\<And>ty. field ty s' = field ty s) \<Longrightarrow> packed s' = packed s"
  by (simp only: packed_def)

lemma quiet_write_rest:
  fixes v c :: u16 and ty :: life_reason_type
  assumes "calm s"
  defines "d \<equiv> life_cycle_reason ty"
  defines "v' \<equiv> (v AND NOT (sol_mask d)) OR (push_bit (sol_shift d) c AND sol_mask d)"
  obtains s' w where "rtc_write_rest d c v (Some s) = Some s'" "calm s'" "committed s'" "parity_ok s'"
    "spar0 s' = (if sol_reg d = SPAR0_REG then v' else spar0 s)"
    "al_dow s' = ((if sol_reg d = AL_DOW_REG then v' else al_dow s) AND NOT PARITY_MASK) OR (w AND PARITY_MASK)"
proof -
  obtain s1 where 1: "locked_write (sol_reg d) v' (Some s) = Some s1" "calm s1" "committed s1"
    "spar0 s1 = (if sol_reg d = SPAR0_REG then v' else spar0 s)"
    "al_dow s1 = (if sol_reg d = AL_DOW_REG then v' else al_dow s)"
    using quiet_locked_write [OF assms(1) reg_field [of ty], folded d_def] by metis
  define s2 where "s2 = s1"
  have q2: "calm s2" using 1(2) by (simp add: s2_def)
  define x where "x = xor_bits 12 0 (packed s2)"
  define w :: u16 where "w = ucast (push_bit PARITY_SHIFT x)"
  obtain s3 where 3: "locked_write AL_DOW_REG ((al_dow s2 AND NOT PARITY_MASK) OR (w AND PARITY_MASK)) (Some s2) = Some s3"
    "calm s3" "committed s3" "spar0 s3 = spar0 s2" "al_dow s3 = (al_dow s2 AND NOT PARITY_MASK) OR (w AND PARITY_MASK)"
    by (rule quiet_locked_write [OF q2, of AL_DOW_REG "(al_dow s2 AND NOT PARITY_MASK) OR (w AND PARITY_MASK)"]) simp_all
  have r2: "locked_read AL_DOW_REG (Some s1) = (al_dow s2, Some s2)"
    using quiet_locked_read [OF 1(2), of AL_DOW_REG] by (simp add: s2_def reg_val_def al_dow_def)
  have g: "get_sign_of_life_parity (Some s2) = (x, Some s2)" using quiet_get_parity [OF q2] by (simp only: x_def)
  have run: "rtc_write_rest d c v (Some s) = Some s3"
    unfolding rtc_write_rest_def Let_def
    by (simp only: v'_def [symmetric] 1(1) r2 g prod.case w_def [symmetric] 3(1))
  have "packed s3 = packed s2" using field_parity_bit [OF 3(4,5)] by (rule packed_cong)
  moreover have "x \<in> {0, 1}" unfolding x_def by (rule xor_bits_range) simp
  ultimately have "parity_ok s3" unfolding parity_ok_def 3(5) w_def using parity_put [of x "al_dow s2"] by (simp only: x_def)
  moreover have "spar0 s2 = spar0 s1" "al_dow s2 = al_dow s1" by (simp_all add: s2_def spar0_def al_dow_def)
  ultimately show ?thesis using that [OF run 3(2,3)] 3(4,5) 1(4,5) by simp
qed


text \<open>The two tables searches invert each other; a reason the table lacks is stored as \<open>NOT_AVAILABLE\<close>.\<close>

definition known :: "life_reason_type \<Rightarrow> life_cycle_reason_t \<Rightarrow> bool" where
  "known ty r \<longleftrightarrow> r \<in> snd ` set (rtc_to_lcr (life_cycle_reason ty))"

lemmas reason_tables = rtc_to_boot_reason_def rtc_to_shutdown_reason_def rtc_to_thermal_shutdown_reason_def
  rtc_to_special_mode_reason_def

lemma table_roundtrip:
  "search_lcr_by_rtc (rtc_to_lcr (life_cycle_reason ty))
     (word_of_int (search_rtc_by_lcr (rtc_to_lcr (life_cycle_reason ty)) r) AND 7) =
   (if known ty r then r else LIFE_CYCLE_NOT_AVAILABLE)"
  by (cases ty) (auto simp: known_def search_lcr_by_rtc_def search_rtc_by_lcr_def reason_tables)

lemma table_zero: "search_lcr_by_rtc (rtc_to_lcr (life_cycle_reason ty)) 0 = LIFE_CYCLE_NOT_AVAILABLE"
  by (cases ty) (auto simp: search_lcr_by_rtc_def reason_tables)

lemma reg_after_write:
  assumes "spar0 s' = (if sol_reg (life_cycle_reason ty) = SPAR0_REG then v' else spar0 s)"
    "al_dow s' = ((if sol_reg (life_cycle_reason ty) = AL_DOW_REG then v' else al_dow s) AND NOT PARITY_MASK) OR
       (w AND PARITY_MASK)"
  shows "reg_val (sol_reg (life_cycle_reason ty')) s' AND sol_mask (life_cycle_reason ty') =
    (if sol_reg (life_cycle_reason ty) = sol_reg (life_cycle_reason ty') then v'
     else reg_val (sol_reg (life_cycle_reason ty')) s) AND sol_mask (life_cycle_reason ty')"
proof (cases "sol_reg (life_cycle_reason ty') = AL_DOW_REG")
  case True
  then show ?thesis
    using put_outside [OF mask_parity_disjoint [OF True], of _ w] by (simp only: reg_val_def assms) simp
next
  case False
  then show ?thesis using reg_field [of ty'] by (simp add: reg_val_def assms(1) del: life_cycle_reason.simps)
qed

lemma quiet_write_reason:
  assumes "calm s"
  obtains s' where
    "rtc_write_life_cycle_reason reason (Some (life_cycle_reason ty)) (Some s) = (0, Some s')"
    "calm s'" "committed s'" "parity_ok s'"
    "field ty s' = word_of_int (search_rtc_by_lcr (rtc_to_lcr (life_cycle_reason ty)) reason) AND 7"
    "\<forall>ty'. ty' \<noteq> ty \<longrightarrow> field ty' s' = field ty' s"
    "\<forall>r. r \<in> {SPAR0_REG, AL_DOW_REG} \<longrightarrow> reg_val r s' AND NOT (written_bits ty r) = reg_val r s AND NOT (written_bits ty r)"
proof -
  let ?d = "life_cycle_reason ty"
  define c :: u16 where "c = word_of_int (search_rtc_by_lcr (rtc_to_lcr ?d) reason)"
  define v where "v = reg_val (sol_reg ?d) s"
  define v' where "v' = (v AND NOT (sol_mask ?d)) OR (push_bit (sol_shift ?d) c AND sol_mask ?d)"
  obtain s' w where w: "rtc_write_rest ?d c v (Some s) = Some s'" "calm s'" "committed s'"
    "parity_ok s'" "spar0 s' = (if sol_reg ?d = SPAR0_REG then v' else spar0 s)"
    "al_dow s' = ((if sol_reg ?d = AL_DOW_REG then v' else al_dow s) AND NOT PARITY_MASK) OR (w AND PARITY_MASK)"
    by (rule quiet_write_rest [OF assms, of ty c v, folded v'_def])
  have run: "rtc_write_life_cycle_reason reason (Some ?d) (Some s) = (0, Some s')"
    unfolding rtc_write_life_cycle_reason_def Let_def option.case quiet_locked_read [OF assms reg_field]
    by (simp only: prod.case c_def [symmetric] v_def [symmetric] w(1))
  note after = reg_after_write [OF w(5,6)]
  have "field ty s' = c AND 7"
    unfolding field_def after v'_def unfolding mask_field by (simp only: refl if_True field_put [OF field_bits])
  moreover have "field ty' s' = field ty' s" if "ty' \<noteq> ty" for ty'
  proof (rule field_cong)
    show "reg_val (sol_reg (life_cycle_reason ty')) s' AND sol_mask (life_cycle_reason ty') =
        reg_val (sol_reg (life_cycle_reason ty')) s AND sol_mask (life_cycle_reason ty')"
      using put_outside [OF masks_disjoint, of ty ty' v "push_bit (sol_shift ?d) c"] that
      by (simp only: after v'_def v_def split: if_splits) simp
  qed
  moreover have "reg_val r s' AND NOT (written_bits ty r) = reg_val r s AND NOT (written_bits ty r)"
    if "r \<in> {SPAR0_REG, AL_DOW_REG}" for r
  proof (cases "r = SPAR0_REG")
    case True
    then show ?thesis by (simp add: reg_val_def w(5) v'_def v_def written_bits_def put_rest del: life_cycle_reason.simps)
  next
    case False
    then have r: "r = AL_DOW_REG" using that by simp
    have two: "((x AND NOT a) OR (y AND a)) AND NOT (m OR a) = x AND NOT (m OR a)" for x y a m :: u16
      by (auto simp: bit_eq_iff bit_simps)
    have one: "((x AND NOT m) OR (y AND m)) AND NOT (m OR a) = x AND NOT (m OR a)" for x y a m :: u16
      by (auto simp: bit_eq_iff bit_simps)
    show ?thesis
    proof (cases "sol_reg ?d = AL_DOW_REG")
      case t: True
      have "written_bits ty AL_DOW_REG = sol_mask ?d OR PARITY_MASK" using t by (simp only: written_bits_def refl if_True)
      moreover have "al_dow s' = (v' AND NOT PARITY_MASK) OR (w AND PARITY_MASK)"
        using w(6) t by (simp only: refl if_True)
      moreover have "v = al_dow s" using t by (simp add: v_def reg_val_def del: life_cycle_reason.simps)
      moreover have "reg_val AL_DOW_REG s' = al_dow s'" "reg_val AL_DOW_REG s = al_dow s" by (simp_all add: reg_val_def)
      ultimately show ?thesis by (simp only: r v'_def one two)
    next
      case f: False
      then show ?thesis
        using put_rest [of "al_dow s" PARITY_MASK w]
        by (simp add: r reg_val_def w(6) written_bits_def del: life_cycle_reason.simps)
    qed
  qed
  ultimately show ?thesis using that [OF run w(2-4)] unfolding c_def by simp
qed


section \<open>Clearing, the quiescent flag and corruption\<close>

lemma quiet_locked_clear:
  assumes "calm s" "r \<in> {SPAR0_REG, AL_DOW_REG}"
  shows "locked_clear r m (Some s) = locked_write r (reg_val r s AND NOT m) (Some s)"
proof -
  have "quiet (mutex_lock s)" using assms(1) by (simp add: calm_def)
  then show ?thesis
    using assms(2) quiet_read [of "mutex_lock s" "addr_base s + ucast r"]
    by (auto simp: locked_clear_def locked_write_def mtk_rtc_read_def mtk_rtc_acquire_lock_def
        reg_val_def spar0_def al_dow_def)
qed

lemma quiet_clear_step:
  assumes "calm s" "r \<in> {SPAR0_REG, AL_DOW_REG}"
  obtains s' where "locked_clear r m (Some s) = Some s'" "calm s'" "committed s'"
    "spar0 s' = (if r = SPAR0_REG then spar0 s AND NOT m else spar0 s)"
    "al_dow s' = (if r = AL_DOW_REG then al_dow s AND NOT m else al_dow s)"
  by (rule quiet_locked_write [OF assms, of "reg_val r s AND NOT m"])
    (use assms(2) in \<open>auto simp: quiet_locked_clear [OF assms] reg_val_def intro: that\<close>)

lemma quiet_clear:
  assumes "calm s"
  obtains s' where "rtc_clear_life_cycle_reason (Some s) = Some s'" "calm s'" "committed s'"
    "spar0 s' = (spar0 s AND NOT 0x1C00) AND NOT 0xE000"
    "al_dow s' = ((al_dow s AND NOT 0x0700) AND NOT 0x3800) AND NOT PARITY_MASK"
proof -
  obtain s1 where 1: "locked_clear SPAR0_REG 0x1C00 (Some s) = Some s1" "calm s1"
    "spar0 s1 = spar0 s AND NOT 0x1C00" "al_dow s1 = al_dow s"
    by (rule quiet_clear_step [OF assms, of SPAR0_REG "0x1C00"]) simp_all
  obtain s2 where 2: "locked_clear SPAR0_REG 0xE000 (Some s1) = Some s2" "calm s2"
    "spar0 s2 = spar0 s1 AND NOT 0xE000" "al_dow s2 = al_dow s1"
    by (rule quiet_clear_step [OF 1(2), of SPAR0_REG "0xE000"]) simp_all
  obtain s3 where 3: "locked_clear AL_DOW_REG 0x0700 (Some s2) = Some s3" "calm s3"
    "spar0 s3 = spar0 s2" "al_dow s3 = al_dow s2 AND NOT 0x0700"
    by (rule quiet_clear_step [OF 2(2), of AL_DOW_REG "0x0700"]) simp_all
  obtain s4 where 4: "locked_clear AL_DOW_REG 0x3800 (Some s3) = Some s4" "calm s4"
    "spar0 s4 = spar0 s3" "al_dow s4 = al_dow s3 AND NOT 0x3800"
    by (rule quiet_clear_step [OF 3(2), of AL_DOW_REG "0x3800"]) simp_all
  obtain s5 where 5: "locked_clear AL_DOW_REG PARITY_MASK (Some s4) = Some s5" "calm s5" "committed s5"
    "spar0 s5 = spar0 s4" "al_dow s5 = al_dow s4 AND NOT PARITY_MASK"
    by (rule quiet_clear_step [OF 4(2), of AL_DOW_REG "PARITY_MASK"]) simp_all
  have "rtc_clear_life_cycle_reason (Some s) = Some s5"
    by (simp add: rtc_clear_life_cycle_reason_def life_cycle_reasons_def 1(1) 2(1) 3(1) 4(1) 5(1))
  then show ?thesis using that [of s5] 5(2-5) 1(3,4) 2(3,4) 3(3,4) 4(3,4) by simp
qed

lemma cleared_masks:
  "((x AND NOT a) AND NOT b) AND a = (0::u16)" "((x AND NOT a) AND NOT b) AND b = (0::u16)"
  "(((x AND NOT a) AND NOT b) AND NOT c) AND a = (0::u16)" "(((x AND NOT a) AND NOT b) AND NOT c) AND b = (0::u16)"
  "(((x AND NOT a) AND NOT b) AND NOT c) AND c = (0::u16)"
  by (auto simp: bit_eq_iff bit_simps)

lemma field_after_clear:
  assumes "spar0 s' = (spar0 s AND NOT 0x1C00) AND NOT 0xE000"
    "al_dow s' = ((al_dow s AND NOT 0x0700) AND NOT 0x3800) AND NOT PARITY_MASK"
  shows "field ty s' = 0" "parity_ok s'"
proof -
  have c: "spar0 s' AND 0x1C00 = 0" "spar0 s' AND 0xE000 = 0" "al_dow s' AND 0x0700 = 0" "al_dow s' AND 0x3800 = 0"
    "al_dow s' AND PARITY_MASK = 0"
    unfolding assms by (rule cleared_masks)+
  show f: "field ty s' = 0" for ty by (cases ty) (simp_all add: field_def reg_val_def c)
  have z: "xor_bits n 0 0 = 0" for n by (induction n) simp_all
  show "parity_ok s'" by (simp add: parity_ok_def packed_def f c(5) z)
qed

text \<open>The twelve bits, and the parity bit, as single bits of the registers.\<close>

lemma bit_seven: "bit (7::u16) n \<longleftrightarrow> n < 3"
proof -
  have "7 = (mask 3::u16)" by (simp add: mask_eq_exp_minus_1)
  then show ?thesis by (simp only: bit_mask_iff) auto
qed

lemma bit_masked: "bit (drop_bit k (x AND push_bit k (m::u16))) n \<longleftrightarrow> bit m n \<and> k + n < 16 \<and> bit x (k + n)"
  by (auto simp: bit_simps)

lemma bit_masked_seven:
  "k \<le> 13 \<Longrightarrow> bit (drop_bit k (x AND push_bit k (7::u16))) n \<longleftrightarrow> n < 3 \<and> bit x (k + n)"
  unfolding bit_masked bit_seven by auto

lemma bit_field: "bit (field ty s) n \<longleftrightarrow> n < 3 \<and> bit (reg_val (sol_reg (life_cycle_reason ty)) s) (sol_shift (life_cycle_reason ty) + n)"
proof -
  have "sol_shift (life_cycle_reason ty) \<le> 13" by (cases ty) simp_all
  then show ?thesis unfolding field_def mask_field by (rule bit_masked_seven)
qed

lemma bit_packed:
  "bit (packed s) n \<longleftrightarrow> n < 12 \<and> (if n < 6 then bit (spar0 s) (10 + n) else bit (al_dow s) (n + 2))"
proof -
  have f: "bit (field BOOT s) k \<longleftrightarrow> k < 3 \<and> bit (spar0 s) (10 + k)"
    "bit (field SHUTDOWN s) k \<longleftrightarrow> k < 3 \<and> bit (spar0 s) (13 + k)"
    "bit (field THERMAL_SHUTDOWN s) k \<longleftrightarrow> k < 3 \<and> bit (al_dow s) (8 + k)"
    "bit (field SPECIAL s) k \<longleftrightarrow> k < 3 \<and> bit (al_dow s) (11 + k)" for k
    by (simp_all add: bit_field reg_val_def)
  note b = packed_def bit_or_iff bit_push_bit_iff bit_unsigned_iff f
  show ?thesis
  proof (cases "n < 12")
    case True
    then have "n \<in> {0, 1, 2, 3, 4, 5, 6, 7, 8, 9, 10, 11}" by (simp add: eval_nat_numeral less_Suc_eq)
    then show ?thesis by (elim insertE) (simp_all add: b)
  next
    case False
    then have "\<not> n < 3" "\<not> n - 3 < 3" "\<not> n - 6 < 3" "\<not> n - 9 < 3" by arith+
    then show ?thesis using False by (simp add: b)
  qed
qed

lemma and_single_bit: "x AND push_bit k 1 = (if bit x k then push_bit k 1 else (0::u16))"
  by (rule bit_word_eqI) (auto simp: bit_simps)

lemma parity_ok_bit: "parity_ok s \<longleftrightarrow> of_bool (bit (al_dow s) 14) = xor_bits 12 0 (packed s)"
  using and_single_bit [of "al_dow s" 14] by (simp add: parity_ok_def push_bit_eq_mult drop_bit_eq_div)

text \<open>\<open>flip r k s\<close> is the chip with bit \<open>k\<close> of register \<open>r\<close> corrupted.\<close>

definition flip :: "u16 \<Rightarrow> nat \<Rightarrow> mt6397_rtc \<Rightarrow> mt6397_rtc" where
  "flip r k s = s\<lparr>regs := (regs s)(addr_base s + ucast r := regs s (addr_base s + ucast r) XOR push_bit k 1)\<rparr>"

lemma quiet_flip [simp]: "calm (flip r k s) = calm s"
  by (simp add: flip_def calm_def)

lemma bit_flip_one: "bit (x XOR push_bit k 1) n \<longleftrightarrow> (bit x n \<noteq> (n = k \<and> k < 16))" for x :: u16
  by (auto simp: bit_simps)

lemma bit_flip:
  assumes "r \<in> {SPAR0_REG, AL_DOW_REG}"
  shows "bit (spar0 (flip r k s)) n \<longleftrightarrow> (bit (spar0 s) n \<noteq> (r = SPAR0_REG \<and> n = k \<and> k < 16))"
    "bit (al_dow (flip r k s)) n \<longleftrightarrow> (bit (al_dow s) n \<noteq> (r = AL_DOW_REG \<and> n = k \<and> k < 16))"
proof -
  have "spar0 (flip r k s) = (if r = SPAR0_REG then spar0 s XOR push_bit k 1 else spar0 s)"
    "al_dow (flip r k s) = (if r = AL_DOW_REG then al_dow s XOR push_bit k 1 else al_dow s)"
    using assms by (auto simp: flip_def spar0_def al_dow_def)
  then show "bit (spar0 (flip r k s)) n \<longleftrightarrow> (bit (spar0 s) n \<noteq> (r = SPAR0_REG \<and> n = k \<and> k < 16))"
    "bit (al_dow (flip r k s)) n \<longleftrightarrow> (bit (al_dow s) n \<noteq> (r = AL_DOW_REG \<and> n = k \<and> k < 16))"
    by (simp_all only: bit_flip_one split: if_split) auto
qed

lemma flip_breaks_parity:
  assumes "r = SPAR0_REG \<and> 10 \<le> k \<and> k < 16 \<or> r = AL_DOW_REG \<and> 8 \<le> k \<and> k < 15"
  shows "parity_ok (flip r k s) \<longleftrightarrow> \<not> parity_ok s"
proof -
  have r: "r \<in> {SPAR0_REG, AL_DOW_REG}" using assms by auto
  have x: "xor_bits 12 0 (packed s) \<in> {0, 1}" by (rule xor_bits_range) simp
  show ?thesis
  proof (cases "k = 14 \<and> r = AL_DOW_REG")
    case True
    have "packed (flip r k s) = packed s"
      by (rule bit_word_eqI, simp only: bit_packed bit_flip [OF r]) (use True in auto)
    moreover have "bit (al_dow (flip r k s)) 14 \<longleftrightarrow> \<not> bit (al_dow s) 14" using True by (simp add: bit_flip)
    ultimately show ?thesis using x by (auto simp: parity_ok_bit)
  next
    case False
    define i where "i = (if r = SPAR0_REG then k - 10 else k - 2)"
    have i: "i < 12" using assms False by (auto simp: i_def)
    have "packed (flip r k s) = packed s XOR push_bit i 1"
    proof (rule bit_word_eqI)
      fix n assume "n < LENGTH(32)"
      have "n = i \<longleftrightarrow> (if r = SPAR0_REG then n + 10 = k else n + 2 = k)" using assms by (auto simp: i_def)
      then show "bit (packed (flip r k s)) n = bit (packed s XOR push_bit i 1) n"
        unfolding bit_packed bit_flip [OF r] bit_xor_iff bit_push_bit_iff bit_1_iff using assms False i by auto
    qed
    then have "xor_bits 12 0 (packed (flip r k s)) = xor_bits 12 0 (packed s) XOR 1"
      using xor_bits_flip [OF i, of 0 "packed s"] by simp
    moreover have "bit (al_dow (flip r k s)) 14 = bit (al_dow s) 14" using False by (auto simp: bit_flip [OF r])
    ultimately show ?thesis using x by (auto simp: parity_ok_bit)
  qed
qed


section \<open>The store of reasons as an interface\<close>

text \<open>
  What the sign-of-life core relies on: reads succeed and disturb nothing, a written reason reads
  back and leaves the others alone, a reset makes every reason blank.  \<open>good\<close> is the condition on
  the store, \<open>storable\<close> says which reasons it can hold.
\<close>

locale life_cycle_store =
  fixes good :: "'s \<Rightarrow> bool"
    and rd :: "life_reason_type \<Rightarrow> 's \<Rightarrow> (int + life_cycle_reason_t) \<times> 's"
    and wr :: "life_reason_type \<Rightarrow> life_cycle_reason_t \<Rightarrow> 's \<Rightarrow> int \<times> 's"
    and clr :: "'s \<Rightarrow> int \<times> 's"
    and storable :: "life_reason_type \<Rightarrow> life_cycle_reason_t \<Rightarrow> bool"
    and blank :: "'s \<Rightarrow> life_reason_type \<Rightarrow> life_cycle_reason_t"
  assumes rd_good: "good s \<Longrightarrow> good (snd (rd ty s))"
    and rd_value: "good s \<Longrightarrow> \<exists>r. fst (rd ty s) = Inr r"
    and rd_rd: "good s \<Longrightarrow> fst (rd ty' (snd (rd ty s))) = fst (rd ty' s)"
    and wr_good: "good s \<Longrightarrow> good (snd (wr ty r s))"
    and wr_rd: "good s \<Longrightarrow> storable ty r \<Longrightarrow> fst (rd ty (snd (wr ty r s))) = Inr r"
    and wr_rd_other: "good s \<Longrightarrow> ty' \<noteq> ty \<Longrightarrow> fst (rd ty' (snd (wr ty r s))) = fst (rd ty' s)"
    and clr_good: "good s \<Longrightarrow> good (snd (clr s))"
    and clr_rd: "good s \<Longrightarrow> fst (rd ty (snd (clr s))) = Inr (blank s ty)"
begin

text \<open>After a sequence of writes every reason reads as the last one written of its type.\<close>

lemma writes_good: "good s \<Longrightarrow> good (fold (\<lambda>(ty, r) s. snd (wr ty r s)) ws s)"
  by (induction ws arbitrary: s) (auto simp: wr_good)

lemma rd_writes:
  "good s \<Longrightarrow> \<forall>(t, r) \<in> set ws. storable t r \<Longrightarrow>
     fst (rd ty (fold (\<lambda>(t, r) s. snd (wr t r s)) ws s)) =
       (case map_of (rev ws) ty of None \<Rightarrow> fst (rd ty s) | Some r \<Rightarrow> Inr r)"
proof (induction ws rule: rev_induct)
  case (snoc w ws)
  obtain t r where w: "w = (t, r)" by (cases w)
  let ?s = "fold (\<lambda>(t, r) s. snd (wr t r s)) ws s"
  have g: "good ?s" using snoc.prems(1) by (rule writes_good)
  have st: "storable t r" using snoc.prems(2) by (simp add: w)
  show ?case
  proof (cases "t = ty")
    case True
    then show ?thesis using wr_rd [OF g st] by (simp add: w)
  next
    case False
    then show ?thesis using wr_rd_other [OF g, of ty t r] snoc by (simp add: w)
  qed
qed simp

end

text \<open>
  The functions \<open>life_cycle_platform_init\<close> installs, by type of reason, and the condition under which
  they are such a store: the RTC answers, its mutex is free, what was written has reached its clock domain, and the
  parity is right.
\<close>

fun sol_read :: "life_reason_type \<Rightarrow> sol_platform \<Rightarrow> (int + life_cycle_reason_t) \<times> sol_platform" where
  "sol_read BOOT = rtc_read_boot_reason"
| "sol_read SHUTDOWN = rtc_read_shutdown_reason"
| "sol_read THERMAL_SHUTDOWN = rtc_read_thermal_shutdown_reason"
| "sol_read SPECIAL = rtc_read_special_mode"

fun sol_write :: "life_reason_type \<Rightarrow> life_cycle_reason_t \<Rightarrow> sol_platform \<Rightarrow> int \<times> sol_platform" where
  "sol_write BOOT = rtc_write_boot_reason"
| "sol_write SHUTDOWN = rtc_write_shutdown_reason"
| "sol_write THERMAL_SHUTDOWN = rtc_write_thermal_shutdown_reason"
| "sol_write SPECIAL = rtc_write_special_mode"

definition sol_good :: "sol_platform \<Rightarrow> bool" where
  "sol_good sp = (case sol_rtc sp of None \<Rightarrow> False | Some s \<Rightarrow> calm s \<and> committed s \<and> parity_ok s)"

definition sol_blank :: "sol_platform \<Rightarrow> life_reason_type \<Rightarrow> life_cycle_reason_t" where
  "sol_blank sp ty = (if ty = BOOT then lcr_boot sp else LIFE_CYCLE_NOT_AVAILABLE)"

definition storable :: "life_reason_type \<Rightarrow> life_cycle_reason_t \<Rightarrow> bool" where
  "storable ty r \<longleftrightarrow> known ty r \<and> r \<noteq> LIFE_CYCLE_NOT_AVAILABLE"

lemma sol_goodE:
  assumes "sol_good sp"
  obtains s where "sol_rtc sp = Some s" "calm s" "parity_ok s" "committed s"
  using assms by (cases "sol_rtc sp") (auto simp: sol_good_def)

text \<open>What is read in a good state, from the field and the command line.\<close>

definition shown :: "life_reason_type \<Rightarrow> u16 \<Rightarrow> sol_platform \<Rightarrow> life_cycle_reason_t" where
  "shown ty w sp = (let r = search_lcr_by_rtc (rtc_to_lcr (life_cycle_reason ty)) w
     in if r = LIFE_CYCLE_NOT_AVAILABLE then sol_blank sp ty else r)"

lemma sol_read_quiet:
  assumes "sol_rtc sp = Some s" "calm s"
  shows "sol_read ty sp =
    (Inr (if parity_ok s then shown ty (field ty s) sp else LIFE_CYCLE_SMODE_RTC_CHECK_FAIL),
     sp\<lparr>sol_rtc := Some s\<rparr>)"
  using assms quiet_read_reason [OF assms(2), of ty]
  by (cases ty) (simp_all add: rtc_read_boot_reason_def rtc_read_shutdown_reason_def
      rtc_read_thermal_shutdown_reason_def rtc_read_special_mode_def read_reason_def shown_def sol_blank_def Let_def
      del: life_cycle_reason.simps)

lemma sol_write_quiet:
  assumes "sol_rtc sp = Some s" "calm s"
  obtains s' where "sol_write ty r sp = (0, sp\<lparr>sol_rtc := Some s'\<rparr>)" "calm s'" "committed s'" "parity_ok s'"
    "field ty s' = word_of_int (search_rtc_by_lcr (rtc_to_lcr (life_cycle_reason ty)) r) AND 7"
    "\<forall>ty'. ty' \<noteq> ty \<longrightarrow> field ty' s' = field ty' s"
    "\<forall>r. r \<in> {SPAR0_REG, AL_DOW_REG} \<longrightarrow> reg_val r s' AND NOT (written_bits ty r) = reg_val r s AND NOT (written_bits ty r)"
proof -
  have w: "sol_write ty r sp = write_reason ty r sp"
    by (cases ty) (simp_all add: rtc_write_boot_reason_def rtc_write_shutdown_reason_def
        rtc_write_thermal_shutdown_reason_def rtc_write_special_mode_def)
  obtain s' where 1: "rtc_write_life_cycle_reason r (Some (life_cycle_reason ty)) (Some s) = (0, Some s')"
    "calm s'" "committed s'" "parity_ok s'"
    "field ty s' = word_of_int (search_rtc_by_lcr (rtc_to_lcr (life_cycle_reason ty)) r) AND 7"
    "\<forall>ty'. ty' \<noteq> ty \<longrightarrow> field ty' s' = field ty' s"
    "\<forall>r. r \<in> {SPAR0_REG, AL_DOW_REG} \<longrightarrow> reg_val r s' AND NOT (written_bits ty r) = reg_val r s AND NOT (written_bits ty r)"
    by (rule quiet_write_reason [OF assms(2), of r ty])
  have "sol_write ty r sp = (0, sp\<lparr>sol_rtc := Some s'\<rparr>)"
    by (simp add: w write_reason_def assms(1) 1(1) del: life_cycle_reason.simps)
  then show ?thesis using 1(2-7) by (rule that)
qed

lemma sol_reset_quiet:
  assumes "sol_rtc sp = Some s" "calm s"
  obtains s' where "rtc_lcr_reset sp = (0, sp\<lparr>sol_rtc := Some s'\<rparr>)" "calm s'" "committed s'" "parity_ok s'"
    "\<forall>ty. field ty s' = 0"
proof -
  obtain s' where 1: "rtc_clear_life_cycle_reason (Some s) = Some s'" "calm s'" "committed s'"
    "spar0 s' = (spar0 s AND NOT 0x1C00) AND NOT 0xE000"
    "al_dow s' = ((al_dow s AND NOT 0x0700) AND NOT 0x3800) AND NOT PARITY_MASK"
    by (rule quiet_clear [OF assms(2)])
  have "rtc_lcr_reset sp = (0, sp\<lparr>sol_rtc := Some s'\<rparr>)" by (simp add: rtc_lcr_reset_def assms(1) 1(1))
  then show ?thesis using 1(2,3) field_after_clear [OF 1(4,5)] by (simp add: that)
qed

lemma shown_code:
  "storable ty r \<Longrightarrow> shown ty (word_of_int (search_rtc_by_lcr (rtc_to_lcr (life_cycle_reason ty)) r) AND 7) sp = r"
  "shown ty 0 sp = sol_blank sp ty"
  by (simp_all add: shown_def storable_def table_roundtrip table_zero)

lemma shown_rtc [simp]: "shown ty w (sp\<lparr>sol_rtc := p\<rparr>) = shown ty w sp"
  by (simp add: shown_def sol_blank_def Let_def)

interpretation rtc_store: life_cycle_store sol_good sol_read sol_write rtc_lcr_reset storable sol_blank
proof
  fix sp ty ty' r
  assume "sol_good sp"
  then obtain s where s: "sol_rtc sp = Some s" "calm s" "parity_ok s" "committed s" by (rule sol_goodE)
  note rd = sol_read_quiet [OF s(1,2)]
  show "sol_good (snd (sol_read ty sp))" "\<exists>r. fst (sol_read ty sp) = Inr r"
    "fst (sol_read ty' (snd (sol_read ty sp))) = fst (sol_read ty' sp)"
    using s by (simp_all add: rd sol_good_def sol_read_quiet)
  obtain s' where w: "sol_write ty r sp = (0, sp\<lparr>sol_rtc := Some s'\<rparr>)" "calm s'" "committed s'" "parity_ok s'"
    "field ty s' = word_of_int (search_rtc_by_lcr (rtc_to_lcr (life_cycle_reason ty)) r) AND 7"
    "\<forall>ty'. ty' \<noteq> ty \<longrightarrow> field ty' s' = field ty' s"
    by (rule sol_write_quiet [OF s(1,2), of ty r])
  show "sol_good (snd (sol_write ty r sp))" using w by (simp add: sol_good_def)
  show "fst (sol_read ty (snd (sol_write ty r sp))) = Inr r" if "storable ty r"
    using w shown_code(1) [OF that] by (simp add: sol_read_quiet)
  show "fst (sol_read ty' (snd (sol_write ty r sp))) = fst (sol_read ty' sp)" if "ty' \<noteq> ty"
    using w(1,2,4,6) that s by (simp add: sol_read_quiet)
  obtain s'' where c: "rtc_lcr_reset sp = (0, sp\<lparr>sol_rtc := Some s''\<rparr>)" "calm s''" "committed s''" "parity_ok s''" "\<forall>ty. field ty s'' = 0"
    by (rule sol_reset_quiet [OF s(1,2)])
  show "sol_good (snd (rtc_lcr_reset sp))" "fst (sol_read ty (snd (rtc_lcr_reset sp))) = Inr (sol_blank sp ty)"
    using c by (simp_all add: sol_good_def sol_read_quiet shown_code(2))
qed


section \<open>Concurrent updates and the command line\<close>

lemma quiet_lprst:
  assumes "calm s"
  obtains s' where "mtk_rtc_mark_sw_lprst (Some s) = Some (0, s')" "calm s'" "committed s'"
    "spar0 s' = spar0 s OR RTC_SPAR0_LPRST" "al_dow s' = al_dow s"
proof -
  have w: "wrtgr s = 0x3a \<or> wrtgr s = 0x3c" using assms by (simp add: calm_def quiet_def)
  have q: "quiet (mutex_lock s)" "idle s" using assms by (simp_all add: calm_def)
  define s1 where "s1 = (mutex_lock s)\<lparr>regs := (regs s)(addr_base s + RTC_SPAR0 := spar0 s OR RTC_SPAR0_LPRST)\<rparr>"
  have 0: "regmap_read (addr_base s + RTC_SPAR0) (mutex_lock s) = (Inr (spar0 s), mutex_lock s)"
    using quiet_read [OF q(1), of "addr_base s + RTC_SPAR0"] by (simp add: spar0_def)
  have 1: "regmap_write (addr_base s + RTC_SPAR0) (spar0 s OR RTC_SPAR0_LPRST) (mutex_lock s) = (0, s1)"
    using quiet_write [OF q(1), of "addr_base s + RTC_SPAR0" "spar0 s OR RTC_SPAR0_LPRST"] w
    by (auto simp: s1_def)
  have q1: "quiet s1" using q(1) by (simp add: s1_def)
  define s2 where "s2 = mutex_unlock (s1\<lparr>regs := (regs s1)(addr_base s1 + wrtgr s1 := 1),
    core := (regs s1)(addr_base s1 + wrtgr s1 := 1), cbusy := 0\<rparr>)"
  have "mtk_rtc_mark_sw_lprst (Some s) = Some (0, s2)"
    using quiet_trigger [OF q1] 0 1 by (simp add: mtk_rtc_mark_sw_lprst_def s2_def)
  moreover have "calm s2" "committed s2"
    using q1 q(2) by (simp_all add: s2_def calm_def committed_def) (simp add: idle_def s1_def idle_simps [OF q(2)])
  moreover have "spar0 s2 = spar0 s OR RTC_SPAR0_LPRST" "al_dow s2 = al_dow s"
    using w by (auto simp: s2_def s1_def spar0_def al_dow_def)
  ultimately show ?thesis by (rule that)
qed

text \<open>The mark of a software reset is in no field.\<close>

lemma field_lprst:
  assumes "spar0 s' = spar0 s OR RTC_SPAR0_LPRST" "al_dow s' = al_dow s"
  shows "field ty s' = field ty s"
proof (rule field_cong)
  have "(spar0 s OR 0x200) AND m = spar0 s AND m" if "0x200 AND m = 0" for m :: u16
    using that by (simp add: bit.conj_disj_distrib2)
  then show "reg_val (sol_reg (life_cycle_reason ty)) s' AND sol_mask (life_cycle_reason ty) =
     reg_val (sol_reg (life_cycle_reason ty)) s AND sol_mask (life_cycle_reason ty)"
    using assms by (cases ty) (simp_all add: reg_val_def)
qed

lemma parity_lprst:
  assumes "spar0 s' = spar0 s OR RTC_SPAR0_LPRST" "al_dow s' = al_dow s"
  shows "parity_ok s' = parity_ok s"
  using packed_cong [OF field_lprst [OF assms]] assms(2) by (simp add: parity_ok_def)

lemma quiet_mark_quiescent:
  assumes "calm s"
  obtains s' where "rtc_mark_quiescent v (Some s) = (0, Some s')" "calm s'" "committed s'" "spar0 s' = spar0 s"
    "al_dow s' = (if v = 0 then al_dow s AND NOT PMIC_RTC_QUIESCENT else al_dow s OR PMIC_RTC_QUIESCENT)"
proof -
  have q: "quiet (mutex_lock s)" using assms by (simp add: calm_def)
  define w where "w = (if v = 0 then al_dow s AND NOT PMIC_RTC_QUIESCENT else al_dow s OR PMIC_RTC_QUIESCENT)"
  have "rtc_mark_quiescent v (Some s) = (0, locked_write AL_DOW_REG w (Some s))"
    using quiet_read [OF q, of "addr_base s + RTC_AL_DOW"]
    by (simp add: rtc_mark_quiescent_def locked_write_def mtk_rtc_read_def mtk_rtc_acquire_lock_def
        al_dow_def split_def w_def)
  moreover obtain s' where "locked_write AL_DOW_REG w (Some s) = Some s'" "calm s'" "committed s'"
    "spar0 s' = spar0 s" "al_dow s' = w"
    by (rule quiet_locked_write [OF assms, of AL_DOW_REG w]) simp_all
  ultimately show ?thesis using that [of s'] by (simp add: w_def)
qed

lemma bit_top_mask: "bit (0x8000::u16) n \<longleftrightarrow> n = 15"
proof -
  have "(0x8000::u16) = push_bit 15 1" by (simp add: push_bit_eq_mult)
  then show ?thesis by (simp only: bit_push_bit_iff bit_1_iff) auto
qed

lemma bit_quiescent:
  "bit (x AND NOT PMIC_RTC_QUIESCENT) n \<longleftrightarrow> n \<noteq> 15 \<and> bit x n" "bit (x OR PMIC_RTC_QUIESCENT) n \<longleftrightarrow> n = 15 \<or> bit x n"
  for x :: u16
proof -
  have "bit x n \<Longrightarrow> n < 16" by (auto dest: bit_imp_le_length)
  then show "bit (x AND NOT PMIC_RTC_QUIESCENT) n \<longleftrightarrow> n \<noteq> 15 \<and> bit x n"
    "bit (x OR PMIC_RTC_QUIESCENT) n \<longleftrightarrow> n = 15 \<or> bit x n"
    unfolding bit_and_iff bit_or_iff bit_not_iff bit_top_mask by auto
qed

lemma and_low:
  assumes "\<And>n. n < 15 \<Longrightarrow> bit x n = bit y n"
  shows "x AND 0x7FFF = y AND (0x7FFF::u16)"
proof -
  have "(0x7FFF::u16) = mask 15" by (simp add: mask_eq_exp_minus_1)
  then have "bit (0x7FFF::u16) n \<longleftrightarrow> n < 15" for n by (simp only: bit_mask_iff) auto
  then show ?thesis by (intro bit_word_eqI) (use assms in \<open>auto simp only: bit_and_iff\<close>)
qed

text \<open>The first occurrence of a key word.\<close>

lemma strstr_first:
  assumes "\<And>i. i < length pre \<Longrightarrow> take (length kw) (drop i (pre @ kw @ rest)) \<noteq> kw"
  shows "strstr (pre @ kw @ rest) kw = Some (kw @ rest)"
  using assms
proof (induction pre)
  case Nil
  then show ?case by (cases kw; cases rest) simp_all
next
  case (Cons c pre)
  have "take (length kw) (drop i (pre @ kw @ rest)) \<noteq> kw" if "i < length pre" for i
    using Cons.prems [of "Suc i"] that by simp
  then have "strstr (pre @ kw @ rest) kw = Some (kw @ rest)" by (rule Cons.IH)
  then show ?case using Cons.prems [of 0] by simp
qed

lemma strstr_space:
  assumes "CHR '' '' \<notin> set w"
  shows "strstr (w @ CHR '' '' # post) '' '' = Some (CHR '' '' # post)"
  using strstr_first [of w "'' ''" post] assms by (force simp: take_Suc hd_drop_conv_nth nth_append in_set_conv_nth)


lemma strstr_no_space: "CHR '' '' \<notin> set w \<Longrightarrow> strstr w '' '' = None"
  by (induction w) (auto simp: take_Suc)

definition the_default :: "'a \<Rightarrow> 'a option \<Rightarrow> 'a" where
  "the_default d x = (case x of None \<Rightarrow> d | Some y \<Rightarrow> y)"

section \<open>Properties\<close>

text \<open>
  C4: the spare bits of the RTC implement a map from the type of a reason to the reason: whatever
  the registers hold, after a reset and any sequence of writes of reasons the tables know, each
  reason reads as the last one written of its type, and one never written as blank (for the boot
  reason, as the one from the kernel command line).
\<close>

theorem sol_reads_last_write:
  assumes "sol_rtc sp = Some s" "calm s" "\<forall>(t, r) \<in> set ws. storable t r"
  shows "fst (sol_read ty (fold (\<lambda>(t, r) sp. snd (sol_write t r sp)) ws (snd (rtc_lcr_reset sp)))) =
    Inr (case map_of (rev ws) ty of Some r \<Rightarrow> r | None \<Rightarrow> sol_blank sp ty)"
proof -
  obtain s' where c: "rtc_lcr_reset sp = (0, sp\<lparr>sol_rtc := Some s'\<rparr>)" "calm s'" "committed s'" "parity_ok s'" "\<forall>ty. field ty s' = 0"
    by (rule sol_reset_quiet [OF assms(1,2)])
  have "sol_good (snd (rtc_lcr_reset sp))" using c by (simp add: sol_good_def)
  moreover have "fst (sol_read ty (snd (rtc_lcr_reset sp))) = Inr (sol_blank sp ty)"
    using c by (simp add: sol_read_quiet shown_code(2))
  ultimately show ?thesis using rtc_store.rd_writes [of "snd (rtc_lcr_reset sp)" ws ty] assms(3)
    by (simp split: option.split)
qed

definition sol_example :: sol_platform where
  "sol_example = \<lparr>sol_rtc = Some rtc_example, lcr_boot = COLDBOOT_BY_USB\<rparr>"

theorem sol_reads_last_write_witness:
  "let ws = [(SHUTDOWN, SHUTDOWN_BY_SW), (THERMAL_SHUTDOWN, THERMAL_SHUTDOWN_REASON_BTS), (SHUTDOWN, SHUTDOWN_BY_PWR_KEY)];
       sp = fold (\<lambda>(t, r) sp. snd (sol_write t r sp)) ws (snd (rtc_lcr_reset sol_example))
   in fst (sol_read SHUTDOWN sp) = Inr SHUTDOWN_BY_PWR_KEY \<and> fst (sol_read BOOT sp) = Inr COLDBOOT_BY_USB"
proof -
  define ws where "ws = [(SHUTDOWN, SHUTDOWN_BY_SW), (THERMAL_SHUTDOWN, THERMAL_SHUTDOWN_REASON_BTS), (SHUTDOWN, SHUTDOWN_BY_PWR_KEY)]"
  have st: "\<forall>(t, r) \<in> set ws. storable t r"
    by (auto simp: ws_def storable_def known_def reason_tables)
  show ?thesis
    using sol_reads_last_write [of sol_example rtc_example ws SHUTDOWN, OF _ _ st]
      sol_reads_last_write [of sol_example rtc_example ws BOOT, OF _ _ st]
    by (simp add: ws_def [symmetric] Let_def) (simp add: sol_example_def ws_def sol_blank_def)
qed

text \<open>
  C17: a single flipped bit is detected: when any of the twelve reason bits or the parity bit of
  registers with a matching parity changes, every reason reads as \<^verbatim>\<open>LIFE_CYCLE_SMODE_RTC_CHECK_FAIL\<close>
  instead of as a wrong reason.
\<close>

theorem sol_flip_detected:
  assumes "calm s" "parity_ok s" "sol_rtc sp = Some (flip r k s)"
    and "r = SPAR0_REG \<and> 10 \<le> k \<and> k < 16 \<or> r = AL_DOW_REG \<and> 8 \<le> k \<and> k < 15"
  shows "fst (sol_read ty sp) = Inr LIFE_CYCLE_SMODE_RTC_CHECK_FAIL"
  using assms flip_breaks_parity [OF assms(4)] by (simp add: sol_read_quiet)

theorem sol_flip_detected_witness:
  "fst (sol_read SPECIAL (sol_example\<lparr>sol_rtc := Some (flip SPAR0_REG 12 rtc_example)\<rparr>)) = Inr LIFE_CYCLE_SMODE_RTC_CHECK_FAIL"
proof -
  have "field ty rtc_example = 0" for ty
    by (simp add: field_def reg_val_def spar0_def al_dow_def rtc_example_def)
  moreover have "xor_bits n 0 0 = 0" for n by (induction n) simp_all
  ultimately have "parity_ok rtc_example"
    by (simp add: parity_ok_def packed_def al_dow_def) (simp add: rtc_example_def)
  then show ?thesis
    by (intro sol_flip_detected [of rtc_example _ SPAR0_REG 12]) simp_all
qed

text \<open>
  C26: writing a reason changes nothing in the two registers but the reason's own field and the parity bit, so that the
  fields of the other reasons, the quiescent flag, the mark of a software reset and the alarm's day of the week stay; and
  marking the device quiescent changes nothing but the quiescent flag, so that every reason reads as before.
\<close>

theorem sol_keeps_other_bits:
  assumes "sol_rtc sp = Some s" "calm s"
  shows "(\<exists>s'. sol_write ty r sp = (0, sp\<lparr>sol_rtc := Some s'\<rparr>) \<and> calm s' \<and>
       spar0 s' AND NOT (written_bits ty SPAR0_REG) = spar0 s AND NOT (written_bits ty SPAR0_REG) \<and>
       al_dow s' AND NOT (written_bits ty AL_DOW_REG) = al_dow s AND NOT (written_bits ty AL_DOW_REG)) \<and>
    (\<exists>s'. rtc_mark_quiescent v (sol_rtc sp) = (0, Some s') \<and> calm s' \<and>
       spar0 s' = spar0 s \<and> al_dow s' AND 0x7FFF = al_dow s AND 0x7FFF \<and> (bit (al_dow s') 15 \<longleftrightarrow> v \<noteq> 0) \<and>
       fst (sol_read ty (sp\<lparr>sol_rtc := Some s'\<rparr>)) = fst (sol_read ty sp))"
proof (rule conjI)
  obtain s' where w: "sol_write ty r sp = (0, sp\<lparr>sol_rtc := Some s'\<rparr>)" "calm s'"
    "\<forall>r. r \<in> {SPAR0_REG, AL_DOW_REG} \<longrightarrow> reg_val r s' AND NOT (written_bits ty r) = reg_val r s AND NOT (written_bits ty r)"
    by (rule sol_write_quiet [OF assms, of ty r])
  from spec [OF w(3), of SPAR0_REG] spec [OF w(3), of AL_DOW_REG]
  show "\<exists>s'. sol_write ty r sp = (0, sp\<lparr>sol_rtc := Some s'\<rparr>) \<and> calm s' \<and>
       spar0 s' AND NOT (written_bits ty SPAR0_REG) = spar0 s AND NOT (written_bits ty SPAR0_REG) \<and>
       al_dow s' AND NOT (written_bits ty AL_DOW_REG) = al_dow s AND NOT (written_bits ty AL_DOW_REG)"
    using w(1,2) by (simp add: reg_val_def del: sol_write.simps) blast
  obtain s' where q: "rtc_mark_quiescent v (Some s) = (0, Some s')" "calm s'" "spar0 s' = spar0 s"
    "al_dow s' = (if v = 0 then al_dow s AND NOT PMIC_RTC_QUIESCENT else al_dow s OR PMIC_RTC_QUIESCENT)"
    by (rule quiet_mark_quiescent [OF assms(2)])
  have b: "bit (al_dow s') n \<longleftrightarrow> (if n = 15 then v \<noteq> 0 else bit (al_dow s) n)" for n
    using bit_quiescent [of "al_dow s" n] by (simp only: q(4) split: if_split) auto
  have "al_dow s' AND 0x7FFF = al_dow s AND 0x7FFF" using and_low [of "al_dow s'" "al_dow s"] b by simp
  moreover have "packed s' = packed s" by (rule bit_word_eqI) (simp add: bit_packed q(3) b)
  then have "parity_ok s' = parity_ok s" by (simp add: parity_ok_bit b)
  moreover have "field ty s' = field ty s" for ty
    by (rule bit_word_eqI) (cases ty; auto simp: bit_field reg_val_def q(3) b)
  ultimately show "\<exists>s'. rtc_mark_quiescent v (sol_rtc sp) = (0, Some s') \<and> calm s' \<and>
       spar0 s' = spar0 s \<and> al_dow s' AND 0x7FFF = al_dow s AND 0x7FFF \<and> (bit (al_dow s') 15 \<longleftrightarrow> v \<noteq> 0) \<and>
       fst (sol_read ty (sp\<lparr>sol_rtc := Some s'\<rparr>)) = fst (sol_read ty sp)"
    using q b [of 15] assms by (simp add: sol_read_quiet)
qed

theorem sol_keeps_other_bits_witness:
  "\<exists>s'. sol_write SHUTDOWN SHUTDOWN_BY_SW sol_example = (0, sol_example\<lparr>sol_rtc := Some s'\<rparr>) \<and> calm s' \<and>
     spar0 s' AND NOT 0xE000 = 0 \<and> al_dow s' AND NOT PARITY_MASK = 0"
proof -
  have "spar0 rtc_example = 0" "al_dow rtc_example = 0" by (simp_all add: spar0_def al_dow_def) (simp_all add: rtc_example_def)
  then show ?thesis
    using sol_keeps_other_bits [of sol_example rtc_example SHUTDOWN SHUTDOWN_BY_SW 1]
    by (auto simp: sol_example_def written_bits_def simp del: sol_write.simps)
qed



text \<open>
  the boot reason on the kernel command line: a value that ends in a space is recorded exactly
  when it is one of the five known ones, a value of more than 31 characters is written past the end
  of the 32 byte buffer, and a value that no space follows is ignored.
\<close>

theorem bootreason_from_cmdline:
  assumes "\<And>i. i < length pre \<Longrightarrow> take (length keyword) (drop i (pre @ keyword @ val @ post)) \<noteq> keyword"
    and "CHR '' '' \<notin> set val" "post = [] \<or> hd post = CHR '' ''"
  shows "get_android_bootreason (pre @ keyword @ val @ post) sp =
    (if post = [] \<or> val = [] then Some sp
     else if length val > 31 then None
     else Some (sp\<lparr>lcr_boot := the_default LIFE_CYCLE_NOT_AVAILABLE
        (map_of [(''=PowerKey'', COLDBOOT_BY_POWER_KEY), (''=usb'', COLDBOOT_BY_USB),
          (''=Watchdog'', WARMBOOT_BY_KERNEL_WATCHDOG), (''=wdt_hw'', WARMBOOT_BY_HW_WATCHDOG),
          (''=kernel_panic'', WARMBOOT_BY_KERNEL_PANIC)] val)\<rparr>))"
proof -
  have k: "strstr (pre @ keyword @ val @ post) keyword = Some (keyword @ val @ post)"
    using assms(1) by (rule strstr_first)
  have sp: "CHR '' '' \<notin> set (keyword @ val)" using assms(2) by (simp add: keyword_def)
  show ?thesis
  proof (cases "post = []")
    case True
    then show ?thesis using k strstr_no_space [OF sp] by (simp add: get_android_bootreason_def)
  next
    case False
    then obtain p where p: "post = CHR '' '' # p" using assms(3) by (cases post) auto
    have "strstr (keyword @ val @ post) '' '' = Some (CHR '' '' # p)"
      using strstr_space [OF sp, of p] by (simp only: p append_assoc)
    then show ?thesis using k p by (simp add: get_android_bootreason_def the_default_def)
  qed
qed

theorem bootreason_from_cmdline_witness:
  "get_android_bootreason (''quiet '' @ keyword @ ''=usb'' @ '' loglevel=4'') sol_example =
     Some (sol_example\<lparr>lcr_boot := COLDBOOT_BY_USB\<rparr>) \<and>
   get_android_bootreason (''quiet '' @ keyword @ replicate 40 CHR ''x'' @ '' loglevel=4'') sol_example = None"
proof -
  have "take (length keyword) (drop i (''quiet '' @ keyword @ w)) \<noteq> keyword" if "i < 6" for i w
  proof -
    have "i \<in> {0, 1, 2, 3, 4, 5}" using that by auto
    then show ?thesis by (elim insertE) (simp_all add: keyword_def)
  qed
  then show ?thesis
    using bootreason_from_cmdline [of "''quiet ''" "''=usb''" "'' loglevel=4''" sol_example]
      bootreason_from_cmdline [of "''quiet ''" "replicate 40 CHR ''x''" "'' loglevel=4''" sol_example]
    by (simp add: the_default_def)
qed

end
