(* ===== verification/Boot_Common.thy ===== *)
theory Boot_Common
  imports Kernel_Base
begin

text \<open>
  The boot mode driver (\<^verbatim>\<open>drivers/misc/mediatek/boot/mtk_boot_common.c\<close>): how the boot mode and the
  boot device type passed by the boot loader in the device tree become the answers of
  \<^verbatim>\<open>get_boot_mode\<close>, \<^verbatim>\<open>is_charging_mode\<close> and the other queries.  The device tree is the argument
  \<open>chosen\<close>: what the nodes \<^verbatim>\<open>/chosen\<close> and \<^verbatim>\<open>/chosen@0\<close> hold, if they exist.
\<close>

abbreviation (input) META_BOOT :: u32 where "META_BOOT \<equiv> 1"
abbreviation (input) ADVMETA_BOOT :: u32 where "ADVMETA_BOOT \<equiv> 5"
abbreviation (input) KERNEL_POWER_OFF_CHARGING_BOOT :: u32 where "KERNEL_POWER_OFF_CHARGING_BOOT \<equiv> 8"
abbreviation (input) LOW_POWER_OFF_CHARGING_BOOT :: u32 where "LOW_POWER_OFF_CHARGING_BOOT \<equiv> 9"
abbreviation (input) UNKNOWN_BOOT :: u32 where "UNKNOWN_BOOT \<equiv> 11"
abbreviation (input) BOOTDEV_SDMMC :: int where "BOOTDEV_SDMMC \<equiv> 1"

datatype boot_init_state = BM_UNINIT | BM_INITIALIZING | BM_INITIALIZED

record boot_common =
  g_boot_mode :: u32
  g_boot_type :: int
  g_boot_init :: boot_init_state
  g_boot_errcnt :: nat
  g_boot_status :: nat

definition boot_common_initial :: boot_common where
  "boot_common_initial = \<lparr>g_boot_mode = UNKNOWN_BOOT, g_boot_type = 0xFF, g_boot_init = BM_UNINIT,
     g_boot_errcnt = 0, g_boot_status = 0\<rparr>"

record tag_bootmode =
  bootmode :: u32
  boottype :: u32

text \<open>A node is the \<^verbatim>\<open>atag,boot\<close> property it has, if any.\<close>

type_synonym chosen_nodes = "tag_bootmode option option \<times> tag_bootmode option option"

definition dt_get_boot_common :: "chosen_nodes \<Rightarrow> boot_common \<Rightarrow> int \<times> boot_common" where
  "dt_get_boot_common nodes b =
     (case (case fst nodes of None \<Rightarrow> snd nodes | Some n \<Rightarrow> Some n) of
        None \<Rightarrow> (0, b)
      | Some None \<Rightarrow> (1, b)
      | Some (Some tags) \<Rightarrow>
          let ty = s32 (uint (boottype tags))
          in (1, b\<lparr>g_boot_mode := bootmode tags,
                   g_boot_type := (if ty > 2 \<or> ty < 0 then BOOTDEV_SDMMC else ty),
                   g_boot_status := 1\<rparr>))"

definition init_boot_common :: "chosen_nodes \<Rightarrow> boot_common \<Rightarrow> boot_common" where
  "init_boot_common nodes b =
     (if g_boot_init b = BM_INITIALIZING then b\<lparr>g_boot_errcnt := g_boot_errcnt b + 1\<rparr>
      else if g_boot_init b \<noteq> BM_UNINIT then b
      else
        let b = b\<lparr>g_boot_init := BM_INITIALIZING\<rparr>
        in if g_boot_mode b \<noteq> UNKNOWN_BOOT then b\<lparr>g_boot_init := BM_INITIALIZED\<rparr>
           else let (rc, b) = dt_get_boot_common nodes b
                in if rc \<noteq> 0 then b\<lparr>g_boot_init := BM_INITIALIZED\<rparr> else b)"

definition get_boot_mode :: "boot_common \<Rightarrow> u32" where
  "get_boot_mode b = g_boot_mode b"

definition get_boot_type :: "boot_common \<Rightarrow> u32" where
  "get_boot_type b = word_of_int (g_boot_type b)"

definition is_charging_mode :: "boot_common \<Rightarrow> bool" where
  "is_charging_mode b \<longleftrightarrow>
     g_boot_mode b = KERNEL_POWER_OFF_CHARGING_BOOT \<or> g_boot_mode b = LOW_POWER_OFF_CHARGING_BOOT"

definition is_meta_mode :: "boot_common \<Rightarrow> bool" where
  "is_meta_mode b \<longleftrightarrow> g_boot_mode b = META_BOOT"

definition is_advanced_meta_mode :: "boot_common \<Rightarrow> bool" where
  "is_advanced_meta_mode b \<longleftrightarrow> g_boot_mode b = ADVMETA_BOOT"

definition boot_mode_proc_show :: "boot_common \<Rightarrow> string" where
  "boot_mode_proc_show b =
     [CHR 0x0A, CHR 0x0D] @ ''MTK BOOT MODE : '' @
     (if g_boot_mode b = 0 then ''NORMAL BOOT''
      else if g_boot_mode b = META_BOOT then ''META BOOT''
      else if g_boot_mode b = ADVMETA_BOOT then ''Advanced META BOOT''
      else if g_boot_mode b = 6 then ''ATE_FACTORY BOOT''
      else if g_boot_mode b = 7 then ''ALARM BOOT''
      else ''UNKNOWN BOOT'') @ [CHR 0x0A]"

section \<open>Lemmas\<close>

text \<open>What the boot loader passed is what the queries answer, and the type is one of the three devices.\<close>

lemma boot_type_range:
  "g_boot_type b \<in> {0, 1, 2, 255} \<Longrightarrow> g_boot_type (init_boot_common nodes b) \<in> {0, 1, 2, 255}"
proof -
  assume b: "g_boot_type b \<in> {0, 1, 2, 255}"
  have "\<not> (ty > 2 \<or> ty < 0) \<Longrightarrow> ty \<in> {0, 1, 2::int}" for ty by auto
  then show ?thesis using b
    by (auto simp: init_boot_common_def dt_get_boot_common_def Let_def split: option.splits)
qed

lemma init_boot_common_once:
  "g_boot_init (init_boot_common nodes b) = BM_INITIALIZED \<Longrightarrow>
     init_boot_common nodes' (init_boot_common nodes b) = init_boot_common nodes b"
  by (simp add: init_boot_common_def)

lemma init_boot_common_mode:
  assumes "nodes = (Some (Some tags), other)"
  shows "g_boot_init (init_boot_common nodes boot_common_initial) = BM_INITIALIZED"
    and "g_boot_mode (init_boot_common nodes boot_common_initial) = bootmode tags"
  by (simp_all add: assms init_boot_common_def dt_get_boot_common_def boot_common_initial_def Let_def)

end
