(* ===== verification/Sol_Core.thy ===== *)
theory Sol_Core
  imports Sol_Rtc Boot_Common
begin

text \<open>
  The core of Amazon's sign-of-life driver (\<^verbatim>\<open>drivers/staging/amazon/amzn_sign_of_life_v3.c\<close>): the
  table of reasons with their texts, the lookup at boot with its order of priority, the exported
  setters, the reboot notifier and the initialisation.  The driver reaches the registers through
  the operations table \<open>sign_of_life_ops\<close>, which \<open>life_cycle_platform_init\<close> fills with the RTC back end
  (\<open>Sol_Rtc\<close>), and asks the boot mode driver (\<open>Boot_Common\<close>) whether the device only charges.

  The pointer \<^verbatim>\<open>p_dev_sol\<close> is NULL before the initialisation and dangling after the clean-up; every
  function returns \<^term>\<open>None\<close> when it reads through the dangling pointer or outside a table.
\<close>

section \<open>The table of reasons\<close>

record sign_of_life_reason_data =
  reason_value :: life_cycle_reason_t
  life_cycle_reasons_text :: string
  life_cycle_type :: string

definition lcr_entry :: "life_cycle_reason_t \<Rightarrow> string \<Rightarrow> string \<Rightarrow> sign_of_life_reason_data" where
  "lcr_entry r t ty = \<lparr>reason_value = r, life_cycle_reasons_text = t, life_cycle_type = ty\<rparr>"

definition lcr_data :: "sign_of_life_reason_data list" where
  "lcr_data =
    [lcr_entry LIFE_CYCLE_NOT_AVAILABLE ''Life Cycle Reason Not Available'' ''LCR_abnormal'',
     lcr_entry SHUTDOWN_BY_SW ''Software Shutdown'' ''LCR_normal'',
     lcr_entry SHUTDOWN_BY_LONG_PWR_KEY_PRESS ''Long Pressed Power Key Shutdown'' ''LCR_abnormal'',
     lcr_entry THERMAL_SHUTDOWN_REASON_PMIC ''PMIC Overheated Thermal Shutdown'' ''LCR_abnormal'',
     lcr_entry THERMAL_SHUTDOWN_REASON_BATTERY ''Battery Overheated Thermal Shutdown'' ''LCR_abnormal'',
     lcr_entry THERMAL_SHUTDOWN_REASON_SOC ''SOC Overheated Thermal Shutdown'' ''LCR_abnormal'',
     lcr_entry THERMAL_SHUTDOWN_REASON_PCB ''PCB Overheated Thermal Shutdown'' ''LCR_abnormal'',
     lcr_entry THERMAL_SHUTDOWN_REASON_WIFI ''WIFI Overheated Thermal Shutdown'' ''LCR_abnormal'',
     lcr_entry THERMAL_SHUTDOWN_REASON_BTS ''BTS Overheated Thermal Shutdown'' ''LCR_abnormal'',
     lcr_entry THERMAL_SHUTDOWN_REASON_MODEM ''Modem Overheated Thermal Shutdown'' ''LCR_abnormal'',
     lcr_entry LIFE_CYCLE_SMODE_LOW_BATTERY ''Low Battery Shutdown'' ''LCR_normal'',
     lcr_entry SHUTDOWN_BY_SUDDEN_POWER_LOSS ''Sudden Power Loss Shutdown'' ''LCR_abnormal'',
     lcr_entry SHUTDOWN_BY_UNKNOWN_REASONS ''Unknown Shutdown'' ''LCR_abnormal'',
     lcr_entry COLDBOOT_BY_POWER_KEY ''Cold Boot By Power Key'' ''LCR_normal'',
     lcr_entry COLDBOOT_BY_USB ''Cold Boot By USB'' ''LCR_normal'',
     lcr_entry COLDBOOT_BY_POWER_SUPPLY ''Cold Boot By Power Supply'' ''LCR_normal'',
     lcr_entry WARMBOOT_BY_SW ''Warm Boot By Software'' ''LCR_normal'',
     lcr_entry WARMBOOT_BY_KERNEL_PANIC ''Warm Boot By Kernel Panic'' ''LCR_abnormal'',
     lcr_entry WARMBOOT_BY_KERNEL_WATCHDOG ''Warm Boot By Kernel Watchdog'' ''LCR_abnormal'',
     lcr_entry WARMBOOT_BY_HW_WATCHDOG ''Warm Boot By HW Watchdog'' ''LCR_abnormal'',
     lcr_entry LIFE_CYCLE_SMODE_WARM_BOOT_USB_CONNECTED ''Power Off Charging Mode'' ''LCR_normal'',
     lcr_entry LIFE_CYCLE_SMODE_FACTORY_RESET ''Factory Reset Reboot'' ''LCR_normal'',
     lcr_entry LIFE_CYCLE_SMODE_OTA ''OTA Reboot'' ''LCR_normal'',
     lcr_entry LIFE_CYCLE_SMODE_RTC_CHECK_FAIL ''RTC Check Fail'' ''LCR_normal'']"

text \<open>The numbers of the enumeration; the lookup compares them with 0.\<close>

fun lcr_num :: "life_cycle_reason_t \<Rightarrow> int" where
  "lcr_num LIFE_CYCLE_NOT_AVAILABLE = -1"
| "lcr_num WARMBOOT_BY_KERNEL_PANIC = 0x100" | "lcr_num WARMBOOT_BY_KERNEL_WATCHDOG = 0x101"
| "lcr_num WARMBOOT_BY_HW_WATCHDOG = 0x102" | "lcr_num WARMBOOT_BY_SW = 0x103"
| "lcr_num COLDBOOT_BY_USB = 0x104" | "lcr_num COLDBOOT_BY_POWER_KEY = 0x105"
| "lcr_num COLDBOOT_BY_POWER_SUPPLY = 0x106"
| "lcr_num SHUTDOWN_BY_LONG_PWR_KEY_PRESS = 0x201" | "lcr_num SHUTDOWN_BY_SW = 0x202"
| "lcr_num SHUTDOWN_BY_PWR_KEY = 0x203" | "lcr_num SHUTDOWN_BY_SUDDEN_POWER_LOSS = 0x204"
| "lcr_num SHUTDOWN_BY_UNKNOWN_REASONS = 0x205"
| "lcr_num THERMAL_SHUTDOWN_REASON_BATTERY = 0x301" | "lcr_num THERMAL_SHUTDOWN_REASON_PMIC = 0x302"
| "lcr_num THERMAL_SHUTDOWN_REASON_SOC = 0x303" | "lcr_num THERMAL_SHUTDOWN_REASON_MODEM = 0x304"
| "lcr_num THERMAL_SHUTDOWN_REASON_WIFI = 0x305" | "lcr_num THERMAL_SHUTDOWN_REASON_PCB = 0x306"
| "lcr_num THERMAL_SHUTDOWN_REASON_BTS = 0x307"
| "lcr_num LIFE_CYCLE_SMODE_NONE = 0x400" | "lcr_num LIFE_CYCLE_SMODE_LOW_BATTERY = 0x401"
| "lcr_num LIFE_CYCLE_SMODE_WARM_BOOT_USB_CONNECTED = 0x402" | "lcr_num LIFE_CYCLE_SMODE_OTA = 0x403"
| "lcr_num LIFE_CYCLE_SMODE_FACTORY_RESET = 0x404" | "lcr_num LIFE_CYCLE_SMODE_RTC_CHECK_FAIL = 0x405"

fun search_lcr_from :: "nat \<Rightarrow> sign_of_life_reason_data list \<Rightarrow> life_cycle_reason_t \<Rightarrow> nat" where
  "search_lcr_from i [] reason = 0"
| "search_lcr_from i (e # table) reason =
     (if reason_value e = reason then i else search_lcr_from (i + 1) table reason)"

definition search_lcr_table :: "sign_of_life_reason_data list \<Rightarrow> life_cycle_reason_t \<Rightarrow> nat" where
  "search_lcr_table table reason = search_lcr_from 1 (drop 1 table) reason"

section \<open>The driver\<close>

type_synonym sol_reader = "sol_platform \<Rightarrow> (int + life_cycle_reason_t) \<times> sol_platform"
type_synonym sol_writer = "life_cycle_reason_t \<Rightarrow> sol_platform \<Rightarrow> int \<times> sol_platform"

record sign_of_life_ops =
  read_boot_reason :: "sol_reader option"
  write_boot_reason :: "sol_writer option"
  read_shutdown_reason :: "sol_reader option"
  write_shutdown_reason :: "sol_writer option"
  read_thermal_shutdown_reason :: "sol_reader option"
  write_thermal_shutdown_reason :: "sol_writer option"
  op_read_special_mode :: "sol_reader option"
  op_write_special_mode :: "sol_writer option"
  op_lcr_reset :: "(sol_platform \<Rightarrow> int \<times> sol_platform) option"

definition no_ops :: sign_of_life_ops where
  "no_ops = \<lparr>read_boot_reason = None, write_boot_reason = None, read_shutdown_reason = None,
     write_shutdown_reason = None, read_thermal_shutdown_reason = None, write_thermal_shutdown_reason = None,
     op_read_special_mode = None, op_write_special_mode = None, op_lcr_reset = None\<rparr>"

definition life_cycle_platform_init :: "sign_of_life_ops \<Rightarrow> sign_of_life_ops" where
  "life_cycle_platform_init ops = \<lparr>read_boot_reason = Some rtc_read_boot_reason,
     write_boot_reason = Some rtc_write_boot_reason,
     read_shutdown_reason = Some rtc_read_shutdown_reason,
     write_shutdown_reason = Some rtc_write_shutdown_reason,
     read_thermal_shutdown_reason = Some rtc_read_thermal_shutdown_reason,
     write_thermal_shutdown_reason = Some rtc_write_thermal_shutdown_reason,
     op_read_special_mode = Some rtc_read_special_mode,
     op_write_special_mode = Some rtc_write_special_mode,
     op_lcr_reset = Some rtc_lcr_reset\<rparr>"

record dev_sol =
  version :: string
  life_cycle_reason_idx :: nat
  sol_ops :: sign_of_life_ops

datatype dev_sol_ptr = SolNull | SolPtr dev_sol | SolFreed

record sol_sys =
  p_dev_sol :: dev_sol_ptr
  is_charger_mode :: bool
  proc_entry :: bool
  reboot_nb :: bool
  platform :: sol_platform

text \<open>Four reads in the order of the source, stopping at the first failure.\<close>

fun read_reasons :: "sol_reader list \<Rightarrow> sol_platform \<Rightarrow> life_cycle_reason_t list option \<times> sol_platform" where
  "read_reasons [] sp = (Some [], sp)"
| "read_reasons (rd # rds) sp =
     (case rd sp of
        (Inl ret, sp) \<Rightarrow> (None, sp)
      | (Inr r, sp) \<Rightarrow>
          (case read_reasons rds sp of
             (None, sp) \<Rightarrow> (None, sp)
           | (Some rs, sp) \<Rightarrow> (Some (r # rs), sp)))"

text \<open>One step of the search, which the goto ends with the first index that is not 0.\<close>

fun first_index :: "life_cycle_reason_t list \<Rightarrow> nat" where
  "first_index [] = 0"
| "first_index (r # rs) =
     (let index = (if lcr_num r > 0 then search_lcr_table lcr_data r else 0)
      in if index \<noteq> 0 then index else first_index rs)"

definition life_cycle_reason_lookup :: "sol_sys \<Rightarrow> (int \<times> sol_sys) option" where
  "life_cycle_reason_lookup sys =
     (case p_dev_sol sys of
        SolNull \<Rightarrow> Some (- 1, sys)
      | SolFreed \<Rightarrow> None
      | SolPtr dev \<Rightarrow>
          (case (read_boot_reason (sol_ops dev), read_shutdown_reason (sol_ops dev),
                 read_thermal_shutdown_reason (sol_ops dev), op_read_special_mode (sol_ops dev)) of
             (Some rb, Some rs, Some rt, Some rm) \<Rightarrow>
               (case read_reasons [rb, rs, rt, rm] (platform sys) of
                  (Some [boot_reason, shutdown_reason, thermal_shutdown_reason, s_mode], sp) \<Rightarrow>
                    let index = first_index [thermal_shutdown_reason, shutdown_reason, boot_reason, s_mode]
                    in Some (int index,
                         sys\<lparr>platform := sp, p_dev_sol := SolPtr (dev\<lparr>life_cycle_reason_idx := index\<rparr>)\<rparr>)
                | (_, sp) \<Rightarrow> Some (- 1, sys\<lparr>platform := sp\<rparr>))
           | _ \<Rightarrow> Some (- 1, sys)))"

text \<open>The two entry points of the driver's self test.\<close>

definition clear_life_cycle_reason :: "sol_sys \<Rightarrow> (int \<times> sol_sys) option" where
  "clear_life_cycle_reason sys =
     (case p_dev_sol sys of
        SolNull \<Rightarrow> Some (- 1, sys)
      | SolFreed \<Rightarrow> None
      | SolPtr dev \<Rightarrow>
          (case op_lcr_reset (sol_ops dev) of
             None \<Rightarrow> Some (- 1, sys)
           | Some reset \<Rightarrow> Some (0, sys\<lparr>platform := snd (reset (platform sys))\<rparr>)))"

definition read_life_cycle_reason :: "life_reason_type \<Rightarrow> sol_sys \<Rightarrow> (int \<times> sol_sys) option" where
  "read_life_cycle_reason ty sys =
     (case p_dev_sol sys of
        SolNull \<Rightarrow> Some (- 1, sys)
      | SolFreed \<Rightarrow> None
      | SolPtr dev \<Rightarrow>
          (case (case ty of
                   BOOT \<Rightarrow> read_boot_reason (sol_ops dev)
                 | SHUTDOWN \<Rightarrow> read_shutdown_reason (sol_ops dev)
                 | THERMAL_SHUTDOWN \<Rightarrow> read_thermal_shutdown_reason (sol_ops dev)
                 | SPECIAL \<Rightarrow> op_read_special_mode (sol_ops dev)) of
             None \<Rightarrow> Some (- 1, sys)
           | Some rd \<Rightarrow>
               (case rd (platform sys) of
                  (Inl ret, sp) \<Rightarrow> Some (- 1, sys\<lparr>platform := sp\<rparr>)
                | (Inr life_reason, sp) \<Rightarrow>
                    let index = search_lcr_table lcr_data life_reason
                    in Some (if index = 0 then - 1 else int index, sys\<lparr>platform := sp\<rparr>))))"

definition life_cycle_reason_show :: "sol_sys \<Rightarrow> string option" where
  "life_cycle_reason_show sys =
     (case p_dev_sol sys of
        SolNull \<Rightarrow> Some ''life cycle reason driver is not initialized''
      | SolFreed \<Rightarrow> None
      | SolPtr dev \<Rightarrow>
          if life_cycle_reason_idx dev < length lcr_data
          then let e = lcr_data ! life_cycle_reason_idx dev
               in Some (''lc_version:'' @ version dev @ [CHR 0x0A] @
                        ''lc_reason:'' @ life_cycle_reasons_text e @ [CHR 0x0A] @
                        ''lc_type:'' @ life_cycle_type e @ [CHR 0x0A])
          else None)"

text \<open>The four exported setters differ in the operation they select.\<close>

definition life_cycle_set ::
    "(sign_of_life_ops \<Rightarrow> sol_writer option) \<Rightarrow> life_cycle_reason_t \<Rightarrow> sol_sys \<Rightarrow> (int \<times> sol_sys) option" where
  "life_cycle_set op reason sys =
     (case p_dev_sol sys of
        SolNull \<Rightarrow> Some (- 1, sys)
      | SolFreed \<Rightarrow> None
      | SolPtr dev \<Rightarrow>
          (case op (sol_ops dev) of
             None \<Rightarrow> Some (- 1, sys)
           | Some wr \<Rightarrow> Some (0, sys\<lparr>platform := snd (wr reason (platform sys))\<rparr>)))"

definition life_cycle_set_boot_reason :: "life_cycle_reason_t \<Rightarrow> sol_sys \<Rightarrow> (int \<times> sol_sys) option" where
  "life_cycle_set_boot_reason = life_cycle_set write_boot_reason"

definition life_cycle_set_shutdown_reason :: "life_cycle_reason_t \<Rightarrow> sol_sys \<Rightarrow> (int \<times> sol_sys) option" where
  "life_cycle_set_shutdown_reason = life_cycle_set write_shutdown_reason"

definition life_cycle_set_thermal_shutdown_reason :: "life_cycle_reason_t \<Rightarrow> sol_sys \<Rightarrow> (int \<times> sol_sys) option" where
  "life_cycle_set_thermal_shutdown_reason = life_cycle_set write_thermal_shutdown_reason"

definition life_cycle_set_special_mode :: "life_cycle_reason_t \<Rightarrow> sol_sys \<Rightarrow> (int \<times> sol_sys) option" where
  "life_cycle_set_special_mode = life_cycle_set op_write_special_mode"

datatype reboot_code = SYS_RESTART | SYS_HALT | SYS_POWER_OFF

definition life_cycle_reboot_notifier :: "reboot_code \<Rightarrow> sol_sys \<Rightarrow> sol_sys option" where
  "life_cycle_reboot_notifier code sys =
     (case code of
        SYS_RESTART \<Rightarrow> map_option snd (life_cycle_set_boot_reason WARMBOOT_BY_SW sys)
      | SYS_POWER_OFF \<Rightarrow> map_option snd (life_cycle_set_shutdown_reason SHUTDOWN_BY_SW sys)
      | _ \<Rightarrow> Some sys)"

text \<open>
  The initialisation; \<open>alloc\<close> and \<open>proc\<close> say whether the allocation and the proc entry succeed, \<open>b\<close>
  is the boot mode driver and \<open>cmdline\<close> the kernel command line.
\<close>

definition dev_sol_init :: "bool \<Rightarrow> bool \<Rightarrow> boot_common \<Rightarrow> string \<Rightarrow> sol_sys \<Rightarrow> (int \<times> sol_sys) option" where
  "dev_sol_init alloc proc b cmdline sys =
     (if \<not> alloc then Some (- ENOMEM, sys\<lparr>p_dev_sol := SolNull\<rparr>)
      else do {
        let dev = \<lparr>version = ''3.0'', life_cycle_reason_idx = 0, sol_ops = no_ops\<rparr>;
        let sys = sys\<lparr>proc_entry := proc, reboot_nb := True\<rparr>;
        let sys = sys\<lparr>p_dev_sol := SolPtr (dev\<lparr>sol_ops := life_cycle_platform_init (sol_ops dev)\<rparr>)\<rparr>;
        sp \<leftarrow> get_android_bootreason cmdline (platform sys);
        (_, sys) \<leftarrow> life_cycle_reason_lookup (sys\<lparr>platform := sp\<rparr>);
        let sys = (if is_charging_mode b then sys\<lparr>is_charger_mode := True\<rparr> else sys);
        dev \<leftarrow> (case p_dev_sol sys of SolPtr dev \<Rightarrow> Some dev | _ \<Rightarrow> None);
        let sys = (if \<not> is_charger_mode sys
                   then case op_lcr_reset (sol_ops dev) of
                          None \<Rightarrow> sys
                        | Some reset \<Rightarrow> sys\<lparr>platform := snd (reset (platform sys))\<rparr>
                   else sys);
        if life_cycle_reason_idx dev < length lcr_data then Some (0, sys) else None
      })"

text \<open>Freeing NULL does nothing, freeing twice is a fault; the pointer is not reset and the notifier stays registered.\<close>

definition dev_sol_cleanup :: "sol_sys \<Rightarrow> sol_sys option" where
  "dev_sol_cleanup sys =
     (let sys = sys\<lparr>proc_entry := False\<rparr>
      in case p_dev_sol sys of
           SolNull \<Rightarrow> Some sys
         | SolPtr dev \<Rightarrow> Some (sys\<lparr>p_dev_sol := SolFreed\<rparr>)
         | SolFreed \<Rightarrow> None)"


section \<open>The table\<close>

text \<open>
  The search returns the position of the first entry after the default one, or 0; so an index is
  always inside the table.
\<close>

lemma search_lcr_from_bound:
  "0 < i \<Longrightarrow> search_lcr_from i table r < i + length table \<and>
     (search_lcr_from i table r \<noteq> 0 \<longrightarrow> i \<le> search_lcr_from i table r \<and>
        reason_value (table ! (search_lcr_from i table r - i)) = r)"
proof (induction table arbitrary: i)
  case (Cons e table)
  show ?case
  proof (cases "reason_value e = r")
    case False
    define k where "k = search_lcr_from (i + 1) table r"
    have k: "k < i + 1 + length table" "k \<noteq> 0 \<Longrightarrow> i + 1 \<le> k \<and> reason_value (table ! (k - (i + 1))) = r"
      using Cons.IH [of "i + 1"] by (simp_all add: k_def)
    have "(e # table) ! (k - i) = table ! (k - (i + 1))" if "i + 1 \<le> k"
      using that by (simp add: nth_Cons')
    then show ?thesis using False k by (auto simp: k_def [symmetric] simp del: One_nat_def)
  qed (use Cons.prems in simp)
qed simp

lemma lcr_data_length [simp]: "length lcr_data = 24"
  by (simp add: lcr_data_def)

lemma search_lcr_table_bound [simp]: "search_lcr_table lcr_data r < 24"
  using search_lcr_from_bound [of 1 "drop 1 lcr_data" r] by (simp add: search_lcr_table_def)

lemma search_lcr_table_entry:
  assumes "search_lcr_table lcr_data r \<noteq> 0"
  shows "reason_value (lcr_data ! search_lcr_table lcr_data r) = r"
  using search_lcr_from_bound [of 1 "drop 1 lcr_data" r] assms by (simp add: search_lcr_table_def)

lemma first_index_bound [simp]: "first_index rs < 24"
  by (induction rs) (simp_all add: Let_def)

text \<open>The first index is the one of the first reason in the list that is in the table.\<close>

definition reported :: "life_cycle_reason_t \<Rightarrow> bool" where
  "reported r \<longleftrightarrow> lcr_num r > 0 \<and> search_lcr_table lcr_data r \<noteq> 0"

lemma first_index_find:
  "first_index rs = (case find reported rs of None \<Rightarrow> 0 | Some r \<Rightarrow> search_lcr_table lcr_data r)"
  by (induction rs) (auto simp: reported_def Let_def)

declare first_index.simps [simp del]

section \<open>The operations on the store\<close>

fun sol_set :: "life_reason_type \<Rightarrow> life_cycle_reason_t \<Rightarrow> sol_sys \<Rightarrow> (int \<times> sol_sys) option" where
  "sol_set BOOT = life_cycle_set_boot_reason"
| "sol_set SHUTDOWN = life_cycle_set_shutdown_reason"
| "sol_set THERMAL_SHUTDOWN = life_cycle_set_thermal_shutdown_reason"
| "sol_set SPECIAL = life_cycle_set_special_mode"

definition running :: "sol_sys \<Rightarrow> bool" where
  "running sys = (case p_dev_sol sys of
     SolPtr dev \<Rightarrow> sol_ops dev = life_cycle_platform_init no_ops \<and> life_cycle_reason_idx dev < 24 | _ \<Rightarrow> False)"

lemma runningE:
  assumes "running sys"
  obtains dev where "p_dev_sol sys = SolPtr dev" "sol_ops dev = life_cycle_platform_init no_ops"
    "life_cycle_reason_idx dev < 24"
  using assms by (auto simp: running_def split: dev_sol_ptr.splits)

lemma running_simps [simp]:
  "running (sys\<lparr>platform := sp\<rparr>) = running sys" "running (sys\<lparr>is_charger_mode := c\<rparr>) = running sys"
  by (simp_all add: running_def)

lemma sol_set_running:
  assumes "running sys"
  shows "sol_set ty r sys = Some (0, sys\<lparr>platform := snd (sol_write ty r (platform sys))\<rparr>)"
proof -
  obtain dev where "p_dev_sol sys = SolPtr dev" "sol_ops dev = life_cycle_platform_init no_ops"
    using assms by (rule runningE)
  then show ?thesis
    by (cases ty) (simp_all add: life_cycle_set_boot_reason_def life_cycle_set_shutdown_reason_def
        life_cycle_set_thermal_shutdown_reason_def life_cycle_set_special_mode_def life_cycle_set_def
        life_cycle_platform_init_def)
qed

lemma sol_read_same:
  assumes "sol_good sp"
  shows "snd (sol_read ty sp) = sp"
proof -
  obtain s where "sol_rtc sp = Some s" "calm s" using assms by (rule sol_goodE)
  then show ?thesis using sol_read_quiet [of sp s ty] by (cases sp) simp
qed

lemma read_reasons_good:
  assumes "sol_good sp" "\<And>ty. fst (sol_read ty sp) = Inr (v ty)"
  shows "read_reasons (map sol_read tys) sp = (Some (map v tys), sp)"
proof (induction tys)
  case (Cons ty tys)
  have "sol_read ty sp = (Inr (v ty), sp)" using assms(2) [of ty] sol_read_same [OF assms(1), of ty] by (metis prod.collapse)
  then show ?case using Cons by simp
qed simp

lemma lookup_good:
  assumes "p_dev_sol sys = SolPtr dev" "sol_ops dev = life_cycle_platform_init no_ops" "sol_good (platform sys)"
    and "\<And>ty. fst (sol_read ty (platform sys)) = Inr (v ty)"
  defines "i \<equiv> first_index [v THERMAL_SHUTDOWN, v SHUTDOWN, v BOOT, v SPECIAL]"
  shows "life_cycle_reason_lookup sys = Some (int i, sys\<lparr>p_dev_sol := SolPtr (dev\<lparr>life_cycle_reason_idx := i\<rparr>)\<rparr>)"
  using read_reasons_good [OF assms(3,4), of "[BOOT, SHUTDOWN, THERMAL_SHUTDOWN, SPECIAL]"]
  by (simp add: assms(1,2) i_def life_cycle_reason_lookup_def life_cycle_platform_init_def Let_def
      del: read_reasons.simps)

lemma bootreason_rtc: "get_android_bootreason cmd sp = Some sp' \<Longrightarrow> sol_rtc sp' = sol_rtc sp"
  by (auto simp: get_android_bootreason_def Let_def split: option.splits if_splits)

lemma bootreason_good: "get_android_bootreason cmd sp = Some sp' \<Longrightarrow> sol_good sp' = sol_good sp"
  by (simp add: sol_good_def bootreason_rtc)


text \<open>
  The initialisation with a working allocation: the index is looked up from the store as it was
  left, and the store is reset unless the device only charges.
\<close>

lemma init_good:
  assumes "sol_good (platform sys)" "get_android_bootreason cmd (platform sys) = Some sp"
    and "\<And>ty. fst (sol_read ty sp) = Inr (v ty)"
  obtains sys' dev where "dev_sol_init True pr b cmd sys = Some (0, sys')" "running sys'" "p_dev_sol sys' = SolPtr dev"
    "version dev = ''3.0''"
    "life_cycle_reason_idx dev = first_index [v THERMAL_SHUTDOWN, v SHUTDOWN, v BOOT, v SPECIAL]"
    "is_charger_mode sys' = (is_charger_mode sys \<or> is_charging_mode b)" "sol_good sp"
    "platform sys' = (if is_charger_mode sys' then sp else snd (rtc_lcr_reset sp))"
proof -
  define i where "i = first_index [v THERMAL_SHUTDOWN, v SHUTDOWN, v BOOT, v SPECIAL]"
  define dev where "dev = \<lparr>version = ''3.0'', life_cycle_reason_idx = 0, sol_ops = life_cycle_platform_init no_ops\<rparr>"
  define sys1 where "sys1 = sys\<lparr>proc_entry := pr, reboot_nb := True, p_dev_sol := SolPtr dev, platform := sp\<rparr>"
  have d: "p_dev_sol sys1 = SolPtr dev" "sol_ops dev = life_cycle_platform_init no_ops" "platform sys1 = sp"
    by (simp_all add: sys1_def dev_def)
  have g: "sol_good sp" using bootreason_good [OF assms(2)] assms(1) by simp
  have l: "life_cycle_reason_lookup sys1 = Some (int i, sys1\<lparr>p_dev_sol := SolPtr (dev\<lparr>life_cycle_reason_idx := i\<rparr>)\<rparr>)"
    unfolding i_def by (rule lookup_good [OF d(1,2), of v]) (use assms(3) d(3) g in auto)
  define c where "c = (is_charger_mode sys \<or> is_charging_mode b)"
  define sys3 where "sys3 = sys1\<lparr>platform := (if c then sp else snd (rtc_lcr_reset sp)),
    p_dev_sol := SolPtr (dev\<lparr>life_cycle_reason_idx := i\<rparr>), is_charger_mode := c\<rparr>"
  have i: "i < 24" unfolding i_def by (rule first_index_bound)
  have cm: "is_charger_mode sys1 = is_charger_mode sys" by (simp add: sys1_def)
  have same: "s\<lparr>p_dev_sol := y, is_charger_mode := is_charger_mode s\<rparr> = s\<lparr>p_dev_sol := y\<rparr>"
    "s\<lparr>platform := x, p_dev_sol := y, is_charger_mode := is_charger_mode s\<rparr> = s\<lparr>platform := x, p_dev_sol := y\<rparr>"
    for s x y by (cases s; simp)+
  have plat: "sys1\<lparr>platform := sp\<rparr> = sys1" using d(3) by (cases sys1) simp
  have reset: "op_lcr_reset (life_cycle_platform_init no_ops) = Some rtc_lcr_reset"
    by (simp add: life_cycle_platform_init_def)
  have "dev_sol_init True pr b cmd sys = Some (0, sys3)"
    using l assms(2) i cm
    by (auto simp: dev_sol_init_def dev_def [symmetric] sys1_def [symmetric] c_def sys3_def Let_def d(2,3)
        reset same plat)
  moreover have "running sys3" using i by (simp add: sys3_def running_def dev_def)
  moreover have "p_dev_sol sys3 = SolPtr (dev\<lparr>life_cycle_reason_idx := i\<rparr>)" "version (dev\<lparr>life_cycle_reason_idx := i\<rparr>) = ''3.0''"
    "life_cycle_reason_idx (dev\<lparr>life_cycle_reason_idx := i\<rparr>) = first_index [v THERMAL_SHUTDOWN, v SHUTDOWN, v BOOT, v SPECIAL]"
    "is_charger_mode sys3 = (is_charger_mode sys \<or> is_charging_mode b)"
    "platform sys3 = (if is_charger_mode sys3 then sp else snd (rtc_lcr_reset sp))"
    by (simp_all add: sys3_def dev_def i_def c_def)
  ultimately show ?thesis using g that by blast
qed


section \<open>Power cycles\<close>

text \<open>
  A power cycle: the static data of the drivers is initialised again, and of the RTC registers what the write trigger
  brought to the clock domain survives.
\<close>

definition power_cycle :: "sol_sys \<Rightarrow> sol_sys" where
  "power_cycle sys = \<lparr>p_dev_sol = SolNull, is_charger_mode = False, proc_entry = False, reboot_nb = False,
     platform = \<lparr>sol_rtc = map_option rtc_power_cycle (sol_rtc (platform sys)), lcr_boot = LIFE_CYCLE_NOT_AVAILABLE\<rparr>\<rparr>"

lemma cycle_regs:
  assumes "committed s"
  shows "spar0 (rtc_power_cycle s) = spar0 s" "al_dow (rtc_power_cycle s) = al_dow s"
    "field ty (rtc_power_cycle s) = field ty s" "parity_ok (rtc_power_cycle s) = parity_ok s"
proof -
  show r: "spar0 (rtc_power_cycle s) = spar0 s" "al_dow (rtc_power_cycle s) = al_dow s"
    using assms by (simp_all add: spar0_def al_dow_def committed_def)
  show f: "field ty (rtc_power_cycle s) = field ty s" for ty by (simp add: field_def reg_val_def r)
  show "parity_ok (rtc_power_cycle s) = parity_ok s" using packed_cong [OF f] r(2) by (simp add: parity_ok_def)
qed

text \<open>What was written before the power cycle can be read after it.\<close>

lemma cycle_good:
  assumes "sol_good (platform sys)"
  shows "sol_good (platform (power_cycle sys))"
    "fst (sol_read ty ((platform (power_cycle sys))\<lparr>lcr_boot := b\<rparr>)) = fst (sol_read ty ((platform sys)\<lparr>lcr_boot := b\<rparr>))"
proof -
  obtain s where s: "sol_rtc (platform sys) = Some s" "calm s" "parity_ok s" "committed s" using assms by (rule sol_goodE)
  have c: "calm (rtc_power_cycle s)" "committed (rtc_power_cycle s)" using s(2) by (simp_all add: calm_def committed_def)
  show "sol_good (platform (power_cycle sys))" using s c cycle_regs [OF s(4)] by (simp add: power_cycle_def sol_good_def)
  have "shown ty w ((platform (power_cycle sys))\<lparr>lcr_boot := b\<rparr>) = shown ty w ((platform sys)\<lparr>lcr_boot := b\<rparr>)" for w
    by (simp add: shown_def sol_blank_def Let_def)
  then show "fst (sol_read ty ((platform (power_cycle sys))\<lparr>lcr_boot := b\<rparr>)) = fst (sol_read ty ((platform sys)\<lparr>lcr_boot := b\<rparr>))"
    using sol_read_quiet [of "(platform (power_cycle sys))\<lparr>lcr_boot := b\<rparr>" "rtc_power_cycle s" ty]
      sol_read_quiet [of "(platform sys)\<lparr>lcr_boot := b\<rparr>" s ty] s c cycle_regs [OF s(4)]
    by (simp add: power_cycle_def del: sol_read.simps)
qed

text \<open>The setters called in sequence, as the drivers of the running kernel do.\<close>

fun sol_sets :: "(life_reason_type \<times> life_cycle_reason_t) list \<Rightarrow> sol_sys \<Rightarrow> sol_sys option" where
  "sol_sets [] sys = Some sys"
| "sol_sets ((ty, r) # ws) sys = Option.bind (sol_set ty r sys) (\<lambda>(_, sys). sol_sets ws sys)"

lemma sol_sets_running:
  "running sys \<Longrightarrow> sol_sets ws sys =
     Some (sys\<lparr>platform := fold (\<lambda>(t, r) sp. snd (sol_write t r sp)) ws (platform sys)\<rparr>)"
proof (induction ws arbitrary: sys)
  case (Cons w ws)
  obtain ty r where w: "w = (ty, r)" by (cases w)
  show ?case using Cons.IH [of "sys\<lparr>platform := snd (sol_write ty r (platform sys))\<rparr>"] Cons.prems
    by (simp add: w sol_set_running)
qed simp

text \<open>The boot reason of the command line plays no part in writes and resets.\<close>

lemma sol_write_lcr_boot:
  "snd (sol_write ty r (sp\<lparr>lcr_boot := b\<rparr>)) = (snd (sol_write ty r sp))\<lparr>lcr_boot := b\<rparr>"
  by (cases ty) (simp_all add: rtc_write_boot_reason_def rtc_write_shutdown_reason_def
      rtc_write_thermal_shutdown_reason_def rtc_write_special_mode_def write_reason_def split_def Let_def)

lemma sol_writes_lcr_boot:
  "fold (\<lambda>(t, r) sp. snd (sol_write t r sp)) ws (sp\<lparr>lcr_boot := b\<rparr>) =
     (fold (\<lambda>(t, r) sp. snd (sol_write t r sp)) ws sp)\<lparr>lcr_boot := b\<rparr>"
  by (induction ws arbitrary: sp) (auto simp: sol_write_lcr_boot)

lemma sol_reset_lcr_boot: "snd (rtc_lcr_reset (sp\<lparr>lcr_boot := b\<rparr>)) = (snd (rtc_lcr_reset sp))\<lparr>lcr_boot := b\<rparr>"
  by (simp add: rtc_lcr_reset_def)

lemma sol_good_lcr_boot [simp]: "sol_good (sp\<lparr>lcr_boot := b\<rparr>) = sol_good sp"
  by (simp add: sol_good_def)

text \<open>After a reset and writes the store reads, whatever the boot reason, as the last reasons written.\<close>

definition last_reason ::
    "(life_reason_type \<times> life_cycle_reason_t) list \<Rightarrow> life_cycle_reason_t \<Rightarrow> life_reason_type \<Rightarrow> life_cycle_reason_t" where
  "last_reason ws boot ty = (case map_of (rev ws) ty of Some r \<Rightarrow> r
     | None \<Rightarrow> if ty = BOOT then boot else LIFE_CYCLE_NOT_AVAILABLE)"

lemma reads_after_reset:
  fixes b :: life_cycle_reason_t
  assumes "sol_good sp" "\<forall>(t, r) \<in> set ws. storable t r"
  defines "sp' \<equiv> (fold (\<lambda>(t, r) sp. snd (sol_write t r sp)) ws (snd (rtc_lcr_reset sp)))\<lparr>lcr_boot := b\<rparr>"
  shows "sol_good sp'" "fst (sol_read ty sp') = Inr (last_reason ws b ty)"
proof -
  define sp0 where "sp0 = snd (rtc_lcr_reset (sp\<lparr>lcr_boot := b\<rparr>))"
  have eq: "sp' = fold (\<lambda>(t, r) sp. snd (sol_write t r sp)) ws sp0"
    by (simp add: sp'_def sp0_def sol_reset_lcr_boot sol_writes_lcr_boot)
  have g: "sol_good (sp\<lparr>lcr_boot := b\<rparr>)" using assms(1) by simp
  have g0: "sol_good sp0" unfolding sp0_def using g by (rule rtc_store.clr_good)
  show "sol_good sp'" unfolding eq using g0 by (rule rtc_store.writes_good)
  show "fst (sol_read ty sp') = Inr (last_reason ws b ty)"
    unfolding eq using rtc_store.rd_writes [OF g0 assms(2), of ty] rtc_store.clr_rd [OF g, of ty]
    by (auto simp: sp0_def [symmetric] last_reason_def sol_blank_def simp del: sol_read.simps split: option.split)
qed

text \<open>
  The value of the boot reason on the command line that fits the buffer, and the reason a command line gives.
\<close>

definition cmd_fits :: "string \<Rightarrow> bool" where
  "cmd_fits cmd =
     (case strstr cmd keyword of None \<Rightarrow> True
      | Some ptr \<Rightarrow> (case strstr ptr '' '' of None \<Rightarrow> True
          | Some ptr_e \<Rightarrow> int (length ptr - length ptr_e) - int (length keyword) \<le> 31))"

definition boot_of :: "string \<Rightarrow> life_cycle_reason_t" where
  "boot_of cmd = (case get_android_bootreason cmd \<lparr>sol_rtc = None, lcr_boot = LIFE_CYCLE_NOT_AVAILABLE\<rparr> of
     None \<Rightarrow> LIFE_CYCLE_NOT_AVAILABLE | Some sp \<Rightarrow> lcr_boot sp)"

lemma bootreason_fault: "get_android_bootreason cmd sp = None \<longleftrightarrow> \<not> cmd_fits cmd"
  by (auto simp: get_android_bootreason_def cmd_fits_def Let_def split: option.splits)

lemma bootreason_boot_of:
  assumes "cmd_fits cmd"
  shows "get_android_bootreason cmd (sp\<lparr>lcr_boot := LIFE_CYCLE_NOT_AVAILABLE\<rparr>) = Some (sp\<lparr>lcr_boot := boot_of cmd\<rparr>)"
  using assms
  by (auto simp: get_android_bootreason_def cmd_fits_def boot_of_def Let_def split: option.splits)

section \<open>Histories of calls\<close>

text \<open>
  The calls the kernel makes into the driver in any order: initialisation, setters, the reboot
  notifier, reads of the proc entry and the clean-up.  \<open>sol_ok\<close> says that a driver that is there is one the
  initialisation left.
\<close>

datatype sol_event =
    EvInit bool bool boot_common string
  | EvSet life_reason_type life_cycle_reason_t
  | EvNotify reboot_code
  | EvShow
  | EvRead life_reason_type
  | EvClear
  | EvCleanup

fun sol_step :: "sol_event \<Rightarrow> sol_sys \<Rightarrow> sol_sys option" where
  "sol_step (EvInit al pr b cmd) sys = map_option snd (dev_sol_init al pr b cmd sys)"
| "sol_step (EvSet ty r) sys = map_option snd (sol_set ty r sys)"
| "sol_step (EvNotify code) sys = life_cycle_reboot_notifier code sys"
| "sol_step EvShow sys = map_option (\<lambda>_. sys) (life_cycle_reason_show sys)"
| "sol_step (EvRead ty) sys = map_option snd (read_life_cycle_reason ty sys)"
| "sol_step EvClear sys = map_option snd (clear_life_cycle_reason sys)"
| "sol_step EvCleanup sys = dev_sol_cleanup sys"

fun sol_run :: "sol_event list \<Rightarrow> sol_sys \<Rightarrow> sol_sys option" where
  "sol_run [] sys = Some sys"
| "sol_run (e # es) sys = Option.bind (sol_step e sys) (sol_run es)"

definition sol_ok :: "sol_sys \<Rightarrow> bool" where
  "sol_ok sys \<longleftrightarrow> (\<forall>dev. p_dev_sol sys = SolPtr dev \<longrightarrow> running sys)"

text \<open>The specification: only the life of the allocation counts, and whether a command line fits.\<close>

datatype lifetime = NotAllocated | Live | Freed

fun lifetime_of :: "dev_sol_ptr \<Rightarrow> lifetime" where
  "lifetime_of SolNull = NotAllocated"
| "lifetime_of (SolPtr dev) = Live"
| "lifetime_of SolFreed = Freed"

fun life_step :: "sol_event \<Rightarrow> lifetime \<Rightarrow> lifetime option" where
  "life_step (EvInit al pr b cmd) l = (if \<not> al then Some NotAllocated else if cmd_fits cmd then Some Live else None)"
| "life_step EvCleanup l = (case l of NotAllocated \<Rightarrow> Some NotAllocated | Live \<Rightarrow> Some Freed | Freed \<Rightarrow> None)"
| "life_step (EvNotify SYS_HALT) l = Some l"
| "life_step _ l = (if l = Freed then None else Some l)"

fun life_run :: "sol_event list \<Rightarrow> lifetime \<Rightarrow> lifetime option" where
  "life_run [] l = Some l"
| "life_run (e # es) l = Option.bind (life_step e l) (life_run es)"

text \<open>A step and its specification agree: both fault, or both go on with the same lifetime.\<close>

definition agree :: "sol_sys option \<Rightarrow> lifetime option \<Rightarrow> bool" where
  "agree r l = (case r of None \<Rightarrow> l = None | Some sys \<Rightarrow> sol_ok sys \<and> l = Some (lifetime_of (p_dev_sol sys)))"

lemma running_ok: "running sys \<Longrightarrow> sol_ok sys \<and> lifetime_of (p_dev_sol sys) = Live"
  by (auto simp: sol_ok_def running_def split: dev_sol_ptr.splits)

lemma set_agrees:
  assumes "sol_ok sys"
  shows "agree (map_option snd (sol_set ty r sys)) (if lifetime_of (p_dev_sol sys) = Freed then None else Some (lifetime_of (p_dev_sol sys)))"
proof (cases "p_dev_sol sys")
  case (SolPtr dev)
  then have r: "running sys" using assms by (simp add: sol_ok_def)
  then have "running (sys\<lparr>platform := snd (sol_write ty r (platform sys))\<rparr>)" by simp
  from running_ok [OF this] show ?thesis using SolPtr by (simp add: agree_def sol_set_running [OF r])
qed (cases ty; simp add: agree_def sol_ok_def life_cycle_set_boot_reason_def life_cycle_set_shutdown_reason_def
    life_cycle_set_thermal_shutdown_reason_def life_cycle_set_special_mode_def life_cycle_set_def)+

lemma lookup_running:
  assumes "running sys"
  obtains i sys' where "life_cycle_reason_lookup sys = Some (i, sys')" "running sys'"
proof -
  obtain dev where dev: "p_dev_sol sys = SolPtr dev" "sol_ops dev = life_cycle_platform_init no_ops"
    using assms by (rule runningE)
  obtain rs sp where rs: "read_reasons [rtc_read_boot_reason, rtc_read_shutdown_reason,
      rtc_read_thermal_shutdown_reason, rtc_read_special_mode] (platform sys) = (rs, sp)" by fastforce
  show ?thesis
  proof (cases "\<exists>a b c d. rs = Some [a, b, c, d]")
    case True
    then obtain a b c d where "rs = Some [a, b, c, d]" by blast
    then have "life_cycle_reason_lookup sys = Some (int (first_index [c, b, a, d]),
        sys\<lparr>platform := sp, p_dev_sol := SolPtr (dev\<lparr>life_cycle_reason_idx := first_index [c, b, a, d]\<rparr>)\<rparr>)"
      using rs by (simp add: life_cycle_reason_lookup_def dev life_cycle_platform_init_def Let_def del: read_reasons.simps)
    then show ?thesis by (rule that) (simp add: running_def dev(2))
  next
    case False
    then have "life_cycle_reason_lookup sys = Some (- 1, sys\<lparr>platform := sp\<rparr>)"
      using rs by (auto simp: life_cycle_reason_lookup_def dev life_cycle_platform_init_def
          simp del: read_reasons.simps split: option.splits list.splits)
    then show ?thesis by (rule that) (simp add: assms)
  qed
qed

lemma init_agrees:
  "agree (map_option snd (dev_sol_init al pr b cmd sys)) (if \<not> al then Some NotAllocated else if cmd_fits cmd then Some Live else None)"
proof (cases "al \<and> cmd_fits cmd")
  case True
  define sys1 where "sys1 = sys\<lparr>proc_entry := pr, reboot_nb := True, p_dev_sol :=
    SolPtr \<lparr>version = ''3.0'', life_cycle_reason_idx = 0, sol_ops = life_cycle_platform_init no_ops\<rparr>\<rparr>"
  obtain sp where sp: "get_android_bootreason cmd (platform sys) = Some sp"
    using True bootreason_fault [of cmd "platform sys"] by fastforce
  have "running (sys1\<lparr>platform := sp\<rparr>)" by (simp add: sys1_def running_def)
  then obtain i sys2 where l: "life_cycle_reason_lookup (sys1\<lparr>platform := sp\<rparr>) = Some (i, sys2)" "running sys2"
    by (rule lookup_running)
  obtain dev where dev: "p_dev_sol sys2 = SolPtr dev" "sol_ops dev = life_cycle_platform_init no_ops"
    "life_cycle_reason_idx dev < 24" using l(2) by (rule runningE)
  have p: "platform sys1 = platform sys" by (simp add: sys1_def)
  have "\<exists>sys3. dev_sol_init al pr b cmd sys = Some (0, sys3) \<and> running sys3"
    using True l sp dev by (auto simp: dev_sol_init_def Let_def sys1_def [symmetric] p split: option.split)
  then show ?thesis using True running_ok by (auto simp: agree_def)
next
  case False
  then show ?thesis
    using bootreason_fault [of cmd "platform sys"] by (auto simp: dev_sol_init_def agree_def sol_ok_def Let_def)
qed

lemma step_agrees:
  assumes "sol_ok sys"
  shows "agree (sol_step e sys) (life_step e (lifetime_of (p_dev_sol sys)))"
proof (cases e)
  case (EvInit al pr b cmd)
  then show ?thesis using init_agrees by simp
next
  case (EvSet ty r)
  then show ?thesis using set_agrees [OF assms, of ty r] by simp
next
  case (EvNotify code)
  then show ?thesis
    using set_agrees [OF assms, of BOOT WARMBOOT_BY_SW] set_agrees [OF assms, of SHUTDOWN SHUTDOWN_BY_SW] assms
    by (cases code) (simp_all add: life_cycle_reboot_notifier_def agree_def)
next
  case EvShow
  then show ?thesis using assms
    by (cases "p_dev_sol sys") (auto simp: sol_ok_def agree_def life_cycle_reason_show_def running_def Let_def)
next
  case (EvRead ty)
  then show ?thesis using assms
    by (cases "p_dev_sol sys") (auto simp: sol_ok_def agree_def read_life_cycle_reason_def Let_def split: option.split prod.split sum.split)
next
  case EvClear
  then show ?thesis using assms
    by (cases "p_dev_sol sys") (auto simp: sol_ok_def agree_def clear_life_cycle_reason_def split: option.split)
next
  case EvCleanup
  then show ?thesis using assms by (cases "p_dev_sol sys") (simp_all add: agree_def sol_ok_def dev_sol_cleanup_def)
qed

lemma run_agrees: "sol_ok sys \<Longrightarrow> agree (sol_run es sys) (life_run es (lifetime_of (p_dev_sol sys)))"
proof (induction es arbitrary: sys)
  case (Cons e es)
  show ?case
  proof (cases "sol_step e sys")
    case None
    then show ?thesis using step_agrees [OF Cons.prems, of e] by (simp add: agree_def)
  next
    case (Some sys1)
    then have "sol_ok sys1" "life_step e (lifetime_of (p_dev_sol sys)) = Some (lifetime_of (p_dev_sol sys1))"
      using step_agrees [OF Cons.prems, of e] by (simp_all add: agree_def)
    then show ?thesis using Cons.IH [of sys1] Some by simp
  qed
qed (simp add: agree_def)

text \<open>What a boot after a power cycle shows, from what can be read in the registers.\<close>

lemma boot_shows:
  assumes "sol_good (platform sys)" "\<And>ty. fst (sol_read ty ((platform sys)\<lparr>lcr_boot := boot\<rparr>)) = Inr (v ty)"
    and "\<And>sp. get_android_bootreason cmd (sp\<lparr>lcr_boot := LIFE_CYCLE_NOT_AVAILABLE\<rparr>) = Some (sp\<lparr>lcr_boot := boot\<rparr>)"
  defines "sp \<equiv> (platform (power_cycle sys))\<lparr>lcr_boot := boot\<rparr>"
  defines "e \<equiv> lcr_data ! (case find reported (map v [THERMAL_SHUTDOWN, SHUTDOWN, BOOT, SPECIAL])
     of None \<Rightarrow> 0 | Some r \<Rightarrow> search_lcr_table lcr_data r)"
  shows "\<exists>sys'. dev_sol_init True pr b cmd (power_cycle sys) = Some (0, sys') \<and>
     life_cycle_reason_show sys' = Some (''lc_version:3.0'' @ [CHR 0x0A] @
       ''lc_reason:'' @ life_cycle_reasons_text e @ [CHR 0x0A] @ ''lc_type:'' @ life_cycle_type e @ [CHR 0x0A]) \<and>
     (platform sys' = sp \<or> platform sys' = snd (rtc_lcr_reset sp))"
proof -
  note g = cycle_good(1) [OF assms(1)]
  have b: "get_android_bootreason cmd (platform (power_cycle sys)) = Some sp"
    using assms(3) [of "platform (power_cycle sys)"] by (simp add: power_cycle_def sp_def)
  have rd: "fst (sol_read ty sp) = Inr (v ty)" for ty
    using cycle_good(2) [OF assms(1), of ty boot] assms(2) [of ty] by (simp add: sp_def del: sol_read.simps)
  define i where "i = first_index [v THERMAL_SHUTDOWN, v SHUTDOWN, v BOOT, v SPECIAL]"
  obtain sys' dev where 3: "dev_sol_init True pr b cmd (power_cycle sys) = Some (0, sys')" "p_dev_sol sys' = SolPtr dev"
    "version dev = ''3.0''" "life_cycle_reason_idx dev = i"
    "platform sys' = (if is_charger_mode sys' then sp else snd (rtc_lcr_reset sp))"
    unfolding i_def by (rule init_good [OF g b rd, of pr b])
  have "e = lcr_data ! i" by (simp add: e_def i_def first_index_find)
  moreover have "i < 24" unfolding i_def by (rule first_index_bound)
  ultimately have "life_cycle_reason_show sys' = Some (''lc_version:3.0'' @ [CHR 0x0A] @
       ''lc_reason:'' @ life_cycle_reasons_text e @ [CHR 0x0A] @ ''lc_type:'' @ life_cycle_type e @ [CHR 0x0A])"
    by (simp add: life_cycle_reason_show_def 3(2-4) Let_def)
  then show ?thesis using 3(1,5) by (auto split: if_splits)
qed

text \<open>A number of boots that only charge, with a power cycle before each.\<close>

fun charging_boots :: "(bool \<times> boot_common \<times> string) list \<Rightarrow> sol_sys \<Rightarrow> sol_sys option" where
  "charging_boots [] sys = Some sys"
| "charging_boots ((pr, b, cmd) # cs) sys =
     Option.bind (dev_sol_init True pr b cmd (power_cycle sys)) (\<lambda>(_, sys). charging_boots cs sys)"

lemma charging_boots_keep:
  "sol_good (platform sys) \<Longrightarrow> \<forall>(pr, b, cmd) \<in> set cs. is_charging_mode b \<and> cmd_fits cmd \<Longrightarrow>
    \<exists>sys'. charging_boots cs sys = Some sys' \<and> sol_good (platform sys') \<and>
     (\<forall>ty b. fst (sol_read ty ((platform sys')\<lparr>lcr_boot := b\<rparr>)) = fst (sol_read ty ((platform sys)\<lparr>lcr_boot := b\<rparr>)))"
proof (induction cs arbitrary: sys)
  case (Cons c cs)
  obtain pr b cmd where c: "c = (pr, b, cmd)" by (cases c)
  define sp where "sp = (platform (power_cycle sys))\<lparr>lcr_boot := boot_of cmd\<rparr>"
  have b: "is_charging_mode b" "cmd_fits cmd" using Cons.prems(2) by (simp_all add: c)
  note g = cycle_good(1) [OF Cons.prems(1)]
  have gb: "get_android_bootreason cmd (platform (power_cycle sys)) = Some sp"
    using bootreason_boot_of [OF b(2), of "platform (power_cycle sys)"] by (simp add: power_cycle_def sp_def)
  have "\<exists>r. fst (sol_read ty sp) = Inr r" for ty using g by (intro rtc_store.rd_value) (simp add: sp_def)
  then obtain v where v: "\<And>ty. fst (sol_read ty sp) = Inr (v ty)" by metis
  obtain sys1 where 1: "dev_sol_init True pr b cmd (power_cycle sys) = Some (0, sys1)"
    "is_charger_mode sys1 = (is_charger_mode (power_cycle sys) \<or> is_charging_mode b)" "sol_good sp"
    "platform sys1 = (if is_charger_mode sys1 then sp else snd (rtc_lcr_reset sp))"
    by (rule init_good [OF g gb v, of pr b])
  then have p: "platform sys1 = sp" "sol_good (platform sys1)" using b(1) by simp_all
  have "fst (sol_read ty ((platform sys1)\<lparr>lcr_boot := b'\<rparr>)) = fst (sol_read ty ((platform sys)\<lparr>lcr_boot := b'\<rparr>))" for ty b'
    using cycle_good(2) [OF Cons.prems(1), of ty b'] by (simp add: p(1) sp_def del: sol_read.simps)
  then show ?case using Cons.IH [OF p(2)] Cons.prems(2) 1(1) by (auto simp: c simp del: sol_read.simps)
qed simp

lemma next_boot_reason:
  assumes "sol_good (platform sys0)" "\<not> is_charger_mode sys0" "\<not> is_charging_mode b0"
    and "get_android_bootreason cmd0 (platform sys0) \<noteq> None"
    and "\<forall>(t, r) \<in> set ws. storable t r"
    and "\<And>sp. get_android_bootreason cmd (sp\<lparr>lcr_boot := LIFE_CYCLE_NOT_AVAILABLE\<rparr>) = Some (sp\<lparr>lcr_boot := boot\<rparr>)"
  defines "e \<equiv> lcr_data ! (case find reported (map (last_reason ws boot) [THERMAL_SHUTDOWN, SHUTDOWN, BOOT, SPECIAL])
     of None \<Rightarrow> 0 | Some r \<Rightarrow> search_lcr_table lcr_data r)"
  shows "\<exists>sys1 sys2 sys3. dev_sol_init True pr0 b0 cmd0 sys0 = Some (0, sys1) \<and> sol_sets ws sys1 = Some sys2 \<and>
     dev_sol_init True pr b cmd (power_cycle sys2) = Some (0, sys3) \<and>
     life_cycle_reason_show sys3 = Some (''lc_version:3.0'' @ [CHR 0x0A] @
       ''lc_reason:'' @ life_cycle_reasons_text e @ [CHR 0x0A] @ ''lc_type:'' @ life_cycle_type e @ [CHR 0x0A])"
proof -
  obtain sp0 where sp0: "get_android_bootreason cmd0 (platform sys0) = Some sp0" using assms(4) by blast
  then have "sol_good sp0" using assms(1) by (simp add: bootreason_good)
  then have "\<exists>r. fst (sol_read ty sp0) = Inr r" for ty by (rule rtc_store.rd_value)
  then obtain v where v: "\<And>ty. fst (sol_read ty sp0) = Inr (v ty)" by metis
  obtain sys1 where 1: "dev_sol_init True pr0 b0 cmd0 sys0 = Some (0, sys1)" "running sys1"
    "is_charger_mode sys1 = (is_charger_mode sys0 \<or> is_charging_mode b0)"
    and sp1: "sol_good sp0" "platform sys1 = (if is_charger_mode sys1 then sp0 else snd (rtc_lcr_reset sp0))"
    by (rule init_good [OF assms(1) sp0 v, of pr0 b0])
  then have sp1: "sol_good sp0" "platform sys1 = snd (rtc_lcr_reset sp0)" using assms(2,3) by auto
  define sys2 where "sys2 = sys1\<lparr>platform := fold (\<lambda>(t, r) sp. snd (sol_write t r sp)) ws (platform sys1)\<rparr>"
  note rd = reads_after_reset [OF sp1(1) assms(5), folded sp1(2)]
  have g: "sol_good (platform sys2)" using rd(1) by (simp add: sys2_def)
  have r2: "fst (sol_read ty ((platform sys2)\<lparr>lcr_boot := boot\<rparr>)) = Inr (last_reason ws boot ty)" for ty
    using rd(2) by (simp add: sys2_def)
  obtain sys3 where 3: "dev_sol_init True pr b cmd (power_cycle sys2) = Some (0, sys3)"
    "life_cycle_reason_show sys3 = Some (''lc_version:3.0'' @ [CHR 0x0A] @
       ''lc_reason:'' @ life_cycle_reasons_text e @ [CHR 0x0A] @ ''lc_type:'' @ life_cycle_type e @ [CHR 0x0A])"
    using boot_shows [OF g r2 assms(6), of pr b] unfolding e_def by blast
  show ?thesis by (intro exI conjI) (rule 1(1), rule sol_sets_running [OF 1(2), of ws, folded sys2_def], rule 3(1), rule 3(2))
qed

section \<open>Properties\<close>

text \<open>
  C11: what the reboot tells: the reasons set while the kernel ran decide what
  \<^verbatim>\<open>/proc/life_cycle_reason\<close> shows after the next power cycle.  The last reason of each type counts;
  a thermal shutdown comes before a shutdown, a shutdown before a boot reason (with the one of the
  command line as default), a boot reason before a special mode; and the first of these that is in
  the table is shown.  This holds whatever the registers held before the kernel that set the
  reasons was booted.
\<close>

theorem sol_next_boot_shows_reason:
  assumes "sol_good (platform sys0)" "\<not> is_charger_mode sys0" "\<not> is_charging_mode b0"
    and "get_android_bootreason cmd0 (platform sys0) \<noteq> None"
    and "\<forall>(t, r) \<in> set ws. storable t r"
    and "\<And>sp. get_android_bootreason cmd (sp\<lparr>lcr_boot := LIFE_CYCLE_NOT_AVAILABLE\<rparr>) = Some (sp\<lparr>lcr_boot := boot\<rparr>)"
  defines "e \<equiv> lcr_data ! (case find reported (map (last_reason ws boot) [THERMAL_SHUTDOWN, SHUTDOWN, BOOT, SPECIAL])
     of None \<Rightarrow> 0 | Some r \<Rightarrow> search_lcr_table lcr_data r)"
  shows "\<exists>sys1 sys2 sys3. dev_sol_init True pr0 b0 cmd0 sys0 = Some (0, sys1) \<and> sol_sets ws sys1 = Some sys2 \<and>
     dev_sol_init True pr b cmd (power_cycle sys2) = Some (0, sys3) \<and>
     life_cycle_reason_show sys3 = Some (''lc_version:3.0'' @ [CHR 0x0A] @
       ''lc_reason:'' @ life_cycle_reasons_text e @ [CHR 0x0A] @ ''lc_type:'' @ life_cycle_type e @ [CHR 0x0A])"
  unfolding e_def by (rule next_boot_reason [OF assms(1-6)])

definition sol_sys_example :: sol_sys where
  "sol_sys_example = power_cycle \<lparr>p_dev_sol = SolNull, is_charger_mode = False, proc_entry = False, reboot_nb = False,
     platform = snd (rtc_lcr_reset sol_example)\<rparr>"

lemma example_good: "sol_good (platform sol_sys_example)" "\<not> is_charger_mode sol_sys_example"
proof -
  obtain s' where "rtc_lcr_reset sol_example = (0, sol_example\<lparr>sol_rtc := Some s'\<rparr>)" "calm s'" "committed s'" "parity_ok s'"
    by (rule sol_reset_quiet [of sol_example rtc_example]) (simp_all add: sol_example_def)
  then show "sol_good (platform sol_sys_example)"
    unfolding sol_sys_example_def by (intro cycle_good(1)) (simp add: sol_good_def)
qed (simp add: sol_sys_example_def power_cycle_def)

lemma no_bootreason: "get_android_bootreason ''quiet'' sp = Some sp"
  by (simp add: get_android_bootreason_def keyword_def)

theorem sol_next_boot_shows_reason_witness:
  "\<exists>sys1 sys2 sys3. dev_sol_init True True boot_common_initial ''quiet'' sol_sys_example = Some (0, sys1) \<and>
     sol_sets [(SPECIAL, LIFE_CYCLE_SMODE_OTA), (BOOT, WARMBOOT_BY_SW)] sys1 = Some sys2 \<and>
     dev_sol_init True True boot_common_initial ''quiet'' (power_cycle sys2) = Some (0, sys3) \<and>
     life_cycle_reason_show sys3 = Some (''lc_version:3.0'' @ [CHR 0x0A] @
       ''lc_reason:Warm Boot By Software'' @ [CHR 0x0A] @ ''lc_type:LCR_normal'' @ [CHR 0x0A])"
proof -
  have st: "\<forall>(t, r) \<in> set [(SPECIAL, LIFE_CYCLE_SMODE_OTA), (BOOT, WARMBOOT_BY_SW)]. storable t r"
    by (auto simp: storable_def known_def reason_tables)
  have i: "search_lcr_table lcr_data WARMBOOT_BY_SW = 16"
    by (simp add: search_lcr_table_def lcr_data_def lcr_entry_def)
  have e: "life_cycle_reasons_text (lcr_data ! 16) = ''Warm Boot By Software''" "life_cycle_type (lcr_data ! 16) = ''LCR_normal''"
    by (simp_all add: lcr_data_def lcr_entry_def)
  have b: "\<not> is_charging_mode boot_common_initial" by (simp add: is_charging_mode_def boot_common_initial_def)
  show ?thesis
    using sol_next_boot_shows_reason [OF example_good b, of "''quiet''", OF _ st, of "''quiet''" LIFE_CYCLE_NOT_AVAILABLE
        True True boot_common_initial]
    by (simp add: no_bootreason last_reason_def reported_def i e)
qed

text \<open>
  C28: booting only to charge loses nothing.  Whatever number of charging boots comes after the kernel that left the
  reasons, the boot behind them shows exactly what it would have shown without them; as it may be a charging boot
  itself, every one of them shows it too.  What is shown is the first reason, in the order of priority, that was left
  in the registers.
\<close>

theorem sol_charging_boot_keeps_reasons:
  assumes "sol_good (platform sys)" "\<forall>(pr, b, cmd) \<in> set cs. is_charging_mode b \<and> cmd_fits cmd" "cmd_fits cmd"
    and "\<And>ty. fst (sol_read ty ((platform sys)\<lparr>lcr_boot := boot_of cmd\<rparr>)) = Inr (v ty)"
  defines "e \<equiv> lcr_data ! (case find reported (map v [THERMAL_SHUTDOWN, SHUTDOWN, BOOT, SPECIAL])
     of None \<Rightarrow> 0 | Some r \<Rightarrow> search_lcr_table lcr_data r)"
  shows "\<exists>sys1 sys2 sys3 text. text = ''lc_version:3.0'' @ [CHR 0x0A] @
       ''lc_reason:'' @ life_cycle_reasons_text e @ [CHR 0x0A] @ ''lc_type:'' @ life_cycle_type e @ [CHR 0x0A] \<and>
     dev_sol_init True pr b cmd (power_cycle sys) = Some (0, sys1) \<and> life_cycle_reason_show sys1 = Some text \<and>
     charging_boots cs sys = Some sys2 \<and>
     dev_sol_init True pr b cmd (power_cycle sys2) = Some (0, sys3) \<and> life_cycle_reason_show sys3 = Some text"
proof -
  obtain sys2 where 2: "charging_boots cs sys = Some sys2" "sol_good (platform sys2)"
    "\<forall>ty b. fst (sol_read ty ((platform sys2)\<lparr>lcr_boot := b\<rparr>)) = fst (sol_read ty ((platform sys)\<lparr>lcr_boot := b\<rparr>))"
    using charging_boots_keep [OF assms(1,2)] by blast
  have v2: "fst (sol_read ty ((platform sys2)\<lparr>lcr_boot := boot_of cmd\<rparr>)) = Inr (v ty)" for ty
    using 2(3) assms(4) by (simp del: sol_read.simps)
  note b = bootreason_boot_of [OF assms(3)]
  show ?thesis
    using boot_shows [OF assms(1,4) b, of pr b, folded e_def] boot_shows [OF 2(2) v2 b, of pr b, folded e_def] 2(1) by blast
qed

theorem sol_charging_boot_keeps_reasons_witness:
  "\<exists>sys1 sys2 sys3 text. dev_sol_init True True boot_common_initial ''quiet'' (power_cycle sol_sys_example) = Some (0, sys1) \<and>
     life_cycle_reason_show sys1 = Some text \<and>
     charging_boots [(True, boot_common_initial\<lparr>g_boot_mode := 8\<rparr>, ''quiet''), (False, boot_common_initial\<lparr>g_boot_mode := 8\<rparr>, ''ro'')]
       sol_sys_example = Some sys2 \<and>
     dev_sol_init True True boot_common_initial ''quiet'' (power_cycle sys2) = Some (0, sys3) \<and> life_cycle_reason_show sys3 = Some text"
proof -
  let ?cs = "[(True, boot_common_initial\<lparr>g_boot_mode := 8\<rparr>, ''quiet''), (False, boot_common_initial\<lparr>g_boot_mode := 8\<rparr>, ''ro'')]"
  have f: "cmd_fits ''quiet''" "cmd_fits ''ro''" by (simp_all add: cmd_fits_def keyword_def)
  have c: "\<forall>(pr, b, cmd) \<in> set ?cs. is_charging_mode b \<and> cmd_fits cmd" using f by (simp add: is_charging_mode_def)
  have "sol_good ((platform sol_sys_example)\<lparr>lcr_boot := boot_of ''quiet''\<rparr>)" using example_good(1) by simp
  then have "\<exists>r. fst (sol_read ty ((platform sol_sys_example)\<lparr>lcr_boot := boot_of ''quiet''\<rparr>)) = Inr r" for ty
    by (rule rtc_store.rd_value)
  then obtain v where v: "\<And>ty. fst (sol_read ty ((platform sol_sys_example)\<lparr>lcr_boot := boot_of ''quiet''\<rparr>)) = Inr (v ty)" by metis
  show ?thesis using sol_charging_boot_keeps_reasons [OF example_good(1) c f(1) v, of True boot_common_initial] by blast
qed

text \<open>
  of the reasons the registers can hold, exactly one is missing from the table of texts:
  a shutdown by the power key is stored, but shown as if there had been no shutdown reason.
\<close>

theorem sol_power_key_shutdown_not_shown:
  assumes "storable ty r"
  shows "reported r \<longleftrightarrow> r \<noteq> SHUTDOWN_BY_PWR_KEY"
  using assms
  by (cases ty) (auto simp: storable_def known_def reason_tables reported_def search_lcr_table_def lcr_data_def lcr_entry_def)

theorem sol_power_key_shutdown_not_shown_witness:
  "storable SHUTDOWN SHUTDOWN_BY_PWR_KEY \<and> \<not> reported SHUTDOWN_BY_PWR_KEY \<and> reported SHUTDOWN_BY_SW"
proof -
  have "storable SHUTDOWN SHUTDOWN_BY_PWR_KEY" "storable SHUTDOWN SHUTDOWN_BY_SW"
    by (simp_all add: storable_def known_def reason_tables)
  then show ?thesis
    using sol_power_key_shutdown_not_shown [of SHUTDOWN SHUTDOWN_BY_PWR_KEY]
      sol_power_key_shutdown_not_shown [of SHUTDOWN SHUTDOWN_BY_SW] by simp
qed




end
