(* ===== verification/Amzn_Keycombo.thy ===== *)
theory Amzn_Keycombo
  imports Keycombo Sol_Core
begin

text \<open>
  Amazon's key combinations, \<^verbatim>\<open>drivers/staging/amazon/amzn_keycombo.c\<close>: the combinations and their functions are read
  from the device tree and handed to the input handler (\<open>Keycombo\<close>).  The function for a long press of the power key
  marks the press in the RTC (\<open>Rtc_Mt6397\<close>), leaves a reason with the sign-of-life driver (\<open>Sol_Core\<close>) and restarts
  the tablet.

  The lemmas show that the reason and the mark are there after the restart, what the device tree gives, and that a
  combination with keys that must be up is written past its array.
\<close>

section \<open>The functions of the combinations\<close>

text \<open>
  \<open>notified\<close> are the calls of the notifier chain.  Saving the log by a user space helper and the wait after it have no
  effect here; the power key is tested before and after.
\<close>

record combo_sys =
  combo_sol :: sol_sys
  notified :: "combo_func list"
  reboot_asked :: bool
  panic_msg :: "string option"

definition do_panic :: "string \<Rightarrow> combo_sys \<Rightarrow> combo_sys" where
  "do_panic msg s = s\<lparr>notified := notified s @ [COMBO_FUNC_PANIC], panic_msg := Some msg\<rparr>"

definition do_power_off :: "bool \<Rightarrow> bool \<Rightarrow> combo_sys \<Rightarrow> combo_sys option" where
  "do_power_off pwrkey1 pwrkey2 s =
     (if \<not> pwrkey1 then Some s
      else if \<not> pwrkey2 then Some s
      else do {
        let s = s\<lparr>notified := notified s @ [COMBO_FUNC_POWER_OFF]\<rparr>;
        let l = combo_sol s;
        (_, rtc) \<leftarrow> mtk_rtc_mark_sw_lprst (sol_rtc (platform l));
        (_, l) \<leftarrow> life_cycle_set_shutdown_reason SHUTDOWN_BY_LONG_PWR_KEY_PRESS
                    (l\<lparr>platform := (platform l)\<lparr>sol_rtc := Some rtc\<rparr>\<rparr>);
        Some (s\<lparr>combo_sol := l, reboot_asked := True\<rparr>)
      })"

section \<open>The device tree\<close>

definition key_labels :: "(string \<times> int) list" where
  "key_labels = [(''KEY_VOLUMEDOWN'', 114), (''KEY_VOLUMEUP'', 115), (''KEY_POWER'', 116)]"

definition get_key_from_label :: "string \<Rightarrow> int" where
  "get_key_from_label name = (case map_of key_labels name of None \<Rightarrow> - EINVAL | Some v \<Rightarrow> v)"

definition funcs :: "combo_func \<Rightarrow> string" where
  "funcs fn = (case fn of COMBO_FUNC_PANIC \<Rightarrow> ''Trigger panic by press '' | COMBO_FUNC_POWER_OFF \<Rightarrow> ''Trigger power off by long press '')"

definition get_func :: "int \<Rightarrow> combo_func option" where
  "get_func fn = (if fn = 0 then Some COMBO_FUNC_PANIC else if fn = 1 then Some COMBO_FUNC_POWER_OFF else None)"

text \<open>
  Properties of the node; a list of names is missing or its elements can fail to be read.  \<^verbatim>\<open>strncat\<close> bounds what it copies
  by the room that is left, and writes a terminating zero behind it.
\<close>

record combo_dt =
  dt_keys_down :: "string option list option"
  dt_keys_down_func :: "int option"
  dt_keys_down_delay :: "int option"
  dt_keys_up :: "string option list option"
  combo_alloc :: bool
  up_alloc :: bool

abbreviation (input) COMBO_MSG_SIZE :: nat where "COMBO_MSG_SIZE \<equiv> 100"

definition msg_append :: "string \<Rightarrow> string \<Rightarrow> string option" where
  "msg_append msg name =
     (let msg = msg @ take (COMBO_MSG_SIZE - length msg) name in if length msg < COMBO_MSG_SIZE then Some msg else None)"

fun read_down :: "string option list \<Rightarrow> int list \<Rightarrow> string \<Rightarrow> (int list option \<times> string) option" where
  "read_down [] keys msg = Some (Some (keys @ [0]), msg)"
| "read_down (None # names) keys msg = Some (None, msg)"
| "read_down (Some name # names) keys msg =
     (if get_key_from_label name < 0 then Some (None, msg)
      else do {
        msg \<leftarrow> msg_append msg name;
        msg \<leftarrow> msg_append msg '' '';
        read_down names (keys @ [get_key_from_label name]) msg
      })"

text \<open>The array for the keys that must be up has \<open>room\<close> bytes; an element takes four of them.\<close>

definition put_key :: "nat \<Rightarrow> int \<Rightarrow> int list \<Rightarrow> int list option" where
  "put_key room k keys = (if 4 * (length keys + 1) \<le> room then Some (keys @ [k]) else None)"

fun read_up :: "nat \<Rightarrow> string option list \<Rightarrow> int list \<Rightarrow> int list option" where
  "read_up room [] keys = put_key room 0 keys"
| "read_up room (None # names) keys = put_key room 0 keys"
| "read_up room (Some name # names) keys =
     (if get_key_from_label name < 0 then put_key room 0 keys
      else do { keys \<leftarrow> put_key room (get_key_from_label name) keys; read_up room names keys })"

text \<open>The result is the size of the platform data, 0 for an error, the data, and the messages.\<close>

type_synonym combo_result = "int \<times> keycombo_platform_data option \<times> (combo_func \<Rightarrow> string)"

definition dt_to_keycombo_data :: "combo_dt \<Rightarrow> (combo_func \<Rightarrow> string) \<Rightarrow> combo_result option" where
  "dt_to_keycombo_data node msgs =
     (case dt_keys_down node of
        None \<Rightarrow> Some (0, None, msgs)
      | Some names \<Rightarrow>
          if \<not> combo_alloc node then Some (0, None, msgs)
          else case dt_keys_down_func node of
            None \<Rightarrow> Some (0, None, msgs)
          | Some f \<Rightarrow>
              case get_func f of
                None \<Rightarrow> Some (0, None, msgs)
              | Some fn \<Rightarrow> do {
                  (keys, msg) \<leftarrow> read_down names [] (msgs fn);
                  let msgs = msgs(fn := msg);
                  case (keys, dt_keys_down_delay node) of
                    (Some downs, Some d) \<Rightarrow>
                      let size = 40 + 4 * (int (length names) + 1);
                          pd = \<lparr>key_down_fn = Some fn, key_up_fn = None, key_down_delay = s32 d, keys_up = None, keys_down = downs\<rparr>
                      in (case dt_keys_up node of
                            Some (n # ns) \<Rightarrow>
                              if \<not> up_alloc node then Some (0, None, msgs)
                              else do {
                                ups \<leftarrow> read_up (length (n # ns) + 1) (n # ns) [];
                                Some (size, Some (pd\<lparr>keys_up := Some ups\<rparr>), msgs)
                              }
                          | _ \<Rightarrow> Some (size, Some pd, msgs))
                  | _ \<Rightarrow> Some (0, None, msgs)
                })"

text \<open>
  The probe; the result has the platform data of the device that was added for the input handler.  When that device
  cannot be allocated, the clean-up frees the data through it.
\<close>

record combo_probe_env =
  cfg_alloc :: bool
  pdev_alloc :: bool
  add_data_ret :: int
  add_ret :: int

definition amzn_keycombo_probe :: "combo_probe_env \<Rightarrow> combo_dt \<Rightarrow> (combo_func \<Rightarrow> string) \<Rightarrow> combo_result option" where
  "amzn_keycombo_probe env node msgs =
     (if \<not> cfg_alloc env then Some (- ENOMEM, None, msgs)
      else do {
        (size, pd, msgs) \<leftarrow> dt_to_keycombo_data node msgs;
        if size = 0 then Some (- ENOMEM, None, msgs)
        else if \<not> pdev_alloc env then None
        else if add_data_ret env \<noteq> 0 then Some (add_data_ret env, None, msgs)
        else Some (add_ret env, if add_ret env = 0 then pd else None, msgs)
      })"

section \<open>A long press of the power key\<close>

text \<open>The mark in the RTC leaves the reasons alone, and writing a reason keeps the mark.\<close>

lemma lprst_good:
  assumes "sol_good sp"
  obtains rtc where "mtk_rtc_mark_sw_lprst (sol_rtc sp) = Some (0, rtc)" "sol_good (sp\<lparr>sol_rtc := Some rtc\<rparr>)"
    "bit (spar0 rtc) 9" "\<forall>ty. fst (sol_read ty (sp\<lparr>sol_rtc := Some rtc\<rparr>)) = fst (sol_read ty sp)"
proof -
  obtain s where s: "sol_rtc sp = Some s" "calm s" "parity_ok s" using assms by (rule sol_goodE)
  obtain s' where 1: "mtk_rtc_mark_sw_lprst (Some s) = Some (0, s')" "calm s'" "committed s'"
    "spar0 s' = spar0 s OR RTC_SPAR0_LPRST" "al_dow s' = al_dow s" by (rule quiet_lprst [OF s(2)])
  note f = field_lprst [OF 1(4,5)] and p = parity_lprst [OF 1(4,5)]
  have g: "sol_good (sp\<lparr>sol_rtc := Some s'\<rparr>)" using 1(2,3) p s(3) by (simp add: sol_good_def)
  have "bit (spar0 s') 9" by (simp add: 1(4) bit_or_iff)
  moreover have "fst (sol_read ty (sp\<lparr>sol_rtc := Some s'\<rparr>)) = fst (sol_read ty sp)" for ty
    using sol_read_quiet [OF s(1,2), of ty] sol_read_quiet [of "sp\<lparr>sol_rtc := Some s'\<rparr>" s' ty] 1(2) s(3) p f
    by (simp del: sol_read.simps)
  ultimately show ?thesis using 1(1) g s(1) by (intro that [of s']) (auto simp del: sol_read.simps)
qed

lemma read_lcr_boot:
  assumes "sol_good sp" "ty \<noteq> BOOT"
  shows "fst (sol_read ty (sp\<lparr>lcr_boot := b\<rparr>)) = fst (sol_read ty sp)"
proof -
  obtain s where s: "sol_rtc sp = Some s" "calm s" "parity_ok s" using assms(1) by (rule sol_goodE)
  have "shown ty w (sp\<lparr>lcr_boot := b\<rparr>) = shown ty w sp" for w using assms(2) by (simp add: shown_def sol_blank_def Let_def)
  then show ?thesis
    using sol_read_quiet [OF s(1,2), of ty] sol_read_quiet [of "sp\<lparr>lcr_boot := b\<rparr>" s ty] s by (simp del: sol_read.simps)
qed

definition lprst_marked :: "sol_platform \<Rightarrow> bool" where
  "lprst_marked sp = (case sol_rtc sp of None \<Rightarrow> False | Some s \<Rightarrow> bit (spar0 s) 9)"

lemma write_marked:
  assumes "sol_good sp" "lprst_marked sp"
  shows "lprst_marked (snd (sol_write ty r sp))"
proof -
  obtain s where s: "sol_rtc sp = Some s" "calm s" using assms(1) by (rule sol_goodE)
  obtain s' where 1: "sol_write ty r sp = (0, sp\<lparr>sol_rtc := Some s'\<rparr>)"
    "\<forall>r. r \<in> {SPAR0_REG, AL_DOW_REG} \<longrightarrow> reg_val r s' AND NOT (written_bits ty r) = reg_val r s AND NOT (written_bits ty r)"
    by (rule sol_write_quiet [OF s, of ty r])
  have k: "reg_val SPAR0_REG s' AND 0x200 = reg_val SPAR0_REG s AND 0x200"
    by (rule rest_sub [of _ "written_bits ty SPAR0_REG"]) (use 1(2) in \<open>cases ty; simp add: written_bits_def\<close>)+
  have "bit (0x200 :: u16) 9" by (simp add: bit_iff_odd)
  then have "bit (spar0 s') 9 = bit (spar0 s) 9"
    using arg_cong [OF k, of "\<lambda>w. bit w 9"] by (simp add: reg_val_def bit_and_iff)
  then show ?thesis using assms(2) s(1) 1(1) by (simp add: lprst_marked_def)
qed

text \<open>Neither the power cycle nor the boot after it, which clears the reasons, takes the mark away.\<close>

lemma reset_marked:
  assumes "sol_good sp" "lprst_marked sp"
  shows "lprst_marked (snd (rtc_lcr_reset sp))"
proof -
  obtain s where s: "sol_rtc sp = Some s" "calm s" using assms(1) by (rule sol_goodE)
  obtain s' where 1: "rtc_clear_life_cycle_reason (Some s) = Some s'"
    "spar0 s' = (spar0 s AND NOT 0x1C00) AND NOT 0xE000" by (rule quiet_clear [OF s(2)])
  then show ?thesis using assms(2) s(1) by (simp add: rtc_lcr_reset_def lprst_marked_def bit_simps)
qed

lemma cycle_marked:
  assumes "sol_good (platform l)" "lprst_marked (platform l)"
  shows "sol_good ((platform (power_cycle l))\<lparr>lcr_boot := b\<rparr>)" "lprst_marked ((platform (power_cycle l))\<lparr>lcr_boot := b\<rparr>)"
proof -
  obtain s where s: "sol_rtc (platform l) = Some s" "committed s" using assms(1) by (rule sol_goodE)
  show "lprst_marked ((platform (power_cycle l))\<lparr>lcr_boot := b\<rparr>)"
    using assms(2) s(1) cycle_regs(1) [OF s(2)] by (simp add: power_cycle_def lprst_marked_def)
qed (use cycle_good(1) [OF assms(1)] in simp)

lemma power_off_state:
  assumes "running (combo_sol s)" "sol_good (platform (combo_sol s))"
  obtains s' sp where "do_power_off True True s = Some s'" "reboot_asked s'" "notified s' = notified s @ [COMBO_FUNC_POWER_OFF]"
    "combo_sol s' = (combo_sol s)\<lparr>platform := snd (sol_write SHUTDOWN SHUTDOWN_BY_LONG_PWR_KEY_PRESS sp)\<rparr>" "sol_good sp"
    "lprst_marked sp" "\<forall>ty. fst (sol_read ty sp) = fst (sol_read ty (platform (combo_sol s)))"
proof -
  define l where "l = combo_sol s"
  obtain rtc where r: "mtk_rtc_mark_sw_lprst (sol_rtc (platform l)) = Some (0, rtc)" "sol_good ((platform l)\<lparr>sol_rtc := Some rtc\<rparr>)"
    "bit (spar0 rtc) 9" "\<forall>ty. fst (sol_read ty ((platform l)\<lparr>sol_rtc := Some rtc\<rparr>)) = fst (sol_read ty (platform l))"
    using assms(2) unfolding l_def by (rule lprst_good)
  define sp where "sp = (platform l)\<lparr>sol_rtc := Some rtc\<rparr>"
  have "life_cycle_set_shutdown_reason SHUTDOWN_BY_LONG_PWR_KEY_PRESS (l\<lparr>platform := sp\<rparr>) =
      Some (0, l\<lparr>platform := snd (sol_write SHUTDOWN SHUTDOWN_BY_LONG_PWR_KEY_PRESS sp)\<rparr>)"
    using sol_set_running [of "l\<lparr>platform := sp\<rparr>" SHUTDOWN SHUTDOWN_BY_LONG_PWR_KEY_PRESS] assms(1)
    by (simp add: l_def)
  moreover define s' where "s' = s\<lparr>combo_sol := l\<lparr>platform := snd (sol_write SHUTDOWN SHUTDOWN_BY_LONG_PWR_KEY_PRESS sp)\<rparr>,
    notified := notified s @ [COMBO_FUNC_POWER_OFF], reboot_asked := True\<rparr>"
  ultimately have "do_power_off True True s = Some s'" using r(1) by (simp add: do_power_off_def Let_def l_def sp_def)
  moreover have "reboot_asked s'" "notified s' = notified s @ [COMBO_FUNC_POWER_OFF]"
    "combo_sol s' = (combo_sol s)\<lparr>platform := snd (sol_write SHUTDOWN SHUTDOWN_BY_LONG_PWR_KEY_PRESS sp)\<rparr>"
    by (simp_all add: s'_def l_def)
  moreover have "sol_good sp" "lprst_marked sp" "\<forall>ty. fst (sol_read ty sp) = fst (sol_read ty (platform (combo_sol s)))"
    using r(2-4) by (simp_all add: l_def sp_def lprst_marked_def del: sol_read.simps)
  ultimately show ?thesis by (rule that)
qed

section \<open>Reading the device tree\<close>

definition label_keys :: "string list \<Rightarrow> nat list" where
  "label_keys ns = map (\<lambda>n. nat (get_key_from_label n)) ns"

definition labels_msg :: "string list \<Rightarrow> string" where
  "labels_msg ns = concat (map (\<lambda>n. n @ '' '') ns)"

lemma label_key:
  assumes "n \<in> fst ` set key_labels"
  shows "0 < get_key_from_label n" "get_key_from_label n < int KEY_MAX" "0 < length n"
  using assms by (auto simp: key_labels_def get_key_from_label_def)

lemma label_inj: "inj_on get_key_from_label (fst ` set key_labels)"
  by (simp add: key_labels_def get_key_from_label_def)

lemma msg_append_fits: "length msg + length n < COMBO_MSG_SIZE \<Longrightarrow> msg_append msg n = Some (msg @ n)"
  by (simp add: msg_append_def)

lemma read_down_labels:
  assumes "set ns \<subseteq> fst ` set key_labels" "length msg + length (labels_msg ns) < COMBO_MSG_SIZE"
  shows "read_down (map Some ns) keys msg = Some (Some (keys @ map int (label_keys ns) @ [0]), msg @ labels_msg ns)"
  using assms
proof (induction ns arbitrary: keys msg)
  case (Cons n ns)
  have m: "length msg + length n < COMBO_MSG_SIZE" "length (msg @ n) + length '' '' < COMBO_MSG_SIZE"
    "length (msg @ n @ '' '') + length (labels_msg ns) < COMBO_MSG_SIZE"
    using Cons.prems(2) by (simp_all add: labels_msg_def)
  have "0 < get_key_from_label n" using Cons.prems(1) label_key(1) by simp
  then show ?case
    using Cons.IH [of "msg @ n @ '' ''" "keys @ [get_key_from_label n]"] Cons.prems(1) m msg_append_fits [OF m(1)] msg_append_fits [OF m(2)]
    by (simp add: label_keys_def labels_msg_def)
qed (simp add: label_keys_def labels_msg_def)

lemma read_up_overflows:
  assumes "set ns \<subseteq> fst ` set key_labels" "room < 4 * (length keys + length ns + 1)"
  shows "read_up room (map Some ns) keys = None"
  using assms
proof (induction ns arbitrary: keys)
  case (Cons n ns)
  then show ?case using label_key(1) [of n] Cons.IH [of "keys @ [get_key_from_label n]"] by (simp add: put_key_def)
qed (simp add: put_key_def)

lemma label_keys_combo:
  assumes "set ns \<subseteq> fst ` set key_labels" "distinct ns" "ns \<noteq> []"
  shows "combo_keys (label_keys ns) []"
proof -
  have "inj_on (\<lambda>n. nat (get_key_from_label n)) (set ns)"
  proof (rule inj_onI)
    fix x y
    assume x: "x \<in> set ns" "y \<in> set ns" "nat (get_key_from_label x) = nat (get_key_from_label y)"
    then have "x \<in> fst ` set key_labels" "y \<in> fst ` set key_labels" using assms(1) by auto
    moreover from this have "get_key_from_label x = get_key_from_label y" using label_key(1) [of x] label_key(1) [of y] x(3) by simp
    ultimately show "x = y" using inj_onD [OF label_inj] by simp
  qed
  moreover have "0 < nat (get_key_from_label n) \<and> nat (get_key_from_label n) < KEY_MAX" if "n \<in> set ns" for n
  proof -
    have "n \<in> fst ` set key_labels" using assms(1) that by auto
    from label_key(1,2) [OF this] show ?thesis by simp
  qed
  ultimately show ?thesis using assms(2,3) by (auto simp: combo_keys_def label_keys_def distinct_map)
qed

section \<open>Properties\<close>

text \<open>
  C8: A long press of the power key is told after the restart.  If the key is still pressed at both tests, and no thermal
  shutdown was recorded since the last boot, the function of the combination tells the notifier chain, asks for a restart,
  and leaves the mark of a long press in the RTC, which neither the reboot notifier's own reason nor the power cycle nor
  the initialisation of the next boot takes away; after the restart \<^verbatim>\<open>/proc/life_cycle_reason\<close> shows the long press and
  not the software restart.
\<close>

theorem long_press_is_shown_at_next_boot:
  assumes "running (combo_sol s)" "sol_good (platform (combo_sol s))"
    and "fst (sol_read THERMAL_SHUTDOWN (platform (combo_sol s))) = Inr LIFE_CYCLE_NOT_AVAILABLE"
    and "\<And>sp. get_android_bootreason cmd (sp\<lparr>lcr_boot := LIFE_CYCLE_NOT_AVAILABLE\<rparr>) = Some (sp\<lparr>lcr_boot := boot\<rparr>)"
  shows "\<exists>s' l2 l3. do_power_off True True s = Some s' \<and> reboot_asked s' \<and> notified s' = notified s @ [COMBO_FUNC_POWER_OFF] \<and>
    life_cycle_reboot_notifier SYS_RESTART (combo_sol s') = Some l2 \<and> lprst_marked (platform l2) \<and>
    dev_sol_init True pr b cmd (power_cycle l2) = Some (0, l3) \<and>
    life_cycle_reason_show l3 = Some (''lc_version:3.0'' @ [CHR 0x0A] @
      ''lc_reason:Long Pressed Power Key Shutdown'' @ [CHR 0x0A] @ ''lc_type:LCR_abnormal'' @ [CHR 0x0A]) \<and>
    lprst_marked (platform l3)"
proof -
  obtain s' sp where 1: "do_power_off True True s = Some s'" "reboot_asked s'" "notified s' = notified s @ [COMBO_FUNC_POWER_OFF]"
    "combo_sol s' = (combo_sol s)\<lparr>platform := snd (sol_write SHUTDOWN SHUTDOWN_BY_LONG_PWR_KEY_PRESS sp)\<rparr>" "sol_good sp"
    "lprst_marked sp" "\<forall>ty. fst (sol_read ty sp) = fst (sol_read ty (platform (combo_sol s)))"
    by (rule power_off_state [OF assms(1,2)])
  define ws where "ws = [(SHUTDOWN, SHUTDOWN_BY_LONG_PWR_KEY_PRESS), (BOOT, WARMBOOT_BY_SW)]"
  define l2 where "l2 = (combo_sol s)\<lparr>platform := fold (\<lambda>(t, r) sp. snd (sol_write t r sp)) ws sp\<rparr>"
  have n: "life_cycle_reboot_notifier SYS_RESTART (combo_sol s') = Some l2"
    using sol_set_running [of "combo_sol s'" BOOT WARMBOOT_BY_SW] assms(1) 1(4)
    by (simp add: life_cycle_reboot_notifier_def l2_def ws_def)
  have g: "sol_good (platform l2)" using rtc_store.writes_good [OF 1(5), of ws] by (simp add: l2_def)
  have m: "lprst_marked (platform l2)"
    using write_marked [OF rtc_store.wr_good [OF 1(5)] write_marked [OF 1(5,6)]]
    by (simp add: l2_def ws_def del: sol_write.simps)
  have st: "\<forall>(t, r) \<in> set ws. storable t r"
    by (simp add: ws_def storable_def known_def rtc_to_shutdown_reason_def rtc_to_boot_reason_def)
  define v where "v = (\<lambda>ty. case map_of (rev ws) ty of None \<Rightarrow> projr (fst (sol_read ty sp)) | Some r \<Rightarrow> r)"
  have rd: "fst (sol_read ty ((platform l2)\<lparr>lcr_boot := boot\<rparr>)) = Inr (v ty)" for ty
  proof -
    have "fst (sol_read ty (sp\<lparr>lcr_boot := boot\<rparr>)) = Inr (v ty)" if "map_of (rev ws) ty = None"
      using that read_lcr_boot [OF 1(5), of ty boot] rtc_store.rd_value [OF 1(5), of ty]
      by (auto simp: v_def ws_def simp del: sol_read.simps split: if_splits)
    then show ?thesis
      using rtc_store.rd_writes [of "sp\<lparr>lcr_boot := boot\<rparr>" ws ty] 1(5) st
      by (auto simp: sol_writes_lcr_boot l2_def v_def simp del: sol_read.simps split: option.splits)
  qed
  have "v THERMAL_SHUTDOWN = LIFE_CYCLE_NOT_AVAILABLE" "v SHUTDOWN = SHUTDOWN_BY_LONG_PWR_KEY_PRESS"
    using spec [OF 1(7), of THERMAL_SHUTDOWN] assms(3) by (simp_all add: v_def ws_def del: sol_read.simps)
  then have e: "lcr_data ! (case find reported (map v [THERMAL_SHUTDOWN, SHUTDOWN, BOOT, SPECIAL]) of None \<Rightarrow> 0
      | Some r \<Rightarrow> search_lcr_table lcr_data r) = lcr_entry SHUTDOWN_BY_LONG_PWR_KEY_PRESS ''Long Pressed Power Key Shutdown'' ''LCR_abnormal''"
    by (simp add: reported_def search_lcr_table_def lcr_data_def lcr_entry_def)
  obtain l3 where l3: "dev_sol_init True pr b cmd (power_cycle l2) = Some (0, l3)"
    "life_cycle_reason_show l3 = Some (''lc_version:3.0'' @ [CHR 0x0A] @
      ''lc_reason:Long Pressed Power Key Shutdown'' @ [CHR 0x0A] @ ''lc_type:LCR_abnormal'' @ [CHR 0x0A])"
    "platform l3 = (platform (power_cycle l2))\<lparr>lcr_boot := boot\<rparr> \<or>
       platform l3 = snd (rtc_lcr_reset ((platform (power_cycle l2))\<lparr>lcr_boot := boot\<rparr>))"
    using boot_shows [OF g rd assms(4), of pr b, unfolded e] by (auto simp: lcr_entry_def)
  have "lprst_marked (platform l3)"
    using l3(3) cycle_marked [OF g m, of boot] reset_marked [OF cycle_marked [OF g m, of boot]] by auto
  then show ?thesis using 1(1-3) n m l3(1,2) by blast
qed

definition ex_combo :: combo_sys where
  "ex_combo = \<lparr>combo_sol = sol_sys_example\<lparr>p_dev_sol := SolPtr \<lparr>version = ''3.0'', life_cycle_reason_idx = 0,
       sol_ops = life_cycle_platform_init no_ops\<rparr>, platform := snd (rtc_lcr_reset (platform sol_sys_example))\<rparr>,
     notified = [], reboot_asked = False, panic_msg = None\<rparr>"

theorem long_press_is_shown_at_next_boot_witness:
  "\<exists>s' l2 l3. do_power_off True True ex_combo = Some s' \<and> reboot_asked s' \<and>
    life_cycle_reboot_notifier SYS_RESTART (combo_sol s') = Some l2 \<and> lprst_marked (platform l2) \<and>
    dev_sol_init True True boot_common_initial ''quiet'' (power_cycle l2) = Some (0, l3) \<and>
    life_cycle_reason_show l3 = Some (''lc_version:3.0'' @ [CHR 0x0A] @
      ''lc_reason:Long Pressed Power Key Shutdown'' @ [CHR 0x0A] @ ''lc_type:LCR_abnormal'' @ [CHR 0x0A]) \<and>
    lprst_marked (platform l3)"
proof -
  have r: "running (combo_sol ex_combo)" by (simp add: ex_combo_def running_def)
  have g: "sol_good (platform (combo_sol ex_combo))"
    using rtc_store.clr_good [OF example_good(1)] by (simp add: ex_combo_def)
  have t: "fst (sol_read THERMAL_SHUTDOWN (platform (combo_sol ex_combo))) = Inr LIFE_CYCLE_NOT_AVAILABLE"
    using rtc_store.clr_rd [OF example_good(1), of THERMAL_SHUTDOWN]
    by (simp add: ex_combo_def sol_blank_def del: sol_read.simps)
  show ?thesis
    using long_press_is_shown_at_next_boot [OF r g t, of "''quiet''" LIFE_CYCLE_NOT_AVAILABLE True boot_common_initial]
    by (auto simp: no_bootreason)
qed


definition ex_combo_dt :: combo_dt where
  "ex_combo_dt = \<lparr>dt_keys_down = Some (map Some [''KEY_VOLUMEUP'', ''KEY_POWER'']), dt_keys_down_func = Some 1, dt_keys_down_delay = Some 6000,
     dt_keys_up = None, combo_alloc = True, up_alloc = True\<rparr>"


text \<open>
  Keys that must be up are written past their array.  The array is allocated with as many bytes as there are keys,
  and one, and not with four bytes for each: whenever the node names such keys, writing them or the 0 behind them leaves
  the array.
\<close>

theorem up_keys_written_past_array:
  assumes "dt_keys_down node = Some (map Some ns)" "set ns \<subseteq> fst ` set key_labels"
    and "dt_keys_down_func node = Some f" "get_func f = Some fn" "dt_keys_down_delay node = Some d"
    and "dt_keys_up node = Some (map Some us)" "us \<noteq> []" "set us \<subseteq> fst ` set key_labels"
    and "combo_alloc node" "up_alloc node" "length (msgs fn) + length (labels_msg ns) < COMBO_MSG_SIZE"
  shows "dt_to_keycombo_data node msgs = None"
proof -
  obtain u us' where u: "us = u # us'" using assms(7) by (cases us) simp_all
  have "read_up (length us + 1) (map Some us) [] = None" using assms(8) by (rule read_up_overflows) simp
  then show ?thesis
    using assms(1,3-6,9,10) read_down_labels [OF assms(2,11), of "[]"] by (simp add: dt_to_keycombo_data_def u del: read_up.simps)
qed

theorem up_keys_written_past_array_witness:
  "dt_to_keycombo_data (ex_combo_dt\<lparr>dt_keys_up := Some (map Some [''KEY_VOLUMEDOWN''])\<rparr>) funcs = None"
  using up_keys_written_past_array [of "ex_combo_dt\<lparr>dt_keys_up := Some (map Some [''KEY_VOLUMEDOWN''])\<rparr>"
      "[''KEY_VOLUMEUP'', ''KEY_POWER'']" 1 COMBO_FUNC_POWER_OFF 6000 "[''KEY_VOLUMEDOWN'']" funcs]
  by (simp add: ex_combo_dt_def key_labels_def get_func_def funcs_def labels_msg_def)

end
