(* ===== verification/List_Sort.thy ===== *)
theory List_Sort
  imports Kernel_Base "HOL-Library.Multiset"
begin

text \<open>
  \<^verbatim>\<open>lib/list_sort.c\<close>: the bottom-up merge sort of the kernel's linked lists.  A null-terminated list of nodes is a
  list, the prev-linked list of pending sorted sublists is a list of lists, newest first, and following a NULL
  pointer is \<open>None\<close>.  \<^verbatim>\<open>count\<close> is a \<^verbatim>\<open>size_t\<close> and counts nodes in memory, so it does not wrap.
\<close>

section \<open>The sort\<close>

fun merge :: "('a \<Rightarrow> 'a \<Rightarrow> int) \<Rightarrow> 'a list \<Rightarrow> 'a list \<Rightarrow> 'a list option" where
  "merge cmp (a # as) (b # bs) =
     (if cmp a b \<le> 0
      then case as of [] \<Rightarrow> Some (a # b # bs) | _ \<Rightarrow> map_option ((#) a) (merge cmp as (b # bs))
      else case bs of [] \<Rightarrow> Some (b # a # as) | _ \<Rightarrow> map_option ((#) b) (merge cmp (a # as) bs))"
| "merge cmp _ _ = None"

text \<open>
  The last merge also restores the \<^verbatim>\<open>prev\<close> links: \<open>linked\<close> holds the nodes linked so far, the tail first.  The calls of
  \<^verbatim>\<open>cmp\<close> on one node that let the client reschedule have no effect.
\<close>

definition merge_finish :: "'a list \<Rightarrow> 'a list \<Rightarrow> 'a list" where
  "merge_finish linked b = rev (fold (#) b linked)"

fun merge_final :: "('a \<Rightarrow> 'a \<Rightarrow> int) \<Rightarrow> 'a list \<Rightarrow> 'a list \<Rightarrow> 'a list \<Rightarrow> 'a list option" where
  "merge_final cmp linked (a # as) (b # bs) =
     (if cmp a b \<le> 0
      then case as of [] \<Rightarrow> Some (merge_finish (a # linked) (b # bs)) | _ \<Rightarrow> merge_final cmp (a # linked) as (b # bs)
      else case bs of [] \<Rightarrow> Some (merge_finish (b # linked) (a # as)) | _ \<Rightarrow> merge_final cmp (b # linked) (a # as) bs)"
| "merge_final cmp linked _ _ = None"

text \<open>Walking past the trailing ones of \<^verbatim>\<open>count\<close>, then merging the two sublists found there.\<close>

fun merge_pending :: "('a \<Rightarrow> 'a \<Rightarrow> int) \<Rightarrow> nat \<Rightarrow> 'a list list \<Rightarrow> 'a list list option" where
  "merge_pending cmp bits pending =
     (if odd bits
      then case pending of [] \<Rightarrow> None | p # ps \<Rightarrow> map_option ((#) p) (merge_pending cmp (bits div 2) ps)
      else if bits \<noteq> 0
      then case pending of a # b # ps \<Rightarrow> map_option (\<lambda>m. m # ps) (merge cmp b a) | _ \<Rightarrow> None
      else Some pending)"

declare merge_pending.simps [simp del]

fun sort_input :: "('a \<Rightarrow> 'a \<Rightarrow> int) \<Rightarrow> nat \<Rightarrow> 'a list list \<Rightarrow> 'a list \<Rightarrow> 'a list list option" where
  "sort_input cmp cnt pending [] = Some pending"
| "sort_input cmp cnt pending (x # list) = do {
     pending \<leftarrow> merge_pending cmp cnt pending;
     sort_input cmp (cnt + 1) ([x] # pending) list
   }"

fun merge_down :: "('a \<Rightarrow> 'a \<Rightarrow> int) \<Rightarrow> 'a list \<Rightarrow> 'a list list \<Rightarrow> ('a list \<times> 'a list) option" where
  "merge_down cmp list [] = None"
| "merge_down cmp list [p] = Some (p, list)"
| "merge_down cmp list (p # next # ps) = do {
     list \<leftarrow> merge cmp p list;
     merge_down cmp list (next # ps)
   }"

definition list_sort :: "('a \<Rightarrow> 'a \<Rightarrow> int) \<Rightarrow> 'a list \<Rightarrow> 'a list option" where
  "list_sort cmp xs =
     (case xs of
        [] \<Rightarrow> Some []
      | [x] \<Rightarrow> Some [x]
      | _ \<Rightarrow> do {
          pending \<leftarrow> sort_input cmp 0 [] xs;
          case pending of
            [] \<Rightarrow> None
          | list # pending \<Rightarrow> do {
              (p, list) \<leftarrow> merge_down cmp list pending;
              merge_final cmp [] p list
            }
        })"

section \<open>Merging sorted lists\<close>

definition cmp_by :: "('a \<Rightarrow> 'b::linorder) \<Rightarrow> ('a \<Rightarrow> 'a \<Rightarrow> int) \<Rightarrow> 'a set \<Rightarrow> bool" where
  "cmp_by key cmp S \<longleftrightarrow> (\<forall>x \<in> S. \<forall>y \<in> S. cmp x y \<le> 0 \<longleftrightarrow> key x \<le> key y)"

lemma cmp_byD: "cmp_by key cmp S \<Longrightarrow> x \<in> S \<Longrightarrow> y \<in> S \<Longrightarrow> cmp x y \<le> 0 \<longleftrightarrow> key x \<le> key y"
  by (simp add: cmp_by_def)

lemma cmp_by_mono: "cmp_by key cmp S \<Longrightarrow> T \<subseteq> S \<Longrightarrow> cmp_by key cmp T"
  by (auto simp: cmp_by_def)

lemma sort_key_Cons_min: "\<forall>x \<in> set xs. key a \<le> key x \<Longrightarrow> sort_key key (a # xs) = a # sort_key key xs"
  by (simp add: insort_is_Cons)

lemma sort_key_append_min:
  "\<forall>x \<in> set xs. key b < key x \<Longrightarrow> \<forall>y \<in> set ys. key b \<le> key y \<Longrightarrow>
     sort_key key (xs @ b # ys) = b # sort_key key (xs @ ys)"
  by (induction xs) (auto simp: insort_is_Cons)

lemma merge_sorted:
  assumes "cmp_by key cmp (set as \<union> set bs)" "sorted (map key as)" "sorted (map key bs)" "as \<noteq> []" "bs \<noteq> []"
  shows "merge cmp as bs = Some (sort_key key (as @ bs))"
  using assms
proof (induction cmp as bs rule: merge.induct)
  case (1 cmp a as b bs)
  have law: "cmp a b \<le> 0 \<longleftrightarrow> key a \<le> key b" using 1(3) by (rule cmp_byD) simp_all
  have sort: "sort_key key zs = zs" if "sorted (map key zs)" for zs using that by (rule sort_key_id_if_sorted)
  show ?case
  proof (cases "key a \<le> key b")
    case True
    have min: "\<forall>x \<in> set (as @ b # bs). key a \<le> key x" using 1(4,5) True by (auto intro: order_trans)
    have "merge cmp as (b # bs) = Some (sort_key key (as @ b # bs))" if ne: "as \<noteq> []"
    proof -
      obtain y ys where e: "as = y # ys" using ne by (cases as) auto
      have c: "cmp_by key cmp (set as \<union> set (b # bs))" using 1(3) by (rule cmp_by_mono) auto
      have "sorted (map key as)" using 1(4) by simp
      from 1(1) [OF law [THEN iffD2, OF True] e c this 1(5) ne _] show ?thesis by blast
    qed
    moreover have "merge cmp (a # as) (b # bs) =
        (case as of [] \<Rightarrow> Some (a # b # bs) | _ \<Rightarrow> map_option ((#) a) (merge cmp as (b # bs)))" using law True by simp
    ultimately show ?thesis
      using sort_key_Cons_min [OF min] sort [OF 1(5)] by (cases as) (simp_all del: merge.simps sort_key_simps)
  next
    case False
    have min: "\<forall>x \<in> set (a # as). key b < key x" "\<forall>y \<in> set bs. key b \<le> key y" using 1(4,5) False by (auto intro: less_le_trans)
    have "merge cmp (a # as) bs = Some (sort_key key ((a # as) @ bs))" if ne: "bs \<noteq> []"
    proof -
      obtain y ys where e: "bs = y # ys" using ne by (cases bs) auto
      have c: "cmp_by key cmp (set (a # as) \<union> set bs)" using 1(3) by (rule cmp_by_mono) auto
      have n: "\<not> cmp a b \<le> 0" using law False by simp
      have "sorted (map key bs)" using 1(5) by simp
      from 1(2) [OF n e c 1(4) this _ ne] show ?thesis by blast
    qed
    moreover have "merge cmp (a # as) (b # bs) =
        (case bs of [] \<Rightarrow> Some (b # a # as) | _ \<Rightarrow> map_option ((#) b) (merge cmp (a # as) bs))" using law False by simp
    ultimately show ?thesis
      using sort_key_append_min [OF min] sort [OF 1(4)] by (cases bs) (simp_all del: merge.simps sort_key_simps)
  qed
qed auto

lemma sort_key_append_sorted: "sort_key key (sort_key key xs @ sort_key key ys) = sort_key key (xs @ ys)"
proof (rule properties_for_sort_key)
  show "filter (\<lambda>x. key k = key x) (sort_key key (xs @ ys)) = filter (\<lambda>x. key k = key x) (sort_key key xs @ sort_key key ys)" for k
    using sort_key_stable [of key "key k" "xs @ ys"] sort_key_stable [of key "key k" xs] sort_key_stable [of key "key k" ys]
    by (simp add: eq_commute [of "key k"])
qed simp_all

lemma merge_sort_key:
  assumes "cmp_by key cmp (set xs \<union> set ys)" "xs \<noteq> []" "ys \<noteq> []"
  shows "merge cmp (sort_key key xs) (sort_key key ys) = Some (sort_key key (xs @ ys))"
proof -
  have "sort_key key zs \<noteq> []" if "zs \<noteq> []" for zs using that by (metis length_0_conv length_sort)
  then show ?thesis
    using merge_sorted [of key cmp "sort_key key xs" "sort_key key ys"] assms by (simp add: sort_key_append_sorted)
qed

lemma merge_final_eq: "merge_final cmp linked as bs = map_option (\<lambda>m. rev linked @ m) (merge cmp as bs)"
proof (induction cmp linked as bs rule: merge_final.induct)
  case (1 cmp linked a as b bs)
  have fin: "merge_finish t zs = rev t @ zs" for t zs :: "'a list"
    by (induction zs arbitrary: t) (simp_all add: merge_finish_def)
  show ?case
    unfolding merge_final.simps(1) [of cmp linked a as b bs] merge.simps(1) [of cmp a as b bs]
    using 1 by (cases as; cases bs) (simp_all add: fin option.map_comp comp_def del: merge.simps(1) merge_final.simps(1))
qed simp_all


section \<open>The pending sublists\<close>

text \<open>
  The sizes of the pending sublists, newest first, are determined by the number of nodes taken so far.  The
  flag is the bit below the ones still looked at: set for the whole number.
\<close>

fun pend_shape :: "bool \<Rightarrow> nat \<Rightarrow> nat list" where
  "pend_shape b n =
     (if n = 0 then []
      else replicate (if odd n then (if b then 1 else 0) else (if b then 2 else 1)) 1 @
        map ((*) 2) (pend_shape (odd n) (n div 2)))"

declare pend_shape.simps [simp del]

lemma pend_shape_0 [simp]: "pend_shape b 0 = []"
  by (simp add: pend_shape.simps)

lemma map_times_1 [simp]: "map ((*) (Suc 0)) xs = xs"
  by (induction xs) auto

lemma replicate_2: "replicate 2 x = [x, x]"
  by (simp add: numeral_2_eq_2)

lemma pend_shape_True: "0 < n \<Longrightarrow> pend_shape True n = 1 # pend_shape False n"
  by (subst (1 2) pend_shape.simps) (simp add: replicate_2)

lemma pend_shape_odd: "pend_shape True (Suc (2 * k)) = 1 # map ((*) 2) (pend_shape True k)"
  "pend_shape False (Suc (2 * k)) = map ((*) 2) (pend_shape True k)"
  by (subst pend_shape.simps; simp)+

lemma pend_shape_even: "0 < k \<Longrightarrow> pend_shape True (2 * k) = 1 # 1 # map ((*) 2) (pend_shape False k)"
  "0 < k \<Longrightarrow> pend_shape False (2 * k) = 1 # map ((*) 2) (pend_shape False k)"
  by (subst pend_shape.simps; simp add: replicate_2)+

lemma pend_shape_pos: "0 \<notin> set (pend_shape b n)"
proof (induction b n rule: pend_shape.induct)
  case (1 b n)
  then show ?case by (subst pend_shape.simps) auto
qed

text \<open>
  The pending lists are the sorted segments \<open>segs\<close> of the input taken so far, newest first.
\<close>

lemma merge_pending_shape:
  assumes "cmp_by key cmp (\<Union>(set ` set segs))" "map length segs = map ((*) m) (pend_shape True n)" "0 < m"
  shows "\<exists>segs'. merge_pending cmp n (map (sort_key key) segs) = Some (map (sort_key key) segs') \<and>
    concat (rev segs') = concat (rev segs) \<and> map length segs' = map ((*) m) (pend_shape False (n + 1))"
  using assms
proof (induction n arbitrary: segs m rule: less_induct)
  case (less n)
  consider "n = 0" | k where "n = 2 * k + 1" | k where "n = 2 * k" "0 < k" by (metis oddE evenE gr0I mult_0_right)
  then show ?case
  proof cases
    case 1
    then show ?thesis using less.prems pend_shape_odd(2) [of 0] by (simp add: merge_pending.simps)
  next
    case 2
    obtain p ps where s: "segs = p # ps" "length p = m" "map length ps = map ((*) (2 * m)) (pend_shape True k)"
      using less.prems(2) by (auto simp: 2 pend_shape_odd(1) map_eq_Cons_conv comp_def mult.assoc mult.left_commute)
    have c: "cmp_by key cmp (\<Union>(set ` set ps))" using less.prems(1) s(1) by (auto elim: cmp_by_mono)
    obtain ps' where ps': "merge_pending cmp k (map (sort_key key) ps) = Some (map (sort_key key) ps')"
      "concat (rev ps') = concat (rev ps)" "map length ps' = map ((*) (2 * m)) (pend_shape False (k + 1))"
      using less.IH [OF _ c s(3)] 2 less.prems(3) by auto
    have "merge_pending cmp n (map (sort_key key) segs) = Some (map (sort_key key) (p # ps'))"
      using ps'(1) by (subst merge_pending.simps) (simp add: 2 s(1))
    moreover have "map length (p # ps') = map ((*) m) (pend_shape False (n + 1))"
      using ps'(3) s(2) pend_shape_even(2) [of "k + 1"] by (simp add: 2 comp_def mult.assoc mult.left_commute)
    ultimately show ?thesis using ps'(2) s(1) by (intro exI [of _ "p # ps'"]) simp
  next
    case 3
    obtain a b ps where s: "segs = a # b # ps" "length a = m" "length b = m"
      "map length ps = map ((*) (2 * m)) (pend_shape False k)"
      using less.prems(2) 3 by (auto simp: pend_shape_even(1) map_eq_Cons_conv comp_def mult.assoc mult.left_commute)
    have "merge cmp (sort_key key b) (sort_key key a) = Some (sort_key key (b @ a))"
      using less.prems(1,3) s(1-3) by (intro merge_sort_key) (auto elim!: cmp_by_mono)
    then have "merge_pending cmp n (map (sort_key key) segs) = Some (map (sort_key key) ((b @ a) # ps))"
      using 3 by (subst merge_pending.simps) (simp add: s(1))
    moreover have "map length ((b @ a) # ps) = map ((*) m) (pend_shape False (n + 1))"
      using s(2-4) pend_shape_odd(2) [of k] pend_shape_True [OF 3(2)] by (simp add: 3 comp_def mult.assoc mult.left_commute)
    ultimately show ?thesis using s(1) by (intro exI [of _ "(b @ a) # ps"]) simp
  qed
qed

lemma sort_input_shape:
  assumes "cmp_by key cmp (set (concat (rev segs) @ xs))" "map length segs = pend_shape True n"
  shows "\<exists>segs'. sort_input cmp n (map (sort_key key) segs) xs = Some (map (sort_key key) segs') \<and>
    concat (rev segs') = concat (rev segs) @ xs \<and> map length segs' = pend_shape True (n + length xs)"
  using assms
proof (induction xs arbitrary: segs n)
  case (Cons x xs)
  have c: "cmp_by key cmp (\<Union>(set ` set segs))" using Cons.prems(1) by (auto elim: cmp_by_mono)
  have l: "map length segs = map ((*) 1) (pend_shape True n)" using Cons.prems(2) by simp
  obtain s1 where s1: "merge_pending cmp n (map (sort_key key) segs) = Some (map (sort_key key) s1)"
    "concat (rev s1) = concat (rev segs)" "map length s1 = pend_shape False (n + 1)"
    using merge_pending_shape [OF c l] by auto
  have "map length ([x] # s1) = pend_shape True (n + 1)" using s1(3) pend_shape_True [of "n + 1"] by simp
  then obtain segs' where "sort_input cmp (n + 1) (map (sort_key key) ([x] # s1)) xs = Some (map (sort_key key) segs')"
    "concat (rev segs') = concat (rev ([x] # s1)) @ xs" "map length segs' = pend_shape True (n + 1 + length xs)"
    using Cons.IH [of "[x] # s1" "n + 1"] Cons.prems(1) s1(2) by auto
  then show ?case using s1(1,2) by (intro exI [of _ segs']) simp
qed auto

lemma merge_down_sorted:
  assumes "cmp_by key cmp (set (concat (rev segs) @ xs))" "segs \<noteq> []" "[] \<notin> set segs" "xs \<noteq> []"
  shows "\<exists>ys zs. merge_down cmp (sort_key key xs) (map (sort_key key) segs) = Some (sort_key key ys, sort_key key zs) \<and>
    ys @ zs = concat (rev segs) @ xs \<and> ys \<noteq> [] \<and> zs \<noteq> []"
  using assms
proof (induction segs arbitrary: xs rule: induct_list012)
  case (2 p)
  then show ?case by (intro exI [of _ p] exI [of _ xs]) simp
next
  case (3 p q ps)
  have m: "merge cmp (sort_key key p) (sort_key key xs) = Some (sort_key key (p @ xs))"
    using 3(3,5,6) by (intro merge_sort_key) (auto elim!: cmp_by_mono)
  show ?case using 3(2) [of "p @ xs"] 3(3-6) m by auto
qed simp

lemma list_sort_eq:
  assumes "cmp_by key cmp (set xs)"
  shows "list_sort cmp xs = Some (sort_key key xs)"
proof -
  consider "xs = []" | x where "xs = [x]" | "2 \<le> length xs"
    by (metis One_nat_def Suc_1 Suc_leI length_0_conv length_Suc_conv less_2_cases_iff not_le)
  then show ?thesis
  proof cases
    case 3
    obtain segs where s: "sort_input cmp 0 [] xs = Some (map (sort_key key) segs)" "concat (rev segs) = xs"
      "map length segs = pend_shape True (length xs)"
      using sort_input_shape [of key cmp "[]" xs 0] assms by auto
    have ne: "[] \<notin> set segs"
      using pend_shape_pos [of True "length xs"] s(3) by (metis image_eqI length_0_conv list.set_map)
    have "2 \<le> length (pend_shape True n)" if "2 \<le> n" for n
    proof -
      obtain k where "n = 2 * k \<or> n = 2 * k + 1" "0 < k" using \<open>2 \<le> n\<close> by (metis evenE oddE gr0I le_zero_eq mult_0_right numeral_le_one_iff semiring_norm(69) add_0 zero_neq_numeral)
      then show ?thesis using pend_shape_odd(1) [of k] pend_shape_even(1) [of k] pend_shape_True [of k] by auto
    qed
    then have "2 \<le> length segs" using 3 s(3) by (metis length_map)
    then obtain p ps where segs: "segs = p # ps" "ps \<noteq> []" by (cases segs; cases "tl segs") auto
    obtain ys zs where "merge_down cmp (sort_key key p) (map (sort_key key) ps) = Some (sort_key key ys, sort_key key zs)"
      "ys @ zs = xs" "ys \<noteq> []" "zs \<noteq> []"
      using merge_down_sorted [of key cmp ps p] assms s(2) ne segs by auto
    moreover have "merge cmp (sort_key key ys) (sort_key key zs) = Some (sort_key key (ys @ zs))"
      using calculation assms by (intro merge_sort_key) auto
    moreover have "list_sort cmp xs = do { (p', l) \<leftarrow> merge_down cmp (sort_key key p) (map (sort_key key) ps); merge_final cmp [] p' l }"
      using 3 s(1) segs by (auto simp: list_sort_def simp del: sort_input.simps split: list.split)
    ultimately show ?thesis by (simp add: merge_final_eq)
  qed (simp_all add: list_sort_def)
qed


section \<open>Property\<close>

text \<open>
  C5: For a comparison that orders the nodes of the list by a key, sorting never follows a NULL pointer, whatever
  the length of the list, and gives the list that the stable insertion sort of the library gives: the nodes in the
  order of their keys, nodes with equal keys in their old order.
\<close>

theorem list_sort_is_stable_sort:
  assumes "\<forall>x \<in> set xs. \<forall>y \<in> set xs. cmp x y \<le> 0 \<longleftrightarrow> key x \<le> (key y :: 'b::linorder)"
  shows "list_sort cmp xs = Some (sort_key key xs)"
  using assms by (intro list_sort_eq) (simp add: cmp_by_def)

theorem list_sort_is_stable_sort_witness:
  "list_sort (\<lambda>(x :: int \<times> string) y. fst x - fst y) [(3, ''a''), (1, ''b''), (3, ''c''), (2, ''d''), (1, ''e'')] =
     Some (sort_key fst [(3, ''a''), (1, ''b''), (3, ''c''), (2, ''d''), (1, ''e'')])"
  by (rule list_sort_is_stable_sort) simp

end
