(* ===== verification/Thermal_Core.thy ===== *)
theory Thermal_Core
  imports Kernel_Base
begin

text \<open>
  The part of the kernel's thermal framework that ties zones to cooling devices: the instances that bind a device
  to a trip point (\<^verbatim>\<open>drivers/thermal/thermal_core.c\<close>) and the update of a device to the deepest state that one of its
  instances asks for (\<^verbatim>\<open>thermal_helpers.c\<close>).  Zones and devices are numbers.  An instance is linked into the list of its
  zone and into the list of its device, both times at the end, so one list in the order of binding gives both.

  The operations of a cooling device are function pointers in the source and arguments here; the locale
  \<open>cooling_device\<close> states what the framework and the governor need of them.
\<close>

section \<open>Instances\<close>

abbreviation (input) THERMAL_TRIPS_NONE :: int where "THERMAL_TRIPS_NONE \<equiv> - 1"
abbreviation (input) THERMAL_NO_TARGET :: int where "THERMAL_NO_TARGET \<equiv> 18446744073709551615"

record thermal_instance =
  ti_tz :: nat
  ti_cdev :: nat
  ti_trip :: int
  ti_target :: int

text \<open>\<open>'s\<close> is the state of the drivers of the cooling devices.\<close>

record 's thermal_state =
  insts :: "thermal_instance list"
  updated :: "nat \<Rightarrow> bool"
  devs :: 's

text \<open>
  Binding: \<open>setup\<close> is the result of allocating the instance and of creating its files, 0 for success.
\<close>

definition thermal_zone_bind_cooling_device ::
    "int \<Rightarrow> int \<Rightarrow> nat \<Rightarrow> int \<Rightarrow> nat \<Rightarrow> thermal_instance list \<Rightarrow> int \<times> thermal_instance list" where
  "thermal_zone_bind_cooling_device setup trips tz trip cdev l =
     (if trip \<ge> trips \<or> (trip < 0 \<and> trip \<noteq> THERMAL_TRIPS_NONE) then (- EINVAL, l)
      else if setup \<noteq> 0 then (setup, l)
      else if list_ex (\<lambda>pos. ti_tz pos = tz \<and> ti_trip pos = trip \<and> ti_cdev pos = cdev) l then (- EEXIST, l)
      else (0, l @ [\<lparr>ti_tz = tz, ti_cdev = cdev, ti_trip = trip, ti_target = THERMAL_NO_TARGET\<rparr>]))"

fun bind_from :: "(int \<Rightarrow> int) \<Rightarrow> int \<Rightarrow> int \<Rightarrow> nat \<Rightarrow> nat \<Rightarrow> int list \<Rightarrow> thermal_instance list \<Rightarrow> thermal_instance list" where
  "bind_from setup trips msk tz cdev [] l = l"
| "bind_from setup trips msk tz cdev (i # is) l =
     bind_from setup trips msk tz cdev is
       (if msk AND push_bit (nat i) 1 \<noteq> 0 then snd (thermal_zone_bind_cooling_device (setup i) trips tz i cdev l) else l)"

definition bind_trips :: "(int \<Rightarrow> int) \<Rightarrow> int \<Rightarrow> int \<Rightarrow> nat \<Rightarrow> nat \<Rightarrow> thermal_instance list \<Rightarrow> thermal_instance list" where
  "bind_trips setup trips msk tz cdev l = bind_from setup trips msk tz cdev [0..trips - 1] l"

section \<open>Updating a device\<close>

fun deepest :: "nat \<Rightarrow> thermal_instance list \<Rightarrow> int \<Rightarrow> int" where
  "deepest c [] target = target"
| "deepest c (t # ts) target =
     deepest c ts
       (if ti_cdev t \<noteq> c then target
        else if ti_target t = THERMAL_NO_TARGET then target
        else if ti_target t > target then ti_target t else target)"

definition thermal_cdev_update ::
    "(nat \<Rightarrow> int \<Rightarrow> 's \<Rightarrow> (int \<times> 's) option) \<Rightarrow> nat \<Rightarrow> 's thermal_state \<Rightarrow> 's thermal_state option" where
  "thermal_cdev_update set_state c ts =
     (if updated ts c then Some ts
      else do {
        (_, d) \<leftarrow> set_state c (deepest c (insts ts) 0) (devs ts);
        Some (ts\<lparr>devs := d, updated := (updated ts)(c := True)\<rparr>)
      })"

section \<open>The contract of a cooling device\<close>

locale cooling_device =
  fixes inv :: "'s \<Rightarrow> bool"
    and good :: "'e \<Rightarrow> bool"
    and plain :: "nat \<Rightarrow> 's \<Rightarrow> bool"
    and cur :: "nat \<Rightarrow> 's \<Rightarrow> int"
    and mx :: "nat \<Rightarrow> 's \<Rightarrow> int"
    and set_state :: "'e \<Rightarrow> nat \<Rightarrow> int \<Rightarrow> 's \<Rightarrow> (int \<times> 's) option"
  assumes set_law: "inv s \<Longrightarrow> good e \<Longrightarrow> plain i s \<Longrightarrow> 0 \<le> st \<Longrightarrow>
      \<exists>r s'. set_state e i st s = Some (r, s') \<and> inv s' \<and> cur i s' = min st (mx i s) \<and>
        (\<forall>j. j \<noteq> i \<longrightarrow> cur j s' = cur j s) \<and> (\<forall>j. mx j s' = mx j s) \<and> (\<forall>j. plain j s' = plain j s)"
    and cur_range: "inv s \<Longrightarrow> plain i s \<Longrightarrow> 0 \<le> cur i s \<and> cur i s \<le> mx i s \<and> mx i s < THERMAL_NO_TARGET"
begin

lemma update_law:
  assumes "inv (devs ts)" "good e" "plain c (devs ts)" "\<not> updated ts c" "deepest c (insts ts) 0 = st" "0 \<le> st"
  shows "\<exists>ts'. thermal_cdev_update (set_state e) c ts = Some ts' \<and> insts ts' = insts ts \<and> inv (devs ts') \<and>
    cur c (devs ts') = min st (mx c (devs ts)) \<and> (\<forall>j. j \<noteq> c \<longrightarrow> cur j (devs ts') = cur j (devs ts)) \<and>
    (\<forall>j. mx j (devs ts') = mx j (devs ts)) \<and> (\<forall>j. plain j (devs ts') = plain j (devs ts))"
proof -
  obtain r d where "set_state e c st (devs ts) = Some (r, d)" "inv d" "cur c d = min st (mx c (devs ts))"
    "\<forall>j. j \<noteq> c \<longrightarrow> cur j d = cur j (devs ts)" "\<forall>j. mx j d = mx j (devs ts)" "\<forall>j. plain j d = plain j (devs ts)"
    using set_law [OF assms(1-3,6)] by blast
  then show ?thesis using assms(4,5) by (simp add: thermal_cdev_update_def)
qed

end

section \<open>Lemmas\<close>

lemma deepest_ge: "target \<le> deepest c l target"
proof (induction l arbitrary: target)
  case (Cons t l)
  let ?t = "if ti_cdev t \<noteq> c then target else if ti_target t = THERMAL_NO_TARGET then target
    else if ti_target t > target then ti_target t else target"
  have "target \<le> ?t" by auto
  also have "\<dots> \<le> deepest c l ?t" by (rule Cons.IH)
  finally show ?case by simp
qed simp

lemma deepest_none: "\<forall>t \<in> set l. ti_cdev t = c \<longrightarrow> ti_target t = THERMAL_NO_TARGET \<Longrightarrow> deepest c l target = target"
  by (induction l) auto

lemma deepest_append: "deepest c (l @ l') target = deepest c l' (deepest c l target)"
  by (induction l arbitrary: target) auto

lemma deepest_one:
  assumes "\<forall>t \<in> set (l @ l'). ti_cdev t = c \<longrightarrow> ti_target t = THERMAL_NO_TARGET"
    and "ti_cdev t = c" "0 \<le> ti_target t" "ti_target t < THERMAL_NO_TARGET"
  shows "deepest c (l @ t # l') 0 = ti_target t"
  using assms deepest_none [of l c] deepest_none [of l' c] by (auto simp: deepest_append)

end
