(* ===== verification/Vs_Cooler.thy ===== *)
theory Vs_Cooler
  imports List_Sort Kstrtox Thermal_Core
begin

text \<open>
  The cooling devices of the virtual sensor thermal zones: \<^verbatim>\<open>virtual_sensor_cooler_bcct.c\<close> (battery charging
  current), \<^verbatim>\<open>virtual_sensor_cooler_backlight.c\<close>, \<^verbatim>\<open>virtual_sensor_cooler_budget.c\<close> (CPU power budget),
  \<^verbatim>\<open>virtual_sensor_cooler_wpc_bcct.c\<close> (wireless charging) and the part of \<^verbatim>\<open>virtual_sensor_interface.c\<close> that carries
  out their limits, all in \<^verbatim>\<open>drivers/thermal/virtual_sensor_tablet\<close>, in the configuration of the tablet (one CPU
  cluster, \<^verbatim>\<open>CONFIG_THERMAL_FOD\<close>).

  A cooling device is a number; \<open>pdatas\<close> holds the platform data of each, \<open>sort_lists\<close> the list each driver keeps its
  devices in.  What other drivers answer is an argument of the operations (\<open>vs_env\<close>), and what they were asked for
  last is part of the state.
\<close>

section \<open>State\<close>

abbreviation (input) THERMAL_MAX_TRIPS :: nat where "THERMAL_MAX_TRIPS \<equiv> 12"
abbreviation (input) THERMAL_NAME_LENGTH :: nat where "THERMAL_NAME_LENGTH \<equiv> 20"
abbreviation (input) BCCT_CURRENT_MAX :: int where "BCCT_CURRENT_MAX \<equiv> 320001"
abbreviation (input) WPC_CURRENT_MAX :: int where "WPC_CURRENT_MAX \<equiv> 10000"
abbreviation (input) MAX_BRIGHTNESS :: int where "MAX_BRIGHTNESS \<equiv> 255"
abbreviation (input) MAXIMUM_CPU_POWER :: int where "MAXIMUM_CPU_POWER \<equiv> 4600"

abbreviation (input) VS_THERMAL_COOLER_BCCT :: int where "VS_THERMAL_COOLER_BCCT \<equiv> 0"
abbreviation (input) VS_THERMAL_COOLER_BACKLIGHT :: int where "VS_THERMAL_COOLER_BACKLIGHT \<equiv> 1"
abbreviation (input) VS_THERMAL_COOLER_BUDGET :: int where "VS_THERMAL_COOLER_BUDGET \<equiv> 2"
abbreviation (input) VS_THERMAL_COOLER_WIRELESS_CHG :: int where "VS_THERMAL_COOLER_WIRELESS_CHG \<equiv> 3"
abbreviation (input) VS_THERMAL_COOLER_FOD_WIRELESS_CHG :: int where "VS_THERMAL_COOLER_FOD_WIRELESS_CHG \<equiv> 4"

text \<open>Which driver's operations a cooling device has.\<close>

datatype cooler_ops = BcctOps | BacklightOps | BudgetOps | WpcOps

record vs_cooler_platform_data =
  c_type :: string
  c_state :: int
  c_max_state :: int
  c_level :: int
  c_cooler_id :: int
  c_levels :: "int list"

text \<open>The energy model's table has pairs of frequency and power.\<close>

record vs_cpufreq_cdev =
  max_level :: nat
  em_table :: "(int \<times> int) list"
  num_cpus :: int
  qos_active :: bool
  qos_max :: "int option"

record vs_coolers =
  pdatas :: "nat \<Rightarrow> vs_cooler_platform_data"
  cd_ops :: "nat \<Rightarrow> cooler_ops"
  sort_lists :: "cooler_ops \<Rightarrow> nat list"
  bat_psy :: bool
  wpc_psy :: bool
  charge_limit :: "int option"
  power_limit :: "int option"
  wpc_limit :: "int option"
  brightness :: "int option"
  cpufreq_cdev :: "vs_cpufreq_cdev option"
  thermal_budget :: int
  thermal_budget_cooler :: int
  thermal_budget_cpu :: int

record vs_env =
  bat_found :: bool
  wpc_found :: bool
  set_property_ret :: int
  brightness_ret :: int
  policy_found :: bool
  em_found :: "(int \<times> int) list option"
  valid_entries :: nat
  cdev_alloc :: bool
  qos_ret :: int
  related_cpus :: int
  chg_type :: "(int + int) option"

section \<open>The interface to the other drivers\<close>

text \<open>\<^verbatim>\<open>virtual_sensor_interface.c\<close>, the single-cluster branch for the CPU frequency.\<close>

definition vs_init_cpufreq_limit_power :: "vs_env \<Rightarrow> vs_coolers \<Rightarrow> int \<times> vs_coolers" where
  "vs_init_cpufreq_limit_power env s =
     (if \<not> policy_found env then (- 1, s)
      else case em_found env of
        None \<Rightarrow> (- 1, s)
      | Some em \<Rightarrow>
          if valid_entries env = 0 then (- 1, s)
          else if \<not> cdev_alloc env then (- ENOMEM, s)
          else (qos_ret env, s\<lparr>cpufreq_cdev := Some \<lparr>max_level = valid_entries env - 1, em_table = em,
                  num_cpus = related_cpus env, qos_active = (qos_ret env \<ge> 0), qos_max = None\<rparr>\<rparr>))"

fun freq_level :: "(int \<times> int) list \<Rightarrow> nat \<Rightarrow> int \<Rightarrow> nat option" where
  "freq_level em 0 pwr = Some 0"
| "freq_level em (Suc i) pwr = do {
     (_, p) \<leftarrow> arr_get em (int (Suc i));
     if pwr \<ge> p then Some (Suc i) else freq_level em i pwr
   }"

definition vs_cpu_power_to_freq :: "(int \<times> int) list \<Rightarrow> nat \<Rightarrow> int \<Rightarrow> int option" where
  "vs_cpu_power_to_freq em maxl pwr =
     (if pwr = 0 then map_option fst (arr_get em (int maxl))
      else do {
        i \<leftarrow> freq_level em maxl pwr;
        map_option fst (arr_get em (int i))
      })"

definition set_cpufreq_thermal_power :: "vs_env \<Rightarrow> int \<Rightarrow> vs_coolers \<Rightarrow> (int \<times> vs_coolers) option" where
  "set_cpufreq_thermal_power env budget s =
     (let (ret, s) = (case cpufreq_cdev s of None \<Rightarrow> vs_init_cpufreq_limit_power env s | Some _ \<Rightarrow> (0, s))
      in case cpufreq_cdev s of
           Some c \<Rightarrow>
             if num_cpus c = 0 then None
             else do {
               target_cpufreq \<leftarrow> vs_cpu_power_to_freq (em_table c) (max_level c) (wrap_u32 budget div num_cpus c);
               Some (ret, s\<lparr>cpufreq_cdev := Some (if qos_active c then c\<lparr>qos_max := Some target_cpufreq\<rparr> else c)\<rparr>)
             }
         | None \<Rightarrow> Some (- 1, s))"

definition set_charging_level_limit :: "vs_env \<Rightarrow> int \<Rightarrow> (int \<Rightarrow> vs_coolers \<Rightarrow> vs_coolers) \<Rightarrow> vs_coolers \<Rightarrow> int \<times> vs_coolers" where
  "set_charging_level_limit env level_limit property s =
     (let s = s\<lparr>bat_psy := bat_psy s \<or> bat_found env\<rparr>
      in if \<not> bat_psy s then (- 1, s)
         else (set_property_ret env, if set_property_ret env < 0 then s else property level_limit s))"

definition fod_set_charging_level_limit :: "vs_env \<Rightarrow> int \<Rightarrow> (int \<Rightarrow> vs_coolers \<Rightarrow> vs_coolers) \<Rightarrow> vs_coolers \<Rightarrow> int \<times> vs_coolers" where
  "fod_set_charging_level_limit env level_limit property s =
     (let s = s\<lparr>wpc_psy := wpc_psy s \<or> wpc_found env\<rparr>
      in if \<not> wpc_psy s then (- 1, s)
         else (set_property_ret env, if set_property_ret env < 0 then s else property level_limit s))"

definition vs_set_cooling_level :: "vs_env \<Rightarrow> int \<Rightarrow> int \<Rightarrow> vs_coolers \<Rightarrow> (int \<times> vs_coolers) option" where
  "vs_set_cooling_level env cid level_limit s =
     (if cid = VS_THERMAL_COOLER_BUDGET then set_cpufreq_thermal_power env level_limit s
      else if cid = VS_THERMAL_COOLER_BCCT
      then Some (set_charging_level_limit env (if level_limit = - 1 then - 1 else s32 (level_limit * 1000))
                   (\<lambda>v. charge_limit_update (\<lambda>_. Some v)) s)
      else if cid = VS_THERMAL_COOLER_BACKLIGHT
      then Some (brightness_ret env, s\<lparr>brightness := Some level_limit\<rparr>)
      else if cid = VS_THERMAL_COOLER_WIRELESS_CHG
      then Some (set_charging_level_limit env level_limit (\<lambda>v. power_limit_update (\<lambda>_. Some v)) s)
      else if cid = VS_THERMAL_COOLER_FOD_WIRELESS_CHG
      then Some (fod_set_charging_level_limit env level_limit (\<lambda>v. wpc_limit_update (\<lambda>_. Some v)) s)
      else Some (- 1, s))"

section \<open>The strictest cooling device of a driver\<close>

definition level_cmp :: "(nat \<Rightarrow> vs_cooler_platform_data) \<Rightarrow> nat \<Rightarrow> nat \<Rightarrow> int" where
  "level_cmp pd a b = s32 (c_level (pd a) - c_level (pd b))"

text \<open>Sorts the list of the driver; the head of an empty list has no platform data.\<close>

definition thermal_level_compare :: "(nat \<Rightarrow> vs_cooler_platform_data) \<Rightarrow> nat list \<Rightarrow> bool \<Rightarrow> (int \<times> nat list) option" where
  "thermal_level_compare pd head positive_seq = do {
     l \<leftarrow> list_sort (level_cmp pd) head;
     Some (if l = [] then (- EINVAL, l) else (c_level (pd (if positive_seq then hd l else last l)), l))
   }"

section \<open>Setting the state of a cooling device\<close>

definition virtual_sensor_get_max_state :: "nat \<Rightarrow> vs_coolers \<Rightarrow> int" where
  "virtual_sensor_get_max_state i s = c_max_state (pdatas s i)"

definition virtual_sensor_get_cur_state :: "nat \<Rightarrow> vs_coolers \<Rightarrow> int" where
  "virtual_sensor_get_cur_state i s = c_state (pdatas s i)"

text \<open>The new state, capped, and the level that belongs to it.\<close>

definition enter_state :: "int \<Rightarrow> int \<Rightarrow> vs_cooler_platform_data \<Rightarrow> (int \<times> vs_cooler_platform_data) option" where
  "enter_state unlimited state pd =
     (let pd = pd\<lparr>c_state := (if state > c_max_state pd then c_max_state pd else state)\<rparr>
      in if c_state pd = 0 then Some (unlimited, pd)
         else do { level \<leftarrow> arr_get (c_levels pd) (c_state pd - 1); Some (level, pd) })"

text \<open>The new level is recorded and the strictest level of the driver's list is found.\<close>

definition strictest :: "nat \<Rightarrow> vs_cooler_platform_data \<Rightarrow> int \<Rightarrow> vs_coolers \<Rightarrow> (int \<times> vs_coolers) option" where
  "strictest i pd level s = do {
     let s = s\<lparr>pdatas := (pdatas s)(i := pd\<lparr>c_level := level\<rparr>)\<rparr>;
     (level, l) \<leftarrow> thermal_level_compare (pdatas s) (sort_lists s (cd_ops s i)) True;
     Some (level, s\<lparr>sort_lists := (sort_lists s)(cd_ops s i := l)\<rparr>)
   }"

definition bcct_set_cur_state :: "vs_env \<Rightarrow> nat \<Rightarrow> int \<Rightarrow> vs_coolers \<Rightarrow> (int \<times> vs_coolers) option" where
  "bcct_set_cur_state env i state s =
     (if c_state (pdatas s i) = state then Some (0, s)
      else do {
        (level, pd) \<leftarrow> enter_state BCCT_CURRENT_MAX state (pdatas s i);
        if level = c_level pd then Some (0, s\<lparr>pdatas := (pdatas s)(i := pd)\<rparr>)
        else do {
          (level, s) \<leftarrow> strictest i pd level s;
          (_, s) \<leftarrow> vs_set_cooling_level env (c_cooler_id pd) (if level \<ge> BCCT_CURRENT_MAX then - 1 else level sdiv 100) s;
          Some (0, s)
        }
      })"

definition backlight_set_cur_state :: "vs_env \<Rightarrow> nat \<Rightarrow> int \<Rightarrow> vs_coolers \<Rightarrow> (int \<times> vs_coolers) option" where
  "backlight_set_cur_state env i state s =
     (if c_state (pdatas s i) = state then Some (0, s)
      else do {
        (level, pd) \<leftarrow> enter_state MAX_BRIGHTNESS state (pdatas s i);
        if level = c_level pd then Some (0, s\<lparr>pdatas := (pdatas s)(i := pd)\<rparr>)
        else do {
          (level, s) \<leftarrow> strictest i pd level s;
          (_, s) \<leftarrow> vs_set_cooling_level env VS_THERMAL_COOLER_BACKLIGHT level s;
          Some (0, s)
        }
      })"


text \<open>The budget of the CPUs is the smaller one of the cooling devices' and of the CPU thermal driver's.\<close>

definition thermal_budget_notify_min :: "vs_env \<Rightarrow> int \<Rightarrow> int \<Rightarrow> vs_coolers \<Rightarrow> vs_coolers option" where
  "thermal_budget_notify_min env budget1 budget2 s =
     (let budget = min budget1 budget2
      in if budget = thermal_budget s then Some s
         else do {
           (_, s) \<leftarrow> vs_set_cooling_level env VS_THERMAL_COOLER_BUDGET
                      (if budget < MAXIMUM_CPU_POWER then budget else 0) (s\<lparr>thermal_budget := budget\<rparr>);
           Some s
         })"

definition thermal_budget_notify :: "vs_env \<Rightarrow> int \<Rightarrow> vs_coolers \<Rightarrow> vs_coolers option" where
  "thermal_budget_notify env budget s =
     (let s = s\<lparr>thermal_budget_cpu := (if budget = 0 then MAXIMUM_CPU_POWER else budget)\<rparr>
      in thermal_budget_notify_min env (thermal_budget_cpu s) (thermal_budget_cooler s) s)"

definition thermal_budget_get :: "vs_coolers \<Rightarrow> int" where
  "thermal_budget_get s = thermal_budget s"

definition thermal_budget_show :: "vs_coolers \<Rightarrow> string" where
  "thermal_budget_show s = print_d (thermal_budget s) @ [NL]"

text \<open>Writing the device file: a number that cannot be parsed counts as no limit.\<close>

definition thermal_budget_write :: "vs_env \<Rightarrow> string option \<Rightarrow> nat \<Rightarrow> vs_coolers \<Rightarrow> (int \<times> vs_coolers) option" where
  "thermal_budget_write env buf len s = do {
     let budget = (case kstrto_from_user kstrtouint 4 buf len 10 of Inl _ \<Rightarrow> 0 | Inr v \<Rightarrow> v);
     s \<leftarrow> thermal_budget_notify env (if budget \<noteq> 0 then s32 budget else MAXIMUM_CPU_POWER) s;
     Some (int len, s)
   }"

definition budget_set_cur_state :: "vs_env \<Rightarrow> nat \<Rightarrow> int \<Rightarrow> vs_coolers \<Rightarrow> (int \<times> vs_coolers) option" where
  "budget_set_cur_state env i state s =
     (if c_state (pdatas s i) = state then Some (0, s)
      else do {
        (level, pd) \<leftarrow> enter_state MAXIMUM_CPU_POWER state (pdatas s i);
        (level, s) \<leftarrow> strictest i pd level s;
        s \<leftarrow> thermal_budget_notify_min env (thermal_budget_cpu s) level (s\<lparr>thermal_budget_cooler := level\<rparr>);
        Some (0, s)
      })"

text \<open>
  The wireless charging device \<^verbatim>\<open>wpc_bcct1\<close> acts on foreign objects: the states below the one of the charging dock
  are not entered.
\<close>

abbreviation (input) POWER_SUPPLY_TYPE_WIRELESS_10W :: int where "POWER_SUPPLY_TYPE_WIRELESS_10W \<equiv> 18"

definition dock_type :: "int \<Rightarrow> int" where
  "dock_type psy_type = (if psy_type = POWER_SUPPLY_TYPE_WIRELESS_10W then 2 else 1)"

definition wpc_enter :: "vs_env \<Rightarrow> nat \<Rightarrow> int \<Rightarrow> vs_coolers \<Rightarrow> (int \<times> vs_coolers) option" where
  "wpc_enter env i state s = do {
     (level, pd) \<leftarrow> enter_state WPC_CURRENT_MAX state (pdatas s i);
     if level = c_level pd then Some (0, s\<lparr>pdatas := (pdatas s)(i := pd)\<rparr>)
     else do {
       (level, s) \<leftarrow> strictest i pd level s;
       (_, s) \<leftarrow> vs_set_cooling_level env (c_cooler_id pd) (if level \<ge> WPC_CURRENT_MAX then - 1 else level) s;
       Some (0, s)
     }
   }"

definition wpc_set_cur_state :: "vs_env \<Rightarrow> nat \<Rightarrow> int \<Rightarrow> vs_coolers \<Rightarrow> (int \<times> vs_coolers) option" where
  "wpc_set_cur_state env i state s =
     (if c_state (pdatas s i) = state then Some (0, s)
      else if c_type (pdatas s i) = ''wpc_bcct1''
      then case chg_type env of
             None \<Rightarrow> Some (- ENODEV, s)
           | Some (Inl ret) \<Rightarrow> Some (ret, s)
           | Some (Inr ty) \<Rightarrow> if state \<noteq> 0 \<and> state < dock_type ty then Some (0, s) else wpc_enter env i state s
      else wpc_enter env i state s)"

text \<open>\<^verbatim>\<open>cdev->ops->set_cur_state\<close>.\<close>

definition set_cur_state :: "vs_env \<Rightarrow> nat \<Rightarrow> int \<Rightarrow> vs_coolers \<Rightarrow> (int \<times> vs_coolers) option" where
  "set_cur_state env i state s =
     (case cd_ops s i of
        BcctOps \<Rightarrow> bcct_set_cur_state env i state s
      | BacklightOps \<Rightarrow> backlight_set_cur_state env i state s
      | BudgetOps \<Rightarrow> budget_set_cur_state env i state s
      | WpcOps \<Rightarrow> wpc_set_cur_state env i state s)"

section \<open>The attribute with the levels\<close>

text \<open>\<^verbatim>\<open>scnprintf\<close> writes at most one byte less than the room it is given.\<close>

definition scnprintf :: "nat \<Rightarrow> string \<Rightarrow> string" where
  "scnprintf room text = take (room - 1) text"

fun levels_lines :: "nat \<Rightarrow> nat \<Rightarrow> nat \<Rightarrow> int list \<Rightarrow> string \<Rightarrow> string option" where
  "levels_lines bufsz i 0 levels buf = Some buf"
| "levels_lines bufsz i (Suc n) levels buf = do {
     level \<leftarrow> arr_get levels (int i);
     levels_lines bufsz (i + 1) n levels
       (buf @ scnprintf (bufsz - length buf) (print_d (int i + 1) @ '' '' @ print_d level @ [NL]))
   }"

definition levels_show :: "nat \<Rightarrow> vs_coolers \<Rightarrow> string option" where
  "levels_show i s =
     (let pd = pdatas s i in levels_lines (nat (c_max_state pd) * 20) 0 (nat (c_max_state pd)) (c_levels pd) [])"

text \<open>
  \<open>scan\<close> is what \<^verbatim>\<open>sscanf\<close> found: the two numbers, or fewer than two.  The comparison of the state with the
  \<^verbatim>\<open>unsigned long\<close> bound makes a negative state a huge one.
\<close>

definition levels_store :: "nat \<Rightarrow> (int \<times> int) option \<Rightarrow> nat \<Rightarrow> vs_coolers \<Rightarrow> (int \<times> vs_coolers) option" where
  "levels_store i scan len s =
     (case scan of
        None \<Rightarrow> Some (- EINVAL, s)
      | Some (state, level) \<Rightarrow>
          if u64 state \<ge> c_max_state (pdatas s i) then Some (- EINVAL, s)
          else do {
            ls \<leftarrow> arr_set (c_levels (pdatas s i)) state level;
            Some (int len, s\<lparr>pdatas := (pdatas s)(i := (pdatas s i)\<lparr>c_levels := ls\<rparr>)\<rparr>)
          })"


section \<open>Probing\<close>

text \<open>
  The properties of a device tree node; \<open>None\<close> is a property that cannot be read.  The platform data start as
  zeroes.  Copying a name does not bound it by the array, which is a fault for a name that does not fit with its
  terminating zero.
\<close>

record cooler_dt =
  dt_type :: "string option"
  dt_state :: "int option"
  dt_max_state :: "int option"
  dt_level :: "int option"
  dt_cooler_id :: "int option"
  dt_levels :: "int list option"

definition thermal_parse_node_int :: "int option \<Rightarrow> int \<Rightarrow> int" where
  "thermal_parse_node_int prop cust_val = (case prop of None \<Rightarrow> cust_val | Some val \<Rightarrow> s32 val)"

definition parse_node_string :: "string option \<Rightarrow> nat \<Rightarrow> string \<Rightarrow> string option" where
  "parse_node_string prop room cust_string =
     (case prop of
        None \<Rightarrow> Some cust_string
      | Some str \<Rightarrow> if length str < room then Some (str @ drop (length str) cust_string) else None)"

definition cooler_parse_node_int_array :: "int list option \<Rightarrow> int list \<Rightarrow> int list" where
  "cooler_parse_node_int_array prop tripsdata =
     (case prop of None \<Rightarrow> tripsdata | Some arr \<Rightarrow> if length arr < THERMAL_MAX_TRIPS then tripsdata else map s32 (take THERMAL_MAX_TRIPS arr))"

definition cooler_zero :: vs_cooler_platform_data where
  "cooler_zero = \<lparr>c_type = [], c_state = 0, c_max_state = 0, c_level = 0, c_cooler_id = 0, c_levels = replicate THERMAL_MAX_TRIPS 0\<rparr>"

text \<open>\<^verbatim>\<open>state\<close> and \<^verbatim>\<open>max_state\<close> are \<^verbatim>\<open>unsigned long\<close>; only their low halves are written.\<close>

definition cooler_init_cust_data_from_dt :: "cooler_dt \<Rightarrow> vs_cooler_platform_data option" where
  "cooler_init_cust_data_from_dt np = do {
     ty \<leftarrow> parse_node_string (dt_type np) THERMAL_NAME_LENGTH (c_type cooler_zero);
     Some (cooler_zero\<lparr>c_type := ty,
       c_state := wrap_u32 (thermal_parse_node_int (dt_state np) 0),
       c_max_state := wrap_u32 (thermal_parse_node_int (dt_max_state np) 0),
       c_level := thermal_parse_node_int (dt_level np) 0,
       c_cooler_id := thermal_parse_node_int (dt_cooler_id np) 0,
       c_levels := cooler_parse_node_int_array (dt_levels np) (c_levels cooler_zero)\<rparr>)
   }"

text \<open>
  The probe that the four drivers share.  Registering reports an error by an error pointer, which the test for NULL
  lets pass: creating the attribute of the device then uses it.
\<close>

record cooler_probe_env =
  pdata_alloc :: bool
  register_ok :: bool
  list_alloc :: bool

definition cooler_probe :: "cooler_ops \<Rightarrow> cooler_probe_env \<Rightarrow> cooler_dt \<Rightarrow> nat \<Rightarrow> vs_coolers \<Rightarrow> (int \<times> vs_coolers) option" where
  "cooler_probe ops env np i s =
     (if \<not> pdata_alloc env then Some (- ENOMEM, s)
      else do {
        pd \<leftarrow> cooler_init_cust_data_from_dt np;
        if \<not> register_ok env then None
        else if \<not> list_alloc env then Some (- ENOMEM, s)
        else Some (0, s\<lparr>pdatas := (pdatas s)(i := pd), cd_ops := (cd_ops s)(i := ops),
               sort_lists := (sort_lists s)(ops := i # sort_lists s ops)\<rparr>)
      })"

definition bcct_probe :: "cooler_probe_env \<Rightarrow> cooler_dt \<Rightarrow> nat \<Rightarrow> vs_coolers \<Rightarrow> (int \<times> vs_coolers) option" where
  "bcct_probe = cooler_probe BcctOps"

definition backlight_probe :: "cooler_probe_env \<Rightarrow> cooler_dt \<Rightarrow> nat \<Rightarrow> vs_coolers \<Rightarrow> (int \<times> vs_coolers) option" where
  "backlight_probe = cooler_probe BacklightOps"

definition budget_cooler_probe :: "cooler_probe_env \<Rightarrow> cooler_dt \<Rightarrow> nat \<Rightarrow> vs_coolers \<Rightarrow> (int \<times> vs_coolers) option" where
  "budget_cooler_probe = cooler_probe BudgetOps"

definition wpc_bcct_probe :: "cooler_probe_env \<Rightarrow> cooler_dt \<Rightarrow> nat \<Rightarrow> vs_coolers \<Rightarrow> (int \<times> vs_coolers) option" where
  "wpc_bcct_probe = cooler_probe WpcOps"

definition cooler_remove :: "nat \<Rightarrow> vs_coolers \<Rightarrow> vs_coolers" where
  "cooler_remove i s = s\<lparr>sort_lists := (sort_lists s)(cd_ops s i := remove1 i (sort_lists s (cd_ops s i)))\<rparr>"

text \<open>The character device of the budget; the result is of the last step tried.\<close>

record budget_probe_env =
  tdev_alloc :: bool
  chrdev_ret :: int
  cdev_add_ret :: int
  class_ok :: bool
  budget_attr_ret :: int

definition thermal_budget_probe :: "budget_probe_env \<Rightarrow> vs_coolers \<Rightarrow> int \<times> vs_coolers" where
  "thermal_budget_probe env s =
     (if \<not> tdev_alloc env then (- ENOMEM, s)
      else if chrdev_ret env \<noteq> 0 then (chrdev_ret env, s)
      else if cdev_add_ret env \<noteq> 0 then (cdev_add_ret env, s)
      else if \<not> class_ok env then (- EINVAL, s)
      else (budget_attr_ret env, s\<lparr>thermal_budget := MAXIMUM_CPU_POWER, thermal_budget_cpu := MAXIMUM_CPU_POWER,
              thermal_budget_cooler := MAXIMUM_CPU_POWER\<rparr>))"


section \<open>The invariant\<close>

text \<open>
  Levels whose differences do not overflow, states inside the table, lists that hold devices of their own driver, and
  an energy model at least as long as the frequency table.
\<close>

definition level_ok :: "int \<Rightarrow> bool" where
  "level_ok l \<longleftrightarrow> - 1073741824 \<le> l \<and> l < 1073741824"

definition pd_ok :: "vs_cooler_platform_data \<Rightarrow> bool" where
  "pd_ok pd \<longleftrightarrow> c_max_state pd \<le> int THERMAL_MAX_TRIPS \<and> 0 \<le> c_state pd \<and> c_state pd \<le> c_max_state pd \<and>
     length (c_levels pd) = THERMAL_MAX_TRIPS \<and> level_ok (c_level pd) \<and> list_all level_ok (c_levels pd)"

definition cpufreq_ok :: "vs_coolers \<Rightarrow> bool" where
  "cpufreq_ok s \<longleftrightarrow> (case cpufreq_cdev s of None \<Rightarrow> True | Some c \<Rightarrow> max_level c < length (em_table c) \<and> 0 < num_cpus c)"

definition coolers_ok :: "vs_coolers \<Rightarrow> bool" where
  "coolers_ok s \<longleftrightarrow> (\<forall>ops. \<forall>j \<in> set (sort_lists s ops). cd_ops s j = ops \<and> pd_ok (pdatas s j)) \<and> cpufreq_ok s"

definition env_ok :: "vs_env \<Rightarrow> bool" where
  "env_ok env \<longleftrightarrow> (case em_found env of None \<Rightarrow> True | Some em \<Rightarrow> valid_entries env \<le> length em) \<and> 0 < related_cpus env"

definition bound_cooler :: "nat \<Rightarrow> vs_coolers \<Rightarrow> bool" where
  "bound_cooler i s \<longleftrightarrow> i \<in> set (sort_lists s (cd_ops s i))"

definition strictest_level :: "cooler_ops \<Rightarrow> vs_coolers \<Rightarrow> int" where
  "strictest_level ops s = Min ((\<lambda>j. c_level (pdatas s j)) ` set (sort_lists s ops))"

text \<open>The level that belongs to a state of a device.\<close>

definition level_of :: "int \<Rightarrow> vs_cooler_platform_data \<Rightarrow> int \<Rightarrow> int" where
  "level_of unlimited pd st = (if st = 0 then unlimited else c_levels pd ! nat (st - 1))"

lemma level_cmp_by:
  assumes "\<forall>i \<in> S. level_ok (c_level (pd i))"
  shows "cmp_by (\<lambda>i. c_level (pd i)) (level_cmp pd) S"
proof -
  have "level_cmp pd x y = c_level (pd x) - c_level (pd y)" if "x \<in> S" "y \<in> S" for x y
  proof -
    have "level_ok (c_level (pd x))" "level_ok (c_level (pd y))" using assms that by auto
    then show ?thesis unfolding level_cmp_def by (intro s32_id) (auto simp: level_ok_def)
  qed
  then show ?thesis by (simp add: cmp_by_def)
qed

lemma thermal_level_compare_min:
  assumes "\<forall>i \<in> set l. level_ok (c_level (pd i))" "l \<noteq> []"
  shows "\<exists>l'. thermal_level_compare pd l True = Some (Min ((\<lambda>i. c_level (pd i)) ` set l), l') \<and> set l' = set l"
proof -
  let ?f = "\<lambda>i. c_level (pd i)"
  have sort: "list_sort (level_cmp pd) l = Some (sort_key ?f l)" by (rule list_sort_eq) (rule level_cmp_by [OF assms(1)])
  have "sort_key ?f l \<noteq> []" using assms(2) by (metis length_0_conv length_sort)
  then obtain x xs where x: "sort_key ?f l = x # xs" by (cases "sort_key ?f l") auto
  have "sorted (map ?f (x # xs))" using sorted_sort_key [of ?f l] by (simp add: x)
  then have least: "\<forall>y \<in> set l. ?f x \<le> ?f y" using x set_sort [of ?f l] by (auto simp del: set_sort)
  have "Min (?f ` set l) = ?f x"
    using least x set_sort [of ?f l] by (intro Min_eqI) (auto simp del: set_sort)
  then show ?thesis using set_sort [of ?f l] by (simp add: thermal_level_compare_def sort x)
qed

lemma enter_state_ok:
  assumes "pd_ok pd" "0 \<le> st" "level_ok u"
  shows "enter_state u st pd = Some (level_of u pd (min st (c_max_state pd)), pd\<lparr>c_state := min st (c_max_state pd)\<rparr>) \<and>
    level_ok (level_of u pd (min st (c_max_state pd)))"
proof -
  define k where "k = min st (c_max_state pd)"
  have k: "0 \<le> k" "k \<le> 12" "length (c_levels pd) = 12" "(if st > c_max_state pd then c_max_state pd else st) = k"
    using assms by (auto simp: pd_ok_def k_def)
  have "level_ok (level_of u pd k)"
  proof (cases "k = 0")
    case False
    then have "nat (k - 1) < length (c_levels pd)" using k by auto
    then show ?thesis using assms(1) False by (simp add: level_of_def pd_ok_def list_all_length)
  qed (simp add: level_of_def assms(3))
  moreover have "k \<noteq> 0 \<Longrightarrow> arr_get (c_levels pd) (k - 1) = Some (c_levels pd ! nat (k - 1))" using k by (intro arr_get_ok) auto
  ultimately show ?thesis unfolding k_def [symmetric] using k by (auto simp: enter_state_def level_of_def Let_def)
qed

lemma strictest_ok:
  assumes "coolers_ok s" "bound_cooler i s" "level_ok level"
  shows "\<exists>l. strictest i pd level s = Some (strictest_level (cd_ops s i) (s\<lparr>pdatas := (pdatas s)(i := pd\<lparr>c_level := level\<rparr>)\<rparr>),
      s\<lparr>pdatas := (pdatas s)(i := pd\<lparr>c_level := level\<rparr>), sort_lists := (sort_lists s)(cd_ops s i := l)\<rparr>) \<and>
    set l = set (sort_lists s (cd_ops s i))"
proof -
  let ?pd = "(pdatas s)(i := pd\<lparr>c_level := level\<rparr>)"
  have "\<forall>j \<in> set (sort_lists s (cd_ops s i)). level_ok (c_level (?pd j))"
    using assms by (auto simp: coolers_ok_def pd_ok_def)
  moreover have "sort_lists s (cd_ops s i) \<noteq> []" using assms(2) by (auto simp: bound_cooler_def)
  ultimately obtain l where "thermal_level_compare ?pd (sort_lists s (cd_ops s i)) True =
      Some (Min ((\<lambda>j. c_level (?pd j)) ` set (sort_lists s (cd_ops s i))), l)" "set l = set (sort_lists s (cd_ops s i))"
    using thermal_level_compare_min by blast
  then show ?thesis by (intro exI [of _ l]) (simp add: strictest_def strictest_level_def)
qed


text \<open>Carrying out a limit leaves the devices and their lists alone, and does not fault.\<close>

lemma freq_level_some: "m < length em \<Longrightarrow> \<exists>i \<le> m. freq_level em m p = Some i"
proof (induction m)
  case (Suc m)
  then obtain i where "i \<le> m" "freq_level em m p = Some i" by auto
  then show ?case using Suc.prems by (cases "em ! Suc m") (auto simp: nat_add_distrib)
qed simp

lemma power_to_freq_some: "m < length em \<Longrightarrow> \<exists>f. vs_cpu_power_to_freq em m p = Some f"
  using freq_level_some [of m em p] by (auto simp: vs_cpu_power_to_freq_def)

definition devices :: "vs_coolers \<Rightarrow> (nat \<Rightarrow> vs_cooler_platform_data) \<times> (nat \<Rightarrow> cooler_ops) \<times> (cooler_ops \<Rightarrow> nat list)" where
  "devices s = (pdatas s, cd_ops s, sort_lists s)"

lemma init_cpufreq_ok:
  assumes "env_ok env" "cpufreq_cdev s = None"
  shows "\<exists>r s'. vs_init_cpufreq_limit_power env s = (r, s') \<and> devices s' = devices s \<and> cpufreq_ok s' \<and>
    thermal_budget s' = thermal_budget s"
  using assms
  by (auto simp: vs_init_cpufreq_limit_power_def devices_def cpufreq_ok_def env_ok_def split: option.splits)

lemma set_cpufreq_ok:
  assumes "env_ok env" "cpufreq_ok s"
  shows "\<exists>r s'. set_cpufreq_thermal_power env b s = Some (r, s') \<and> devices s' = devices s \<and> cpufreq_ok s' \<and>
    thermal_budget s' = thermal_budget s"
proof -
  obtain r s1 where s1: "(case cpufreq_cdev s of None \<Rightarrow> vs_init_cpufreq_limit_power env s | Some _ \<Rightarrow> (0, s)) = (r, s1)"
    "devices s1 = devices s" "cpufreq_ok s1" "thermal_budget s1 = thermal_budget s"
    using init_cpufreq_ok [OF assms(1), of s] assms(2) by (cases "cpufreq_cdev s") auto
  show ?thesis
  proof (cases "cpufreq_cdev s1")
    case None
    then show ?thesis using s1 by (simp add: set_cpufreq_thermal_power_def)
  next
    case (Some c)
    then have c: "max_level c < length (em_table c)" "0 < num_cpus c" using s1(3) by (simp_all add: cpufreq_ok_def)
    obtain f where f: "vs_cpu_power_to_freq (em_table c) (max_level c) (wrap_u32 b div num_cpus c) = Some f"
      using power_to_freq_some [OF c(1)] by blast
    show ?thesis
      using s1 Some c f by (simp add: set_cpufreq_thermal_power_def devices_def cpufreq_ok_def)
  qed
qed

lemma set_cooling_level_ok:
  assumes "env_ok env" "cpufreq_ok s"
  shows "\<exists>r s'. vs_set_cooling_level env c l s = Some (r, s') \<and> devices s' = devices s \<and> cpufreq_ok s' \<and>
    thermal_budget s' = thermal_budget s"
  using set_cpufreq_ok [OF assms, of l] assms
  by (auto simp: vs_set_cooling_level_def set_charging_level_limit_def fod_set_charging_level_limit_def devices_def
      cpufreq_ok_def Let_def)


section \<open>What setting a state does\<close>

definition same_but :: "nat \<Rightarrow> vs_coolers \<Rightarrow> vs_coolers \<Rightarrow> bool" where
  "same_but i s s' \<longleftrightarrow> cd_ops s' = cd_ops s \<and> (\<forall>ops. set (sort_lists s' ops) = set (sort_lists s ops)) \<and>
     (\<forall>j. j \<noteq> i \<longrightarrow> pdatas s' j = pdatas s j) \<and> c_max_state (pdatas s' i) = c_max_state (pdatas s i) \<and>
     c_type (pdatas s' i) = c_type (pdatas s i) \<and> c_levels (pdatas s' i) = c_levels (pdatas s i) \<and>
     c_cooler_id (pdatas s' i) = c_cooler_id (pdatas s i)"

lemma same_but_refl [simp]: "same_but i s s"
  by (simp add: same_but_def)

lemma devices_congs:
  assumes "devices s' = devices s"
  shows "pdatas s' = pdatas s" "cd_ops s' = cd_ops s" "sort_lists s' = sort_lists s"
  using assms by (simp_all add: devices_def)

lemma devices_ok:
  assumes "devices s' = devices s" "coolers_ok s" "cpufreq_ok s'"
  shows "coolers_ok s'" "same_but i t s' = same_but i t s" "strictest_level ops s' = strictest_level ops s"
  using assms devices_congs [OF assms(1)] by (simp_all add: coolers_ok_def same_but_def strictest_level_def)

lemma enter_strictest:
  fixes s i st u
  assumes "coolers_ok s" "bound_cooler i s" "0 \<le> st" "level_ok u"
  defines "k \<equiv> min st (c_max_state (pdatas s i))"
  shows "\<exists>lv pd s1. enter_state u st (pdatas s i) = Some (lv, pd) \<and> pd = (pdatas s i)\<lparr>c_state := k\<rparr> \<and>
    lv = level_of u (pdatas s i) k \<and> coolers_ok (s\<lparr>pdatas := (pdatas s)(i := pd)\<rparr>) \<and> strictest i pd lv s = Some (strictest_level (cd_ops s i) s1, s1) \<and> coolers_ok s1 \<and>
    same_but i s s1 \<and> pdatas s1 i = pd\<lparr>c_level := lv\<rparr> \<and> thermal_budget_cpu s1 = thermal_budget_cpu s \<and>
    charge_limit s1 = charge_limit s \<and> bat_psy s1 = bat_psy s \<and> cpufreq_cdev s1 = cpufreq_cdev s \<and> thermal_budget s1 = thermal_budget s"
proof -
  have pd: "pd_ok (pdatas s i)" using assms(1,2) by (auto simp: coolers_ok_def bound_cooler_def)
  have k: "0 \<le> k" "k \<le> c_max_state (pdatas s i)" using pd assms(3) by (auto simp: k_def pd_ok_def)
  define pd' where "pd' = (pdatas s i)\<lparr>c_state := k\<rparr>"
  define lv where "lv = level_of u (pdatas s i) k"
  have e: "enter_state u st (pdatas s i) = Some (lv, pd')" "level_ok lv"
    using enter_state_ok [OF pd assms(3,4)] by (simp_all add: pd'_def lv_def k_def)
  obtain l where l: "strictest i pd' lv s = Some (strictest_level (cd_ops s i) (s\<lparr>pdatas := (pdatas s)(i := pd'\<lparr>c_level := lv\<rparr>)\<rparr>),
      s\<lparr>pdatas := (pdatas s)(i := pd'\<lparr>c_level := lv\<rparr>), sort_lists := (sort_lists s)(cd_ops s i := l)\<rparr>)"
    "set l = set (sort_lists s (cd_ops s i))" using strictest_ok [OF assms(1,2) e(2)] by blast
  define s1 where "s1 = s\<lparr>pdatas := (pdatas s)(i := pd'\<lparr>c_level := lv\<rparr>), sort_lists := (sort_lists s)(cd_ops s i := l)\<rparr>"
  have ok: "pd_ok pd'" "pd_ok (pd'\<lparr>c_level := lv\<rparr>)" using pd e(2) k by (auto simp: pd_ok_def pd'_def)
  have "strictest_level (cd_ops s i) (s\<lparr>pdatas := (pdatas s)(i := pd'\<lparr>c_level := lv\<rparr>)\<rparr>) = strictest_level (cd_ops s i) s1"
    using l(2) by (simp add: strictest_level_def s1_def)
  moreover have "coolers_ok s1"
    using assms(1) ok(2) l(2) by (auto simp: coolers_ok_def s1_def cpufreq_ok_def)
  moreover have "coolers_ok (s\<lparr>pdatas := (pdatas s)(i := pd')\<rparr>)" using assms(1) ok(1) by (auto simp: coolers_ok_def cpufreq_ok_def)
  moreover have "same_but i s s1" using l(2) by (auto simp: same_but_def s1_def pd'_def)
  ultimately show ?thesis
    using e(1) l(1) by (intro exI [of _ lv] exI [of _ pd'] exI [of _ s1]) (simp add: s1_def pd'_def lv_def)
qed

text \<open>Devices that the detection of foreign objects does not hold back.\<close>

definition plain_cooler :: "nat \<Rightarrow> vs_coolers \<Rightarrow> bool" where
  "plain_cooler i s \<longleftrightarrow> bound_cooler i s \<and> \<not> (cd_ops s i = WpcOps \<and> c_type (pdatas s i) = ''wpc_bcct1'')"

lemma notify_min_ok:
  assumes "env_ok env" "cpufreq_ok s"
  shows "\<exists>s'. thermal_budget_notify_min env a b s = Some s' \<and> devices s' = devices s \<and> cpufreq_ok s' \<and>
    thermal_budget s' = min a b"
  using set_cooling_level_ok [OF assms(1), of "s\<lparr>thermal_budget := min a b\<rparr>" VS_THERMAL_COOLER_BUDGET
      "if min a b < MAXIMUM_CPU_POWER then min a b else 0"] assms(2)
  by (auto simp: thermal_budget_notify_min_def cpufreq_ok_def devices_def Let_def)


lemma set_cur_state_same:
  assumes "coolers_ok s" "bound_cooler i s" "c_state (pdatas s i) = st"
  shows "min st (c_max_state (pdatas s i)) = st"
  using assms by (auto simp: coolers_ok_def bound_cooler_def pd_ok_def)

text \<open>The three drivers that only carry out a limit when the level changed share this step.\<close>

definition limit_step :: "vs_env \<Rightarrow> int \<Rightarrow> (vs_cooler_platform_data \<Rightarrow> int) \<Rightarrow> (int \<Rightarrow> int) \<Rightarrow> nat \<Rightarrow> int \<Rightarrow> vs_coolers \<Rightarrow> (int \<times> vs_coolers) option" where
  "limit_step env u cid lim i st s = do {
     (level, pd) \<leftarrow> enter_state u st (pdatas s i);
     if level = c_level pd then Some (0, s\<lparr>pdatas := (pdatas s)(i := pd)\<rparr>)
     else do {
       (level, s) \<leftarrow> strictest i pd level s;
       (_, s) \<leftarrow> vs_set_cooling_level env (cid pd) (lim level) s;
       Some (0, s)
     }
   }"

lemma limit_step_eqs:
  "bcct_set_cur_state env i st s = (if c_state (pdatas s i) = st then Some (0, s)
     else limit_step env BCCT_CURRENT_MAX c_cooler_id (\<lambda>l. if l \<ge> BCCT_CURRENT_MAX then - 1 else l sdiv 100) i st s)"
  "backlight_set_cur_state env i st s = (if c_state (pdatas s i) = st then Some (0, s)
     else limit_step env MAX_BRIGHTNESS (\<lambda>_. VS_THERMAL_COOLER_BACKLIGHT) (\<lambda>l. l) i st s)"
  "wpc_enter env i st s = limit_step env WPC_CURRENT_MAX c_cooler_id (\<lambda>l. if l \<ge> WPC_CURRENT_MAX then - 1 else l) i st s"
  by (simp_all add: bcct_set_cur_state_def backlight_set_cur_state_def wpc_enter_def limit_step_def)

lemma limit_step_ok:
  assumes "coolers_ok s" "env_ok env" "bound_cooler i s" "0 \<le> st" "level_ok u"
  shows "\<exists>r s'. limit_step env u cid lim i st s = Some (r, s') \<and> coolers_ok s' \<and> same_but i s s' \<and>
    c_state (pdatas s' i) = min st (c_max_state (pdatas s i))"
proof -
  obtain lv pd s1 where e: "enter_state u st (pdatas s i) = Some (lv, pd)"
    "pd = (pdatas s i)\<lparr>c_state := min st (c_max_state (pdatas s i))\<rparr>" "coolers_ok (s\<lparr>pdatas := (pdatas s)(i := pd)\<rparr>)"
    "strictest i pd lv s = Some (strictest_level (cd_ops s i) s1, s1)" "coolers_ok s1" "same_but i s s1"
    "pdatas s1 i = pd\<lparr>c_level := lv\<rparr>"
    using enter_strictest [OF assms(1,3-5)] by blast
  obtain r s2 where v: "vs_set_cooling_level env (cid pd) (lim (strictest_level (cd_ops s i) s1)) s1 = Some (r, s2)"
    "devices s2 = devices s1" "cpufreq_ok s2"
    using set_cooling_level_ok [OF assms(2)] e(5) by (metis coolers_ok_def)
  have s2: "coolers_ok s2" "same_but i s s2" "pdatas s2 = pdatas s1"
    using devices_ok [OF v(2) e(5) v(3)] e(6) devices_congs [OF v(2)] by simp_all
  show ?thesis
  proof (cases "lv = c_level pd")
    case True
    then show ?thesis using e by (auto simp: limit_step_def same_but_def)
  next
    case False
    then show ?thesis using e v(1) s2 by (simp add: limit_step_def)
  qed
qed

lemma budget_set_ok:
  assumes "coolers_ok s" "env_ok env" "bound_cooler i s" "0 \<le> st" "c_state (pdatas s i) \<noteq> st"
  shows "\<exists>s'. budget_set_cur_state env i st s = Some (0, s') \<and> coolers_ok s' \<and> same_but i s s' \<and>
    c_state (pdatas s' i) = min st (c_max_state (pdatas s i)) \<and>
    thermal_budget s' = min (thermal_budget_cpu s) (strictest_level (cd_ops s i) s')"
proof -
  obtain lv pd s1 where e: "enter_state MAXIMUM_CPU_POWER st (pdatas s i) = Some (lv, pd)"
    "pd = (pdatas s i)\<lparr>c_state := min st (c_max_state (pdatas s i))\<rparr>"
    "strictest i pd lv s = Some (strictest_level (cd_ops s i) s1, s1)" "coolers_ok s1" "same_but i s s1"
    "pdatas s1 i = pd\<lparr>c_level := lv\<rparr>" "thermal_budget_cpu s1 = thermal_budget_cpu s"
    using enter_strictest [OF assms(1,3,4), of MAXIMUM_CPU_POWER] by (auto simp: level_ok_def)
  define m where "m = strictest_level (cd_ops s i) s1"
  have d: "devices (s1\<lparr>thermal_budget_cooler := m\<rparr>) = devices s1" "cpufreq_ok (s1\<lparr>thermal_budget_cooler := m\<rparr>)"
    using e(4) by (simp_all add: devices_def cpufreq_ok_def coolers_ok_def)
  obtain s2 where n: "thermal_budget_notify_min env (thermal_budget_cpu s) m (s1\<lparr>thermal_budget_cooler := m\<rparr>) = Some s2"
    "devices s2 = devices s1" "cpufreq_ok s2" "thermal_budget s2 = min (thermal_budget_cpu s) m"
    using notify_min_ok [OF assms(2) d(2)] d(1) by metis
  have s2: "coolers_ok s2" "same_but i s s2" "pdatas s2 = pdatas s1" "strictest_level (cd_ops s i) s2 = m"
    using devices_ok [OF n(2) e(4) n(3)] e(5) devices_congs [OF n(2)] by (simp_all add: m_def)
  show ?thesis
    using assms(5) e n(1,4) s2 by (simp add: budget_set_cur_state_def m_def)
qed

lemma set_cur_state_ok:
  assumes "coolers_ok s" "env_ok env" "plain_cooler i s" "0 \<le> st"
  shows "\<exists>r s'. set_cur_state env i st s = Some (r, s') \<and> coolers_ok s' \<and> same_but i s s' \<and>
    c_state (pdatas s' i) = min st (c_max_state (pdatas s i))"
proof (cases "c_state (pdatas s i) = st")
  case True
  then show ?thesis
    using assms set_cur_state_same [OF assms(1) _ True]
    by (auto simp: set_cur_state_def bcct_set_cur_state_def backlight_set_cur_state_def budget_set_cur_state_def
        wpc_set_cur_state_def plain_cooler_def split: cooler_ops.split)
next
  case False
  have b: "bound_cooler i s" using assms(3) by (simp add: plain_cooler_def)
  note step = limit_step_ok [OF assms(1,2) b assms(4)]
  show ?thesis
  proof (cases "cd_ops s i")
    case BcctOps
    then show ?thesis using False step by (simp add: set_cur_state_def limit_step_eqs level_ok_def)
  next
    case BacklightOps
    then show ?thesis using False step by (simp add: set_cur_state_def limit_step_eqs level_ok_def)
  next
    case BudgetOps
    then show ?thesis using budget_set_ok [OF assms(1,2) b assms(4) False] by (auto simp: set_cur_state_def)
  next
    case WpcOps
    then show ?thesis using False step assms(3)
      by (simp add: set_cur_state_def wpc_set_cur_state_def limit_step_eqs level_ok_def plain_cooler_def)
  qed
qed

section \<open>The contract\<close>

text \<open>The four drivers keep the contract that the framework and the governor rely on.\<close>

lemma cooler_range:
  assumes "coolers_ok s" "plain_cooler i s"
  shows "0 \<le> virtual_sensor_get_cur_state i s \<and> virtual_sensor_get_cur_state i s \<le> virtual_sensor_get_max_state i s \<and>
    virtual_sensor_get_max_state i s < THERMAL_NO_TARGET"
proof -
  have "pd_ok (pdatas s i)" using assms unfolding coolers_ok_def plain_cooler_def bound_cooler_def by blast
  then show ?thesis by (simp add: pd_ok_def virtual_sensor_get_cur_state_def virtual_sensor_get_max_state_def)
qed

lemma cooler_set_law:
  assumes "coolers_ok s" "env_ok e" "plain_cooler i s" "0 \<le> st"
  shows "\<exists>r s'. set_cur_state e i st s = Some (r, s') \<and> coolers_ok s' \<and>
    virtual_sensor_get_cur_state i s' = min st (virtual_sensor_get_max_state i s) \<and>
    (\<forall>j. j \<noteq> i \<longrightarrow> virtual_sensor_get_cur_state j s' = virtual_sensor_get_cur_state j s) \<and>
    (\<forall>j. virtual_sensor_get_max_state j s' = virtual_sensor_get_max_state j s) \<and> (\<forall>j. plain_cooler j s' = plain_cooler j s)"
proof -
  obtain r s' where s': "set_cur_state e i st s = Some (r, s')" "coolers_ok s'" "same_but i s s'"
    "c_state (pdatas s' i) = min st (c_max_state (pdatas s i))" using set_cur_state_ok [OF assms] by blast
  have "c_max_state (pdatas s' j) = c_max_state (pdatas s j)" "c_type (pdatas s' j) = c_type (pdatas s j)" for j
    using s'(3) by (cases "j = i"; simp add: same_but_def)+
  then show ?thesis
    using s' by (auto simp: same_but_def plain_cooler_def bound_cooler_def virtual_sensor_get_cur_state_def
        virtual_sensor_get_max_state_def)
qed

interpretation vs_cdev: cooling_device coolers_ok env_ok plain_cooler virtual_sensor_get_cur_state virtual_sensor_get_max_state set_cur_state
  by unfold_locales (use cooler_set_law cooler_range in blast)+

section \<open>The limit on the charging current\<close>

text \<open>The limit that a level stands for: no limit, or the level in microampere.\<close>

definition bcct_limit :: "int \<Rightarrow> int" where
  "bcct_limit level = (if level \<ge> BCCT_CURRENT_MAX then - 1 else level div 100 * 1000)"

definition charge_ids :: "vs_coolers \<Rightarrow> bool" where
  "charge_ids s \<longleftrightarrow> (\<forall>j. cd_ops s j = BcctOps \<longrightarrow> c_cooler_id (pdatas s j) = VS_THERMAL_COOLER_BCCT \<and>
       0 \<le> c_level (pdatas s j) \<and> list_all (\<lambda>l. 0 \<le> l) (c_levels (pdatas s j))) \<and>
     (\<forall>j. cd_ops s j = WpcOps \<longrightarrow> c_cooler_id (pdatas s j) \<noteq> VS_THERMAL_COOLER_BCCT)"

definition bcct_levels :: "vs_coolers \<Rightarrow> nat \<Rightarrow> int" where
  "bcct_levels s = (\<lambda>j. if j \<in> set (sort_lists s BcctOps) then c_level (pdatas s j) else 0)"

text \<open>Either nothing about the charging current changed, or the limit is that of the strictest device.\<close>

definition charge_step :: "vs_coolers \<Rightarrow> vs_coolers \<Rightarrow> bool" where
  "charge_step s s' \<longleftrightarrow> charge_limit s' = charge_limit s \<and> bcct_levels s' = bcct_levels s \<or>
     charge_limit s' = Some (bcct_limit (strictest_level BcctOps s'))"

lemma charge_limit_cooling_level:
  assumes "vs_set_cooling_level env c l s = Some (r, s')" "c \<noteq> VS_THERMAL_COOLER_BCCT"
  shows "charge_limit s' = charge_limit s"
  using assms
  by (auto simp: vs_set_cooling_level_def set_charging_level_limit_def fod_set_charging_level_limit_def
      set_cpufreq_thermal_power_def vs_init_cpufreq_limit_power_def Let_def bind_eq_Some_conv split: if_splits option.splits prod.splits)


lemma limit_step_result:
  assumes "coolers_ok s" "env_ok env" "bound_cooler i s" "0 \<le> st" "level_ok u"
    and "limit_step env u cid lim i st s = Some (r, s')" "cid ((pdatas s i)\<lparr>c_state := min st (c_max_state (pdatas s i))\<rparr>) = c"
  shows "c_level (pdatas s' i) = level_of u (pdatas s i) (min st (c_max_state (pdatas s i)))"
    "charge_limit s' = charge_limit s \<and> c_level (pdatas s' i) = c_level (pdatas s i) \<or>
      (\<exists>s1 r1. vs_set_cooling_level env c (lim (strictest_level (cd_ops s i) s')) s1 = Some (r1, s') \<and> charge_limit s1 = charge_limit s)"
proof -
  define k where "k = min st (c_max_state (pdatas s i))"
  obtain lv pd s1 where e: "enter_state u st (pdatas s i) = Some (lv, pd)" "lv = level_of u (pdatas s i) k"
    "pd = (pdatas s i)\<lparr>c_state := k\<rparr>" "strictest i pd lv s = Some (strictest_level (cd_ops s i) s1, s1)" "coolers_ok s1"
    "pdatas s1 i = pd\<lparr>c_level := lv\<rparr>" "charge_limit s1 = charge_limit s"
    unfolding k_def using enter_strictest [OF assms(1,3-5)] by blast
  obtain r2 s2 where v: "vs_set_cooling_level env (cid pd) (lim (strictest_level (cd_ops s i) s1)) s1 = Some (r2, s2)"
    "devices s2 = devices s1" "cpufreq_ok s2"
    using set_cooling_level_ok [OF assms(2)] e(5) by (metis coolers_ok_def)
  have s2: "pdatas s2 = pdatas s1" "strictest_level (cd_ops s i) s2 = strictest_level (cd_ops s i) s1"
    using devices_ok(3) [OF v(2) e(5) v(3)] devices_congs(1) [OF v(2)] by simp_all
  have c: "cid pd = c" using assms(7) by (simp add: e(3) k_def)
  have r: "s' = (if lv = c_level (pdatas s i) then s\<lparr>pdatas := (pdatas s)(i := pd)\<rparr> else s2)"
    using assms(6) e(1,4) v(1) by (simp add: limit_step_def e(3) split: if_splits)
  then show "c_level (pdatas s' i) = level_of u (pdatas s i) (min st (c_max_state (pdatas s i)))"
    using e(2,3,6) s2(1) by (simp add: k_def)
  show "charge_limit s' = charge_limit s \<and> c_level (pdatas s' i) = c_level (pdatas s i) \<or>
      (\<exists>s1 r1. vs_set_cooling_level env c (lim (strictest_level (cd_ops s i) s')) s1 = Some (r1, s') \<and> charge_limit s1 = charge_limit s)"
    using r v(1) s2(2) e(3,7) c by (cases "lv = c_level (pdatas s i)") auto
qed

lemma bcct_levels_same:
  assumes "same_but i s s'" "c_level (pdatas s' i) = c_level (pdatas s i) \<or> i \<notin> set (sort_lists s BcctOps)"
  shows "bcct_levels s' = bcct_levels s"
proof
  fix j
  show "bcct_levels s' j = bcct_levels s j" using assms by (cases "j = i") (auto simp: bcct_levels_def same_but_def)
qed

lemma charge_ids_same:
  assumes "charge_ids s" "same_but i s s'" "cd_ops s i = BcctOps \<longrightarrow> 0 \<le> c_level (pdatas s' i)"
  shows "charge_ids s'"
proof -
  have "c_cooler_id (pdatas s' j) = c_cooler_id (pdatas s j)" "c_levels (pdatas s' j) = c_levels (pdatas s j)"
    "cd_ops s' j = cd_ops s j" "cd_ops s j = BcctOps \<Longrightarrow> 0 \<le> c_level (pdatas s' j)" for j
    using assms by (cases "j = i"; simp add: same_but_def charge_ids_def)+
  then show ?thesis using assms(1) by (simp add: charge_ids_def)
qed

lemma strictest_level_nonneg:
  assumes "coolers_ok s" "charge_ids s" "sort_lists s BcctOps \<noteq> []"
  shows "0 \<le> strictest_level BcctOps s"
  using assms unfolding strictest_level_def coolers_ok_def charge_ids_def by (subst Min_ge_iff) auto


lemma budget_charge:
  assumes "coolers_ok s" "env_ok env" "bound_cooler i s" "0 \<le> st" "budget_set_cur_state env i st s = Some (r, s')"
  shows "charge_limit s' = charge_limit s"
proof (cases "c_state (pdatas s i) = st")
  case False
  obtain lv pd s1 where e: "enter_state MAXIMUM_CPU_POWER st (pdatas s i) = Some (lv, pd)"
    "strictest i pd lv s = Some (strictest_level (cd_ops s i) s1, s1)" "charge_limit s1 = charge_limit s"
    using enter_strictest [OF assms(1,3,4), of MAXIMUM_CPU_POWER] by (auto simp: level_ok_def)
  show ?thesis
    using assms(5) False e
    by (auto simp: budget_set_cur_state_def thermal_budget_notify_min_def Let_def bind_eq_Some_conv
        dest: charge_limit_cooling_level split: if_splits)
qed (use assms(5) in \<open>simp add: budget_set_cur_state_def\<close>)

lemma bcct_limit_set:
  assumes "vs_set_cooling_level env VS_THERMAL_COOLER_BCCT (if m \<ge> BCCT_CURRENT_MAX then - 1 else m sdiv 100) s1 = Some (r, s')"
    and "0 \<le> m" "bat_found env" "0 \<le> set_property_ret env"
  shows "charge_limit s' = Some (bcct_limit m)"
proof -
  have m: "m sdiv 100 = m div 100" using assms(2) by (simp add: sdiv_pos)
  have "m < 320001 \<Longrightarrow> s32 (m div 100 * 1000) = m div 100 * 1000" using assms(2) by (intro s32_id) auto
  then show ?thesis
    using assms m by (auto simp: vs_set_cooling_level_def set_charging_level_limit_def bcct_limit_def Let_def split: if_splits)
qed

lemma level_of_nonneg:
  assumes "pd_ok pd" "list_all (\<lambda>l. 0 \<le> l) (c_levels pd)" "0 \<le> u" "0 \<le> k" "k \<le> c_max_state pd"
  shows "0 \<le> level_of u pd k"
proof (cases "k = 0")
  case False
  then have "nat (k - 1) < length (c_levels pd)" using assms by (auto simp: pd_ok_def)
  then show ?thesis using assms(2) False by (simp add: level_of_def list_all_length)
qed (simp add: level_of_def assms(3))

lemma set_cur_state_charge:
  assumes "coolers_ok s" "env_ok env" "plain_cooler i s" "0 \<le> st" "charge_ids s" "bat_found env" "0 \<le> set_property_ret env"
    and "set_cur_state env i st s = Some (r, s')"
  shows "charge_step s s' \<and> charge_ids s'"
proof (cases "c_state (pdatas s i) = st")
  case True
  then have "s' = s"
    using assms(3,8) by (auto simp: set_cur_state_def bcct_set_cur_state_def backlight_set_cur_state_def budget_set_cur_state_def
        wpc_set_cur_state_def split: cooler_ops.splits)
  then show ?thesis using assms(5) by (simp add: charge_step_def)
next
  case False
  have b: "bound_cooler i s" using assms(3) by (simp add: plain_cooler_def)
  have pd: "pd_ok (pdatas s i)" "\<forall>j \<in> set (sort_lists s BcctOps). cd_ops s j = BcctOps"
    using assms(1) b unfolding coolers_ok_def bound_cooler_def by blast+
  have s': "coolers_ok s'" "same_but i s s'" using set_cur_state_ok [OF assms(1-4)] assms(8) by auto
  note res = limit_step_result [OF assms(1,2) b assms(4)]
  show ?thesis
  proof (cases "cd_ops s i = BcctOps")
    case True
    let ?lim = "\<lambda>l. if l \<ge> BCCT_CURRENT_MAX then - 1 else l sdiv 100"
    have st: "limit_step env BCCT_CURRENT_MAX c_cooler_id ?lim i st s = Some (r, s')"
      using assms(8) True False by (simp add: set_cur_state_def limit_step_eqs)
    have cid: "c_cooler_id ((pdatas s i)\<lparr>c_state := min st (c_max_state (pdatas s i))\<rparr>) = VS_THERMAL_COOLER_BCCT"
      using assms(5) True by (simp add: charge_ids_def)
    have "level_ok BCCT_CURRENT_MAX" by (simp add: level_ok_def)
    note r = res [OF this st cid]
    have "0 \<le> c_level (pdatas s' i)"
      unfolding r(1) by (rule level_of_nonneg [OF pd(1)]) (use assms(4,5) True pd(1) in \<open>simp_all add: charge_ids_def pd_ok_def\<close>)
    then have ids: "charge_ids s'" using charge_ids_same [OF assms(5) s'(2)] by simp
    have "sort_lists s' BcctOps \<noteq> []" using b s'(2) True unfolding bound_cooler_def same_but_def by (metis empty_iff list.set(1))
    then have n: "0 \<le> strictest_level BcctOps s'" using strictest_level_nonneg [OF s'(1) ids] by simp
    from r(2) show ?thesis
    proof (elim disjE exE conjE)
      fix s1 r1
      assume "vs_set_cooling_level env VS_THERMAL_COOLER_BCCT (?lim (strictest_level (cd_ops s i) s')) s1 = Some (r1, s')"
      then show ?thesis using bcct_limit_set [OF _ n assms(6,7)] ids unfolding True charge_step_def by blast
    qed (use bcct_levels_same [OF s'(2)] ids in \<open>simp add: charge_step_def\<close>)
  next
    case nb: False
    have step: "charge_limit s' = charge_limit s"
      if "limit_step env u cid lim i st s = Some (r, s')" "level_ok u" "cid ((pdatas s i)\<lparr>c_state := min st (c_max_state (pdatas s i))\<rparr>) \<noteq> 0"
      for u cid lim using res(2) [OF that(2,1) refl] charge_limit_cooling_level that(3) by metis
    have "charge_limit s' = charge_limit s"
    proof (cases "cd_ops s i")
      case BacklightOps
      show ?thesis by (rule step [of MAX_BRIGHTNESS "\<lambda>_. VS_THERMAL_COOLER_BACKLIGHT" "\<lambda>l. l"])
          (use assms(8) False BacklightOps in \<open>simp_all add: set_cur_state_def limit_step_eqs level_ok_def\<close>)
    next
      case WpcOps
      show ?thesis by (rule step [of WPC_CURRENT_MAX c_cooler_id "\<lambda>l. if l \<ge> WPC_CURRENT_MAX then - 1 else l"])
          (use assms(3,5,8) False WpcOps in \<open>simp_all add: set_cur_state_def wpc_set_cur_state_def plain_cooler_def limit_step_eqs
            level_ok_def charge_ids_def\<close>)
    qed (use nb assms(8) budget_charge [OF assms(1,2) b assms(4)] in \<open>auto simp: set_cur_state_def\<close>)
    then show ?thesis
      using nb pd(2) bcct_levels_same [OF s'(2)] charge_ids_same [OF assms(5) s'(2)] by (auto simp: charge_step_def)
  qed
qed


text \<open>A sequence of requests by the framework, each with the answers of the other drivers.\<close>

fun cool_run :: "(vs_env \<times> nat \<times> int) list \<Rightarrow> vs_coolers \<Rightarrow> vs_coolers option" where
  "cool_run [] s = Some s"
| "cool_run ((env, i, st) # reqs) s = do { (_, s) \<leftarrow> set_cur_state env i st s; cool_run reqs s }"

definition req_ok :: "vs_coolers \<Rightarrow> vs_env \<times> nat \<times> int \<Rightarrow> bool" where
  "req_ok s req = (case req of (env, i, st) \<Rightarrow>
     env_ok env \<and> bat_found env \<and> 0 \<le> set_property_ret env \<and> plain_cooler i s \<and> 0 \<le> st)"

lemma charge_step_trans:
  assumes "charge_step s s1" "charge_step s1 s2" "set (sort_lists s2 BcctOps) = set (sort_lists s1 BcctOps)"
  shows "charge_step s s2"
proof -
  have lv: "strictest_level BcctOps t = Min (bcct_levels t ` set (sort_lists t BcctOps))" for t
    by (simp add: strictest_level_def bcct_levels_def)
  show ?thesis using assms(1,2) unfolding charge_step_def lv assms(3) by auto
qed

lemma cool_run_ok:
  assumes "coolers_ok s" "charge_ids s" "\<forall>req \<in> set reqs. req_ok s req"
  shows "\<exists>s'. cool_run reqs s = Some s' \<and> coolers_ok s' \<and> charge_ids s' \<and> charge_step s s' \<and>
    set (sort_lists s' BcctOps) = set (sort_lists s BcctOps)"
  using assms
proof (induction reqs arbitrary: s)
  case Nil
  then show ?case by (simp add: charge_step_def)
next
  case (Cons req reqs)
  obtain env i st where req: "req = (env, i, st)" by (cases req) auto
  have r: "env_ok env" "bat_found env" "0 \<le> set_property_ret env" "plain_cooler i s" "0 \<le> st"
    using Cons.prems(3) by (simp_all add: req req_ok_def)
  obtain k s1 where s1: "set_cur_state env i st s = Some (k, s1)" "coolers_ok s1" "\<forall>j. plain_cooler j s1 = plain_cooler j s"
    using cooler_set_law [OF Cons.prems(1) r(1,4,5)] by blast
  have c1: "charge_step s s1" "charge_ids s1"
    using set_cur_state_charge [OF Cons.prems(1) r(1,4,5) Cons.prems(2) r(2,3) s1(1)] by simp_all
  have l1: "set (sort_lists s1 BcctOps) = set (sort_lists s BcctOps)"
    using set_cur_state_ok [OF Cons.prems(1) r(1,4,5)] s1(1) by (auto simp: same_but_def)
  have "\<forall>req \<in> set reqs. req_ok s1 req" using Cons.prems(3) s1(3) by (simp add: req_ok_def)
  then obtain s' where s': "cool_run reqs s1 = Some s'" "coolers_ok s'" "charge_ids s'" "charge_step s1 s'"
    "set (sort_lists s' BcctOps) = set (sort_lists s1 BcctOps)" using Cons.IH [OF s1(2) c1(2)] by blast
  then show ?case using s1(1) c1(1) l1 charge_step_trans [OF c1(1) s'(4,5)] by (simp add: req)
qed


section \<open>The limit on the CPU frequency\<close>

lemma freq_level_greatest:
  assumes "m < length em" "freq_level em m p = Some i"
  shows "i \<le> m \<and> (i = 0 \<or> snd (em ! i) \<le> p) \<and> (\<forall>j. i < j \<and> j \<le> m \<longrightarrow> p < snd (em ! j))"
  using assms
proof (induction m)
  case (Suc m)
  have g: "arr_get em (int (Suc m)) = Some (em ! Suc m)" using arr_get_ok [of "int (Suc m)" em] Suc.prems(1) by (simp del: of_nat_Suc)
  show ?case
  proof (cases "snd (em ! Suc m) \<le> p")
    case True
    then show ?thesis using Suc.prems g by (auto simp: split_def)
  next
    case False
    then have "freq_level em m p = Some i" using Suc.prems(2) g by (simp add: split_def)
    then show ?thesis using Suc.IH Suc.prems(1) False by (auto simp: le_Suc_eq)
  qed
qed simp

lemma set_cpufreq_limit:
  assumes "cpufreq_ok s" "cpufreq_cdev s = Some c" "qos_active c"
  shows "\<exists>f. vs_cpu_power_to_freq (em_table c) (max_level c) (wrap_u32 b div num_cpus c) = Some f \<and>
    set_cpufreq_thermal_power env b s = Some (0, s\<lparr>cpufreq_cdev := Some (c\<lparr>qos_max := Some f\<rparr>)\<rparr>)"
proof -
  have c: "max_level c < length (em_table c)" "0 < num_cpus c" using assms(1,2) by (simp_all add: cpufreq_ok_def)
  then show ?thesis using power_to_freq_some [OF c(1)] assms(2,3) by (fastforce simp: set_cpufreq_thermal_power_def)
qed

section \<open>Properties\<close>

text \<open>
  C10: The limit on the charging current is that of the strictest cooling device.  After any sequence of state changes
  of any of the cooling devices, either no charging device has changed its level and the limit is as it was, or the
  limit that the battery was given is the one of the smallest level among the charging devices: two zones that
  throttle charging never undo each other, because the driver sorts its list of devices by level after every change.
\<close>

theorem charge_limit_is_strictest:
  assumes "coolers_ok s" "charge_ids s" "\<forall>req \<in> set reqs. req_ok s req"
  shows "\<exists>s'. cool_run reqs s = Some s' \<and> coolers_ok s' \<and>
    (charge_limit s' = charge_limit s \<and> bcct_levels s' = bcct_levels s \<or>
     charge_limit s' = Some (bcct_limit (Min ((\<lambda>j. c_level (pdatas s' j)) ` set (sort_lists s' BcctOps)))))"
  using cool_run_ok [OF assms] by (auto simp: charge_step_def strictest_level_def)

definition ex_pd :: "int list \<Rightarrow> vs_cooler_platform_data" where
  "ex_pd ls = \<lparr>c_type = ''bcct'', c_state = 0, c_max_state = int (length ls), c_level = BCCT_CURRENT_MAX, c_cooler_id = 0,
     c_levels = ls @ replicate (12 - length ls) 0\<rparr>"

definition ex_cpufreq :: vs_cpufreq_cdev where
  "ex_cpufreq = \<lparr>max_level = 2, em_table = [(500000, 50), (1000000, 150), (2000000, 500)], num_cpus = 4, qos_active = True, qos_max = None\<rparr>"

definition ex_coolers :: vs_coolers where
  "ex_coolers = \<lparr>pdatas = (\<lambda>j. if j = 0 then ex_pd [150000, 100000] else ex_pd [120000]), cd_ops = (\<lambda>_. BcctOps),
     sort_lists = (\<lambda>ops. if ops = BcctOps then [0, 1] else []), bat_psy = False, wpc_psy = False, charge_limit = None,
     power_limit = None, wpc_limit = None, brightness = None, cpufreq_cdev = Some ex_cpufreq, thermal_budget = 4600,
     thermal_budget_cooler = 4600, thermal_budget_cpu = 4600\<rparr>"

definition ex_vs_env :: vs_env where
  "ex_vs_env = \<lparr>bat_found = True, wpc_found = False, set_property_ret = 0, brightness_ret = 0, policy_found = False, em_found = None,
     valid_entries = 0, cdev_alloc = True, qos_ret = 0, related_cpus = 4, chg_type = None\<rparr>"

lemma ex_coolers_ok: "coolers_ok ex_coolers" "charge_ids ex_coolers" "plain_cooler 0 ex_coolers" "plain_cooler 1 ex_coolers"
  by (simp_all add: coolers_ok_def ex_coolers_def cpufreq_ok_def ex_cpufreq_def pd_ok_def ex_pd_def level_ok_def charge_ids_def
      plain_cooler_def bound_cooler_def numeral_eq_Suc list_all_iff)

lemma ex_vs_env_ok: "env_ok ex_vs_env" "bat_found ex_vs_env" "set_property_ret ex_vs_env = 0"
  by (simp_all add: env_ok_def ex_vs_env_def)

theorem charge_limit_is_strictest_witness:
  "\<exists>s'. cool_run [(ex_vs_env, 0, 1), (ex_vs_env, 1, 1), (ex_vs_env, 0, 2)] ex_coolers = Some s' \<and> coolers_ok s' \<and>
    (charge_limit s' = charge_limit ex_coolers \<and> bcct_levels s' = bcct_levels ex_coolers \<or>
     charge_limit s' = Some (bcct_limit (Min ((\<lambda>j. c_level (pdatas s' j)) ` set (sort_lists s' BcctOps)))))"
  by (rule charge_limit_is_strictest) (use ex_coolers_ok ex_vs_env_ok in \<open>simp_all add: req_ok_def\<close>)

text \<open>
  C36: The CPU frequency that a power budget allows.  When the budget gives every CPU at least one unit, the limit on the
  frequency becomes that of the highest entry of the energy model's table whose power fits into a CPU's share, so that
  all CPUs together stay inside the budget; if no entry above the first fits, the limit is the lowest frequency.
\<close>

theorem cpu_frequency_fits_budget:
  assumes "cpufreq_ok s" "cpufreq_cdev s = Some c" "qos_active c" "num_cpus c \<le> b" "b < 4294967296"
  shows "\<exists>i \<le> max_level c. set_cpufreq_thermal_power env b s =
      Some (0, s\<lparr>cpufreq_cdev := Some (c\<lparr>qos_max := Some (fst (em_table c ! i))\<rparr>)\<rparr>) \<and>
    (i = 0 \<or> num_cpus c * snd (em_table c ! i) \<le> b) \<and>
    (\<forall>j. i < j \<and> j \<le> max_level c \<longrightarrow> b < num_cpus c * snd (em_table c ! j))"
proof -
  have c: "max_level c < length (em_table c)" "0 < num_cpus c" using assms(1,2) by (simp_all add: cpufreq_ok_def)
  define p where "p = wrap_u32 b div num_cpus c"
  have p: "p \<noteq> 0" "p = b div num_cpus c" using c(2) assms(4,5) by (auto simp: p_def pos_imp_zdiv_pos_iff div_pos_pos_trivial zdiv_eq_0_iff)
  obtain i where i: "freq_level (em_table c) (max_level c) p = Some i" "i \<le> max_level c"
    using freq_level_some [OF c(1)] by blast
  have g: "i = 0 \<or> snd (em_table c ! i) \<le> p" "\<forall>j. i < j \<and> j \<le> max_level c \<longrightarrow> p < snd (em_table c ! j)"
    using freq_level_greatest [OF c(1) i(1)] by blast+
  have le: "x \<le> p \<longleftrightarrow> num_cpus c * x \<le> b" for x
  proof -
    have "b = num_cpus c * p + b mod num_cpus c" "0 \<le> b mod num_cpus c" "b mod num_cpus c < num_cpus c" using c(2) by (simp_all add: p(2))
    moreover have "x \<le> p \<Longrightarrow> num_cpus c * x \<le> num_cpus c * p" "p + 1 \<le> x \<Longrightarrow> num_cpus c * p + num_cpus c \<le> num_cpus c * x"
      using c(2) mult_left_mono [of "p + 1" x "num_cpus c"] by (simp_all add: mult_left_mono distrib_left)
    ultimately show ?thesis by linarith
  qed
  have "vs_cpu_power_to_freq (em_table c) (max_level c) p = Some (fst (em_table c ! i))"
    using i c(1) p(1) arr_get_ok [of "int i" "em_table c"] by (simp add: vs_cpu_power_to_freq_def)
  then have "set_cpufreq_thermal_power env b s = Some (0, s\<lparr>cpufreq_cdev := Some (c\<lparr>qos_max := Some (fst (em_table c ! i))\<rparr>)\<rparr>)"
    using set_cpufreq_limit [OF assms(1-3), of b env] by (simp add: p_def)
  moreover have "i = 0 \<or> num_cpus c * snd (em_table c ! i) \<le> b" using g(1) le by blast
  moreover have "b < num_cpus c * snd (em_table c ! j)" if "i < j" "j \<le> max_level c" for j using g(2) le that by (metis not_le)
  ultimately show ?thesis using i(2) by blast
qed

theorem cpu_frequency_fits_budget_witness:
  "\<exists>i \<le> max_level ex_cpufreq. set_cpufreq_thermal_power ex_vs_env 700 ex_coolers =
      Some (0, ex_coolers\<lparr>cpufreq_cdev := Some (ex_cpufreq\<lparr>qos_max := Some (fst (em_table ex_cpufreq ! i))\<rparr>)\<rparr>) \<and>
    (i = 0 \<or> num_cpus ex_cpufreq * snd (em_table ex_cpufreq ! i) \<le> 700) \<and>
    (\<forall>j. i < j \<and> j \<le> max_level ex_cpufreq \<longrightarrow> 700 < num_cpus ex_cpufreq * snd (em_table ex_cpufreq ! j))"
  by (rule cpu_frequency_fits_budget) (use ex_coolers_ok in \<open>simp_all add: ex_coolers_def ex_cpufreq_def coolers_ok_def\<close>)

text \<open>
  The strictest budgets lift the limit.  A budget that is smaller than the number of CPUs, which is the deepest
  throttling that can be asked for, is rounded to a share of 0 for each CPU, and 0 is the code for no limit: the
  frequency limit becomes the highest frequency of the table.
\<close>

theorem tiny_budget_lifts_limit:
  assumes "cpufreq_ok s" "cpufreq_cdev s = Some c" "qos_active c" "0 < b" "b < num_cpus c" "b < 4294967296"
  shows "set_cpufreq_thermal_power env b s =
    Some (0, s\<lparr>cpufreq_cdev := Some (c\<lparr>qos_max := Some (fst (em_table c ! max_level c))\<rparr>)\<rparr>)"
proof -
  have "wrap_u32 b div num_cpus c = 0" using assms(4-6) by simp
  moreover have "arr_get (em_table c) (int (max_level c)) = Some (em_table c ! max_level c)"
    using assms(1,2) arr_get_ok [of "int (max_level c)" "em_table c"] by (simp add: cpufreq_ok_def)
  ultimately show ?thesis using set_cpufreq_limit [OF assms(1-3), of b env] by (simp add: vs_cpu_power_to_freq_def)
qed

theorem tiny_budget_lifts_limit_witness:
  "set_cpufreq_thermal_power ex_vs_env 3 ex_coolers = Some (0, ex_coolers\<lparr>cpufreq_cdev := Some (ex_cpufreq\<lparr>qos_max := Some 2000000\<rparr>)\<rparr>)"
  using tiny_budget_lifts_limit [of ex_coolers ex_cpufreq 3 ex_vs_env] ex_coolers_ok
  by (simp add: ex_coolers_def ex_cpufreq_def coolers_ok_def)

end
