(* ===== verification/Vs_Zone.thy ===== *)
theory Vs_Zone
  imports Vs_Cooler Thermal_Core
begin

text \<open>
  The virtual sensor thermal zones, \<^verbatim>\<open>virtual_sensor_tablet_thermal.c\<close>, with the temperature sensors behind them
  (\<^verbatim>\<open>virtual_sensor_thermal_sensor.c\<close> and the sensor part of \<^verbatim>\<open>virtual_sensor_interface.c\<close>): the weighted and
  smoothed temperature of a zone, the rate of rise that detects foreign objects on the wireless charger, the trip
  points and the attributes.  The handlers that start an update of the zone are in \<open>Vs_Update\<close>.
\<close>

section \<open>Sensors\<close>

abbreviation (input) OFFLINE_TEMP :: int where "OFFLINE_TEMP \<equiv> 25000"
abbreviation (input) DMF :: int where "DMF \<equiv> 1000"

record thermal_dev =
  td_name :: string
  td_offset :: int
  td_alpha :: int
  td_weight :: int
  td_select :: int
  td_sensor_id :: int
  td_aux :: int
  td_off_temp :: int
  td_first :: bool

text \<open>
  What the drivers behind the sensors answer: a power supply that is missing (\<open>None\<close>), an error, or a value.
\<close>

record sensor_env =
  bat_temp :: "(int + int) option"
  wpc_temp :: "(int + int) option"
  chg_temp :: "(int + int) option"
  pmic_temp :: "int \<Rightarrow> int"
  gadc_temp :: "string \<Rightarrow> int"

definition psy_temp :: "int \<Rightarrow> (int + int) option \<Rightarrow> int" where
  "psy_temp factor psy =
     (case psy of
        None \<Rightarrow> OFFLINE_TEMP
      | Some (Inl ret) \<Rightarrow> OFFLINE_TEMP
      | Some (Inr v) \<Rightarrow> s32 (v * factor))"

definition vs_wpc_read_temp :: "sensor_env \<Rightarrow> int" where
  "vs_wpc_read_temp env = psy_temp 1000 (wpc_temp env)"

definition get_battery_temp :: "sensor_env \<Rightarrow> int" where
  "get_battery_temp env = psy_temp 100 (bat_temp env)"

definition get_charger_temp :: "sensor_env \<Rightarrow> int" where
  "get_charger_temp env = psy_temp 100 (chg_temp env)"

definition ntc_name :: "string list" where
  "ntc_name = [''charge'', ''pmic'', ''mux_sd'', ''mux_9221'', ''ap_ntc'', ''usb_ntc'']"

definition vs_thermal_sensor_get_temp :: "sensor_env \<Rightarrow> int \<Rightarrow> int \<Rightarrow> int option" where
  "vs_thermal_sensor_get_temp env sid index =
     (if sid = 3 then Some (pmic_temp env index)
      else if sid = 1 then Some (get_battery_temp env)
      else if sid = 5 then map_option (gadc_temp env) (arr_get ntc_name index)
      else if sid = 6 then Some (vs_wpc_read_temp env)
      else if sid = 7 then Some (get_charger_temp env)
      else Some OFFLINE_TEMP)"

definition virtual_sensor_thermal_sensor_read_temp :: "sensor_env \<Rightarrow> thermal_dev \<Rightarrow> int option" where
  "virtual_sensor_thermal_sensor_read_temp env tdev = vs_thermal_sensor_get_temp env (td_sensor_id tdev) (td_aux tdev)"

text \<open>The attributes of a sensor; \<open>scan\<close> is the word and the number \<^verbatim>\<open>sscanf\<close> found.\<close>

definition sensor_show_temp :: "sensor_env \<Rightarrow> thermal_dev \<Rightarrow> string option" where
  "sensor_show_temp env tdev =
     map_option (\<lambda>t. print_d t @ [NL]) (vs_thermal_sensor_get_temp env (td_sensor_id tdev) (td_aux tdev))"

definition sensor_show_params :: "thermal_dev \<Rightarrow> string" where
  "sensor_show_params tdev =
     ''offset='' @ print_d (td_offset tdev) @ '' alpha='' @ print_d (td_alpha tdev) @ '' weight='' @ print_d (td_weight tdev) @ [NL]"

definition sensor_store_params :: "(string \<times> int) option \<Rightarrow> nat \<Rightarrow> thermal_dev \<Rightarrow> int \<times> thermal_dev" where
  "sensor_store_params scan len tdev =
     (case scan of
        None \<Rightarrow> (- EINVAL, tdev)
      | Some (param, v) \<Rightarrow>
          let tdev = (if param = ''offset'' then tdev\<lparr>td_offset := v\<rparr> else tdev);
              tdev = (if param = ''alpha'' then tdev\<lparr>td_alpha := v\<rparr> else tdev);
              tdev = (if param = ''weight'' then tdev\<lparr>td_weight := v\<rparr> else tdev)
          in (int len, tdev))"

text \<open>The parameters of a sensor in the device tree.\<close>

record sensor_dt =
  dt_offset :: "int option"
  dt_offset_invert :: "int option"
  dt_alpha :: "int option"
  dt_weight :: "int option"
  dt_weight_invert :: "int option"
  dt_select :: "int option"
  dt_sensor_id :: "int option"
  dt_aux :: "int option"

definition thermal_sensor_dt_to_params :: "sensor_dt \<Rightarrow> thermal_dev \<Rightarrow> thermal_dev" where
  "thermal_sensor_dt_to_params np p =
     (let p = p\<lparr>td_offset := thermal_parse_node_int (dt_offset np) (td_offset p)\<rparr>;
          p = p\<lparr>td_alpha := thermal_parse_node_int (dt_alpha np) (td_alpha p)\<rparr>;
          p = p\<lparr>td_weight := thermal_parse_node_int (dt_weight np) (td_weight p)\<rparr>;
          p = p\<lparr>td_select := thermal_parse_node_int (dt_select np) (td_select p)\<rparr>;
          p = p\<lparr>td_sensor_id := thermal_parse_node_int (dt_sensor_id np) (td_sensor_id p)\<rparr>;
          offset_invert = thermal_parse_node_int (dt_offset_invert np) 0;
          p = (if offset_invert \<noteq> 0 then p\<lparr>td_offset := s32 (0 - td_offset p)\<rparr> else p);
          weight_invert = thermal_parse_node_int (dt_weight_invert np) 0;
          p = (if weight_invert \<noteq> 0 then p\<lparr>td_weight := s32 (0 - td_weight p)\<rparr> else p)
      in p\<lparr>td_aux := thermal_parse_node_int (dt_aux np) (td_aux p)\<rparr>)"

section \<open>The rate of rise on the wireless charger\<close>

text \<open>
  The ring of temperatures: its first element is the node inside \<^verbatim>\<open>struct fod_algo\<close>, the others are the allocated
  nodes, and \<open>fod_cur\<close> is the node that \<^verbatim>\<open>cur_list\<close> points to.
\<close>

record fod_algo =
  work_delay :: int
  window_size :: int
  polling_interval :: int
  wpc_online_status :: int
  fod_temp_cnt :: int
  fod_ring :: "int list"
  fod_cur :: nat
  timer_start :: "int \<times> int"
  fod_locked :: bool

definition fod_next :: "fod_algo \<Rightarrow> fod_algo" where
  "fod_next f = f\<lparr>fod_cur := (fod_cur f + 1) mod length (fod_ring f)\<rparr>"

definition calculate_raising_rate :: "int \<times> int \<Rightarrow> int \<Rightarrow> int \<Rightarrow> fod_algo \<Rightarrow> (int \<times> fod_algo) option" where
  "calculate_raising_rate now data delay f =
     (if delay = 0 then Some (0, f)
      else if fod_temp_cnt f = 0 \<and> (fst (timer_start f) = 0 \<or> snd (timer_start f) = 0) then Some (0, f\<lparr>timer_start := now\<rparr>)
      else if fod_temp_cnt f = 0 \<and> wrap_u32 (s32 (fst now - fst (timer_start f))) < work_delay f then Some (0, f)
      else do {
        ring \<leftarrow> arr_set (fod_ring f) (int (fod_cur f)) data;
        let f = fod_next (f\<lparr>fod_ring := ring\<rparr>);
        if fod_temp_cnt f \<le> wrap_u32 (window_size f - 1)
        then Some (0, f\<lparr>fod_temp_cnt := wrap_u32 (fod_temp_cnt f + 1)\<rparr>)
        else do {
          temp_first \<leftarrow> arr_get (fod_ring f) (int (fod_cur f));
          let period = s32 (wrap_u32 (delay * (window_size f - 1)) div DMF);
          if period = 0 then None
          else Some (s32 (s32 ((data - temp_first) * 60) sdiv period), f)
        }
      })"


section \<open>Zones\<close>

datatype thermal_trip_type = THERMAL_TRIP_ACTIVE | THERMAL_TRIP_PASSIVE | THERMAL_TRIP_HOT | THERMAL_TRIP_CRITICAL

record trip_t =
  tr_temp :: int
  tr_type :: thermal_trip_type
  tr_hyst :: int

datatype thermal_device_mode = THERMAL_DEVICE_DISABLED | THERMAL_DEVICE_ENABLED

record vs_thermal_platform_data =
  num_trips :: int
  mode :: thermal_device_mode
  pd_polling_delay :: int
  ts_list :: "thermal_dev list"
  trips :: "trip_t list"
  num_cdevs :: int
  cdev_names :: "string list"

text \<open>
  A thermal zone with its \<^verbatim>\<open>devdata\<close>.  \<open>z_poll\<close> is the delay of the queued poll, \<open>z_work\<close> whether \<^verbatim>\<open>therm_work\<close> is
  scheduled, \<open>z_disabled\<close> the bits of the disabled trips, and \<open>z_tbps\<close> the types of the devices bound through the bind parameters so far.
\<close>

record vs_zone =
  z_id :: nat
  z_type :: string
  z_trips :: int
  z_disabled :: int
  z_temperature :: int
  z_last_temperature :: int
  z_polling_delay :: int
  z_poll :: "int option"
  z_work :: bool
  z_query_count :: int
  z_mask :: int
  z_tbps :: "string option list"
  z_pdata :: vs_thermal_platform_data

definition is_fod_zone :: "vs_zone \<Rightarrow> bool" where
  "is_fod_zone z \<longleftrightarrow> take 15 (z_type z) = ''virtual_sensor4''"

text \<open>Whether a device belongs to the zone.\<close>

definition match :: "vs_zone \<Rightarrow> string \<Rightarrow> int" where
  "match z cdev_type =
     (if take 14 (z_type z) \<noteq> ''virtual_sensor'' then - EINVAL
      else if Some cdev_type \<in> set (z_tbps z) then - EEXIST
      else if list_ex (\<lambda>name. take (length cdev_type) name = cdev_type) (take (nat (num_cdevs (z_pdata z))) (cdev_names (z_pdata z))) then 0
      else - EINVAL)"

definition virtual_sensor_thermal_get_trip_type :: "vs_zone \<Rightarrow> int \<Rightarrow> thermal_trip_type option" where
  "virtual_sensor_thermal_get_trip_type z trip = map_option tr_type (arr_get (trips (z_pdata z)) trip)"

text \<open>Temperatures and hystereses are \<^verbatim>\<open>unsigned long\<close> in the table and \<^verbatim>\<open>int\<close> at the interface.\<close>

definition virtual_sensor_thermal_get_trip_temp :: "vs_zone \<Rightarrow> int \<Rightarrow> int option" where
  "virtual_sensor_thermal_get_trip_temp z trip = map_option (\<lambda>t. s32 (tr_temp t)) (arr_get (trips (z_pdata z)) trip)"

definition set_trip :: "(trip_t \<Rightarrow> trip_t) \<Rightarrow> int \<Rightarrow> vs_zone \<Rightarrow> vs_zone option" where
  "set_trip upd trip z = do {
     t \<leftarrow> arr_get (trips (z_pdata z)) trip;
     ts \<leftarrow> arr_set (trips (z_pdata z)) trip (upd t);
     Some (z\<lparr>z_pdata := (z_pdata z)\<lparr>trips := ts\<rparr>\<rparr>)
   }"

definition virtual_sensor_thermal_set_trip_temp :: "int \<Rightarrow> int \<Rightarrow> vs_zone \<Rightarrow> vs_zone option" where
  "virtual_sensor_thermal_set_trip_temp trip temp = set_trip (tr_temp_update (\<lambda>_. u64 temp)) trip"

fun find_critical :: "trip_t list \<Rightarrow> int option" where
  "find_critical [] = None"
| "find_critical (t # ts) = (if tr_type t = THERMAL_TRIP_CRITICAL then Some (s32 (tr_temp t)) else find_critical ts)"

definition virtual_sensor_thermal_get_crit_temp :: "vs_zone \<Rightarrow> int + int" where
  "virtual_sensor_thermal_get_crit_temp z =
     (case find_critical (trips (z_pdata z)) of None \<Rightarrow> Inl (- EINVAL) | Some t \<Rightarrow> Inr t)"

definition virtual_sensor_thermal_get_trip_hyst :: "vs_zone \<Rightarrow> int \<Rightarrow> int option" where
  "virtual_sensor_thermal_get_trip_hyst z trip = map_option (\<lambda>t. s32 (tr_hyst t)) (arr_get (trips (z_pdata z)) trip)"

definition virtual_sensor_thermal_set_trip_hyst :: "int \<Rightarrow> int \<Rightarrow> vs_zone \<Rightarrow> vs_zone option" where
  "virtual_sensor_thermal_set_trip_hyst trip hyst = set_trip (tr_hyst_update (\<lambda>_. u64 hyst)) trip"

definition virtual_sensor_thermal_get_mode :: "vs_zone \<Rightarrow> thermal_device_mode" where
  "virtual_sensor_thermal_get_mode z = mode (z_pdata z)"

section \<open>The temperature of a zone\<close>

definition smooth :: "int \<Rightarrow> int \<Rightarrow> int \<Rightarrow> int" where
  "smooth alpha input off = s64 (s64 (alpha * input + (DMF - alpha) * off) sdiv DMF)"

text \<open>
  One sensor: reading, the rate of rise instead of the temperature where foreign objects are looked for, and the
  moving average.  The rate is computed under a mutex, which is never obtained when it has been left locked.
\<close>

definition sensor_step :: "bool \<Rightarrow> int \<times> int \<Rightarrow> int \<Rightarrow> sensor_env \<Rightarrow> thermal_dev \<Rightarrow> fod_algo \<Rightarrow> (thermal_dev \<times> fod_algo) option" where
  "sensor_step fod now delay env tdev f = do {
     temp \<leftarrow> virtual_sensor_thermal_sensor_read_temp env tdev;
     (temp, f) \<leftarrow> (if fod \<and> td_weight tdev \<noteq> 0
       then if fod_locked f then None else calculate_raising_rate now temp delay f
       else Some (temp, f));
     let input = temp - td_offset tdev;
     let off = (if \<not> td_first tdev then (if fod \<and> td_weight tdev \<noteq> 0 then 0 else input)
                else smooth (td_alpha tdev) input (td_off_temp tdev));
     Some (tdev\<lparr>td_off_temp := off, td_first := True\<rparr>, f)
   }"

definition sensor_share :: "thermal_dev \<Rightarrow> int" where
  "sensor_share tdev = s64 (td_weight tdev * td_off_temp tdev) sdiv DMF"

fun sensors_step :: "bool \<Rightarrow> int \<times> int \<Rightarrow> int \<Rightarrow> sensor_env \<Rightarrow> thermal_dev list \<Rightarrow> fod_algo \<Rightarrow> int \<Rightarrow> (int \<times> thermal_dev list \<times> fod_algo) option" where
  "sensors_step fod now delay env [] f tempv = Some (tempv, [], f)"
| "sensors_step fod now delay env (tdev # ts) f tempv = do {
     (tdev, f) \<leftarrow> sensor_step fod now delay env tdev f;
     (tempv, ts, f) \<leftarrow> sensors_step fod now delay env ts f (s64 (tempv + sensor_share tdev));
     Some (tempv, tdev # ts, f)
   }"

text \<open>
  \<open>caller_ok\<close>: the calling thread is a kernel worker or \<^verbatim>\<open>cat\<close>.  The logging interval depends on whether the
  temperature is above the first trip, compared as \<^verbatim>\<open>unsigned long\<close>.
\<close>

record zone_env =
  sensors :: sensor_env
  time_now :: "int \<times> int"
  caller_ok :: bool

definition virtual_sensor_thermal_get_temp :: "zone_env \<Rightarrow> vs_zone \<Rightarrow> fod_algo \<Rightarrow> ((int + int) \<times> vs_zone \<times> fod_algo) option" where
  "virtual_sensor_thermal_get_temp env z f =
     (if is_fod_zone z \<and> \<not> caller_ok env then Some (Inl (- EINVAL), z, f)
      else do {
        (tempv, ts, f) \<leftarrow> sensors_step (is_fod_zone z) (time_now env) (z_polling_delay z) (sensors env) (ts_list (z_pdata z)) f 0;
        t0 \<leftarrow> arr_get (trips (z_pdata z)) 0;
        Some (Inr (s32 tempv),
          z\<lparr>z_query_count := s32 (z_query_count z + 1), z_mask := (if u64 tempv > tr_temp t0 then 0x3F else 0x3FF),
            z_pdata := (z_pdata z)\<lparr>ts_list := ts\<rparr>\<rparr>, f)
      })"


section \<open>The average stays between its inputs\<close>

lemma smooth_between:
  assumes "0 \<le> alpha" "alpha \<le> DMF" "lo \<le> input" "input \<le> hi" "lo \<le> off" "off \<le> hi"
    and "- 1000000000000 \<le> lo" "hi \<le> 1000000000000"
  shows "lo \<le> smooth alpha input off \<and> smooth alpha input off \<le> hi"
proof -
  define v where "v = alpha * input + (DMF - alpha) * off"
  have "alpha * lo \<le> alpha * input" "alpha * input \<le> alpha * hi"
    "(DMF - alpha) * lo \<le> (DMF - alpha) * off" "(DMF - alpha) * off \<le> (DMF - alpha) * hi"
    using assms by (auto intro: mult_left_mono)
  moreover have "alpha * x + (DMF - alpha) * x = x * DMF" for x by (simp add: algebra_simps)
  ultimately have v: "lo * DMF \<le> v" "v \<le> hi * DMF" unfolding v_def by (smt (verit))+
  then have s: "s64 v = v" using assms(7,8) by (intro s64_id) auto
  have "lo \<le> v sdiv DMF \<and> v sdiv DMF \<le> hi" using v by (intro sdiv_between) auto
  then show ?thesis using assms(7,8) s by (simp add: smooth_def v_def [symmetric])
qed

definition tparams :: "thermal_dev \<Rightarrow> thermal_dev" where
  "tparams t = t\<lparr>td_off_temp := 0, td_first := False\<rparr>"

definition input_ok :: "int \<Rightarrow> int \<Rightarrow> sensor_env \<Rightarrow> thermal_dev \<Rightarrow> bool" where
  "input_ok lo hi env t \<longleftrightarrow> (case virtual_sensor_thermal_sensor_read_temp env t of
     None \<Rightarrow> False | Some temp \<Rightarrow> lo \<le> temp - td_offset t \<and> temp - td_offset t \<le> hi)"

text \<open>Sensible parameters, and an average that is inside the bounds once there is one.\<close>

definition sensor_ok :: "int \<Rightarrow> int \<Rightarrow> thermal_dev \<Rightarrow> bool" where
  "sensor_ok lo hi t \<longleftrightarrow> 0 \<le> td_alpha t \<and> td_alpha t \<le> DMF \<and> 0 \<le> td_weight t \<and> td_weight t \<le> DMF \<and>
     (\<not> td_first t \<or> (lo \<le> td_off_temp t \<and> td_off_temp t \<le> hi))"

lemma tparams_fields:
  "td_sensor_id (tparams t) = td_sensor_id t" "td_aux (tparams t) = td_aux t" "td_offset (tparams t) = td_offset t"
  "td_weight (tparams t) = td_weight t" "td_alpha (tparams t) = td_alpha t"
  by (simp_all add: tparams_def)

lemma tparams_eq:
  assumes "tparams t' = tparams t"
  shows "input_ok lo hi env t' = input_ok lo hi env t" "td_weight t' = td_weight t" "td_alpha t' = td_alpha t"
proof -
  have f: "td_sensor_id t' = td_sensor_id t" "td_aux t' = td_aux t" "td_offset t' = td_offset t"
    using tparams_fields [of t] tparams_fields [of t'] assms by simp_all
  show "td_weight t' = td_weight t" "td_alpha t' = td_alpha t"
    using tparams_fields [of t] tparams_fields [of t'] assms by simp_all
  show "input_ok lo hi env t' = input_ok lo hi env t"
    unfolding input_ok_def virtual_sensor_thermal_sensor_read_temp_def f by (rule refl)
qed

lemma sensor_step_ok:
  assumes "input_ok lo hi env t" "sensor_ok lo hi t" "- 1000000000000 \<le> lo" "hi \<le> 1000000000000"
  shows "\<exists>t'. sensor_step False now delay env t f = Some (t', f) \<and> sensor_ok lo hi t' \<and> td_first t' \<and> tparams t' = tparams t"
proof -
  obtain temp where t: "virtual_sensor_thermal_sensor_read_temp env t = Some temp" "lo \<le> temp - td_offset t" "temp - td_offset t \<le> hi"
    using assms(1) by (auto simp: input_ok_def split: option.splits)
  show ?thesis
    using t smooth_between [of "td_alpha t" lo "temp - td_offset t" hi "td_off_temp t"] assms(2-4)
    by (auto simp: sensor_step_def sensor_ok_def tparams_def Let_def)
qed

lemma sensor_share_bounds:
  assumes "sensor_ok lo hi t" "td_first t" "0 \<le> lo" "hi < 2147483648"
  shows "0 \<le> sensor_share t" "1000 * sensor_share t \<le> td_weight t * hi" "td_weight t * lo - 999 \<le> 1000 * sensor_share t"
proof -
  define x where "x = td_weight t * td_off_temp t"
  have x: "td_weight t * lo \<le> x" "x \<le> td_weight t * hi" "0 \<le> x" "x \<le> 1000 * hi"
    using assms unfolding x_def by (auto simp: sensor_ok_def intro: mult_left_mono mult_mono)
  then have "sensor_share t = x div 1000" using assms(4) by (simp add: sensor_share_def x_def [symmetric] sdiv_pos)
  then show "0 \<le> sensor_share t" "1000 * sensor_share t \<le> td_weight t * hi" "td_weight t * lo - 999 \<le> 1000 * sensor_share t"
    using x by linarith+
qed

lemma sensors_step_ok:
  fixes ts :: "thermal_dev list"
  assumes "list_all (input_ok lo hi env) ts" "list_all (sensor_ok lo hi) ts" "0 \<le> lo" "hi < 2147483648" "0 \<le> acc"
    and "1000 * acc + sum_list (map td_weight ts) * hi \<le> 1000 * hi"
  shows "\<exists>tempv ts'. sensors_step False now delay env ts f acc = Some (tempv, ts', f) \<and> list_all (sensor_ok lo hi) ts' \<and>
    map tparams ts' = map tparams ts \<and> 0 \<le> tempv \<and> 1000 * tempv \<le> 1000 * acc + sum_list (map td_weight ts) * hi \<and>
    1000 * acc + sum_list (map td_weight ts) * lo - 999 * int (length ts) \<le> 1000 * tempv"
  using assms
proof (induction ts arbitrary: acc)
  case (Cons t ts)
  obtain t' where t': "sensor_step False now delay env t f = Some (t', f)" "sensor_ok lo hi t'" "td_first t'" "tparams t' = tparams t"
    using sensor_step_ok [of lo hi env t now delay f] Cons.prems by auto
  have w: "td_weight t' = td_weight t" using tparams_eq(2) [OF t'(4)] .
  note sh = sensor_share_bounds [OF t'(2,3) Cons.prems(3,4), unfolded w]
  have nn: "0 \<le> sum_list (map td_weight ts) * hi"
    using Cons.prems(2-4) t'(2,3) by (intro mult_nonneg_nonneg sum_list_nonneg) (auto simp: sensor_ok_def list_all_iff)
  have total: "1000 * (acc + sensor_share t') + sum_list (map td_weight ts) * hi \<le> 1000 * hi"
    using Cons.prems(6) sh(2) by (simp add: distrib_right)
  then have s: "s64 (acc + sensor_share t') = acc + sensor_share t'"
    using nn Cons.prems(4,5) sh(1) by (intro s64_id) auto
  obtain tempv ts' where r: "sensors_step False now delay env ts f (acc + sensor_share t') = Some (tempv, ts', f)"
    "list_all (sensor_ok lo hi) ts'" "map tparams ts' = map tparams ts" "0 \<le> tempv"
    "1000 * tempv \<le> 1000 * (acc + sensor_share t') + sum_list (map td_weight ts) * hi"
    "1000 * (acc + sensor_share t') + sum_list (map td_weight ts) * lo - 999 * int (length ts) \<le> 1000 * tempv"
    using Cons.IH [of "acc + sensor_share t'"] Cons.prems total sh(1) by auto
  show ?case
    using t' r s sh by (simp add: distrib_right)
qed simp


section \<open>The window of samples\<close>

text \<open>A run of samples, one per poll; the rates that were returned.\<close>

fun fod_run :: "int \<Rightarrow> ((int \<times> int) \<times> int) list \<Rightarrow> fod_algo \<Rightarrow> (int list \<times> fod_algo) option" where
  "fod_run delay [] f = Some ([], f)"
| "fod_run delay ((now, data) # xs) f = do {
     (r, f) \<leftarrow> calculate_raising_rate now data delay f;
     (rs, f) \<leftarrow> fod_run delay xs f;
     Some (r # rs, f)
   }"

text \<open>The reference: over a window of \<open>w\<close> samples, the rise from the oldest to the newest in degrees per minute.\<close>

definition rate_spec :: "int \<Rightarrow> nat \<Rightarrow> int list \<Rightarrow> nat \<Rightarrow> int" where
  "rate_spec delay w xs i =
     (if i < w then 0 else (xs ! i - xs ! (i + 1 - w)) * 60 sdiv (delay * (int w - 1) div DMF))"

definition window_inv :: "nat \<Rightarrow> nat \<Rightarrow> int list \<Rightarrow> fod_algo \<Rightarrow> bool" where
  "window_inv w c0 ys f \<longleftrightarrow>
     window_size f = int w \<and> length (fod_ring f) = w \<and> work_delay f = 0 \<and> fst (timer_start f) \<noteq> 0 \<and> snd (timer_start f) \<noteq> 0 \<and>
     fod_temp_cnt f = int (min (length ys) w) \<and> fod_cur f = (c0 + length ys) mod w \<and>
     (\<forall>j. length ys - min (length ys) w \<le> j \<longrightarrow> j < length ys \<longrightarrow> fod_ring f ! ((c0 + j) mod w) = ys ! j)"

lemma mod_neq_window: "a < b \<Longrightarrow> b - a < w \<Longrightarrow> a mod w \<noteq> b mod (w::nat)"
proof
  assume a: "a < b" "b - a < w" "a mod w = b mod w"
  then have "w dvd b - a" using mod_eq_dvd_iff_nat [of a b w] by simp
  then show False using a nat_dvd_not_less [of "b - a" w] by simp
qed

lemma rate_step:
  assumes "window_inv w c0 ys f" "2 \<le> w" "w < 2147483648" "0 < delay" "delay * (int w - 1) < 2147483648"
    and "1000 \<le> delay * (int w - 1)" "\<forall>y \<in> set (x # ys). \<bar>y\<bar> \<le> 10000000"
  shows "\<exists>f'. calculate_raising_rate now x delay f = Some (rate_spec delay w (ys @ [x]) (length ys), f') \<and>
    window_inv w c0 (ys @ [x]) f'"
proof -
  let ?n = "length ys" let ?c = "(c0 + length ys) mod w"
  have f: "window_size f = int w" "length (fod_ring f) = w" "fod_temp_cnt f = int (min ?n w)" "fod_cur f = ?c"
    using assms(1) by (simp_all add: window_inv_def)
  have cw: "?c < w" using assms(2) by simp
  define ring where "ring = (fod_ring f)[?c := x]"
  define f1 where "f1 = f\<lparr>fod_ring := ring, fod_cur := (?c + 1) mod w\<rparr>"
  have set: "arr_set (fod_ring f) (int ?c) x = Some ring" using cw f(2) by (simp add: ring_def)
  have nth: "ring ! ((c0 + j) mod w) = (ys @ [x]) ! j" if "?n + 1 - min (?n + 1) w \<le> j" "j < ?n + 1" for j
  proof (cases "j = ?n")
    case True
    then show ?thesis using cw f(2) by (simp add: ring_def)
  next
    case False
    then have j: "j < ?n" "?n - min ?n w \<le> j" "?n - j < w" using that by auto
    have "(c0 + j) mod w \<noteq> ?c" using mod_neq_window [of "c0 + j" "c0 + ?n" w] j by simp
    then show ?thesis using assms(1) j by (simp add: ring_def window_inv_def nth_append)
  qed
  have nxt: "fod_next (f\<lparr>fod_ring := ring\<rparr>) = f1"
    using f by (simp add: fod_next_def f1_def ring_def)
  have cur: "(?c + 1) mod w = (c0 + (?n + 1)) mod w" by (simp add: mod_Suc_eq)
  have wu: "wrap_u32 (window_size f - 1) = int w - 1" using f(1) assms(2,3) by simp
  have f1: "fod_ring f1 = ring" "fod_cur f1 = (?c + 1) mod w" "window_size f1 = window_size f" "fod_temp_cnt f1 = fod_temp_cnt f"
    by (simp_all add: f1_def)
  have g: "fst (timer_start f) \<noteq> 0" "snd (timer_start f) \<noteq> 0" "work_delay f = 0" "\<not> wrap_u32 a < 0" for a
    using assms(1) by (simp_all add: window_inv_def wrap_u32_def)
  have gt: "arr_get ring (int ((?c + 1) mod w)) = Some (ring ! ((?c + 1) mod w))"
    using f(2) assms(2) by (simp add: ring_def)
  have run: "calculate_raising_rate now x delay f =
      (if fod_temp_cnt f \<le> wrap_u32 (window_size f - 1) then Some (0, f1\<lparr>fod_temp_cnt := wrap_u32 (int (min ?n w) + 1)\<rparr>)
       else let period = s32 (wrap_u32 (delay * (int w - 1)) div DMF)
            in if period = 0 then None else Some (s32 (s32 ((x - ring ! ((?c + 1) mod w)) * 60) sdiv period), f1))"
    unfolding calculate_raising_rate_def using assms(4) set wu f g f1 gt by (simp add: Let_def nxt)
  show ?thesis
  proof (cases "?n < w")
    case True
    then have "calculate_raising_rate now x delay f = Some (0, f1\<lparr>fod_temp_cnt := int (?n + 1)\<rparr>)"
      using run assms(3) wu f(3) by simp
    moreover have "window_inv w c0 (ys @ [x]) (f1\<lparr>fod_temp_cnt := int (?n + 1)\<rparr>)"
      using assms(1) True nth cur by (auto simp: window_inv_def f1_def ring_def)
    ultimately show ?thesis using True by (simp add: rate_spec_def)
  next
    case False
    have e: "(c0 + (?n + 1)) mod w = (c0 + (?n + 1 - w)) mod w" using False mod_add_self2 [of "c0 + (?n + 1 - w)" w] by simp
    have first: "ring ! ((?c + 1) mod w) = ys ! (?n + 1 - w)"
    proof -
      have lt: "?n + 1 - w < ?n" using False assms(2) by linarith
      then show ?thesis using nth [of "?n + 1 - w"] unfolding cur e by (simp add: nth_append)
    qed
    have p: "s32 (wrap_u32 (delay * (int w - 1)) div DMF) = delay * (int w - 1) div DMF" "0 < delay * (int w - 1) div DMF"
      using assms(4-6) by simp_all
    have "\<bar>x\<bar> \<le> 10000000" "\<bar>ys ! (?n + 1 - w)\<bar> \<le> 10000000" using assms(2,7) False by auto
    then have d: "- 2147483648 < (x - ys ! (?n + 1 - w)) * 60" "(x - ys ! (?n + 1 - w)) * 60 < 2147483648" by auto
    define v where "v = (x - ys ! (?n + 1 - w)) * 60"
    have "- 2147483647 \<le> v sdiv (delay * (int w - 1) div DMF) \<and> v sdiv (delay * (int w - 1) div DMF) \<le> 2147483647"
      using d p(2) unfolding v_def [symmetric] by (intro sdiv_between) (auto intro: order_trans)
    then have q: "s32 (s32 v sdiv (delay * (int w - 1) div DMF)) = v sdiv (delay * (int w - 1) div DMF)"
      using d unfolding v_def [symmetric] by simp
    have "calculate_raising_rate now x delay f = Some (v sdiv (delay * (int w - 1) div DMF), f1)"
      using run False first p q wu f(3) by (simp add: v_def Let_def)
    moreover have "window_inv w c0 (ys @ [x]) f1"
      using assms(1) False nth cur by (auto simp: window_inv_def f1_def ring_def)
    ultimately show ?thesis using False assms(2) by (simp add: rate_spec_def nth_append v_def)
  qed
qed


lemma fod_run_spec:
  assumes "window_inv w c0 ys f" "2 \<le> w" "w < 2147483648" "0 < delay" "delay * (int w - 1) < 2147483648"
    and "1000 \<le> delay * (int w - 1)" "\<forall>y \<in> set (ys @ map snd xs). \<bar>y\<bar> \<le> 10000000"
  shows "\<exists>f'. fod_run delay xs f =
      Some (map (rate_spec delay w (ys @ map snd xs)) [length ys..<length ys + length xs], f') \<and>
    window_inv w c0 (ys @ map snd xs) f'"
  using assms(1,7)
proof (induction xs arbitrary: ys f)
  case (Cons p xs)
  obtain now x where p: "p = (now, x)" by fastforce
  obtain f1 where f1: "calculate_raising_rate now x delay f = Some (rate_spec delay w (ys @ [x]) (length ys), f1)"
    "window_inv w c0 (ys @ [x]) f1"
    using rate_step [OF Cons.prems(1) assms(2-6), of x now] Cons.prems(2) by (auto simp: p)
  obtain f2 where f2: "fod_run delay xs f1 =
      Some (map (rate_spec delay w ((ys @ [x]) @ map snd xs)) [length (ys @ [x])..<length (ys @ [x]) + length xs], f2)"
    "window_inv w c0 ((ys @ [x]) @ map snd xs) f2" using Cons.IH [OF f1(2)] Cons.prems(2) by (auto simp: p)
  have "rate_spec delay w (ys @ [x]) (length ys) = rate_spec delay w (ys @ x # map snd xs) (length ys)"
    using assms(2) by (auto simp: rate_spec_def nth_append)
  moreover have "[length ys..<length ys + length (p # xs)] = length ys # [Suc (length ys)..<Suc (length ys + length xs)]"
    by (simp add: upt_rec [of "length ys"] del: upt_Suc)
  ultimately show ?case using f1(1) f2 by (simp add: p del: upt_Suc)
qed simp

section \<open>Readings of a zone\<close>

fun zone_reads :: "zone_env list \<Rightarrow> vs_zone \<Rightarrow> fod_algo \<Rightarrow> ((int + int) list \<times> vs_zone \<times> fod_algo) option" where
  "zone_reads [] z f = Some ([], z, f)"
| "zone_reads (env # envs) z f = do {
     (r, z, f) \<leftarrow> virtual_sensor_thermal_get_temp env z f;
     (rs, z, f) \<leftarrow> zone_reads envs z f;
     Some (r # rs, z, f)
   }"

definition zone_ok :: "int \<Rightarrow> int \<Rightarrow> vs_zone \<Rightarrow> bool" where
  "zone_ok lo hi z \<longleftrightarrow> \<not> is_fod_zone z \<and> list_all (sensor_ok lo hi) (ts_list (z_pdata z)) \<and>
     sum_list (map td_weight (ts_list (z_pdata z))) = DMF \<and> trips (z_pdata z) \<noteq> []"

lemma list_all_tparams:
  "map tparams ts' = map tparams ts \<Longrightarrow> list_all (input_ok lo hi env) ts' = list_all (input_ok lo hi env) ts"
proof (induction ts arbitrary: ts')
  case (Cons t ts)
  obtain t' ts1 where e: "ts' = t' # ts1" "tparams t' = tparams t" "map tparams ts1 = map tparams ts"
    using Cons.prems by (cases ts') auto
  show ?case using Cons.IH [OF e(3)] tparams_eq(1) [OF e(2)] e(1) by simp
qed simp

lemma weights_tparams: "map tparams ts' = map tparams ts \<Longrightarrow> map td_weight ts' = map td_weight ts"
proof (induction ts arbitrary: ts')
  case (Cons t ts)
  obtain t' ts1 where e: "ts' = t' # ts1" "tparams t' = tparams t" "map tparams ts1 = map tparams ts"
    using Cons.prems by (cases ts') auto
  show ?case using Cons.IH [OF e(3)] tparams_eq(2) [OF e(2)] e(1) by simp
qed simp

lemma get_temp_ok:
  assumes "zone_ok lo hi z" "list_all (input_ok lo hi (sensors env)) (ts_list (z_pdata z))" "0 \<le> lo" "hi < 2147483648"
  shows "\<exists>t z'. virtual_sensor_thermal_get_temp env z f = Some (Inr t, z', f) \<and> zone_ok lo hi z' \<and>
    lo - int (length (ts_list (z_pdata z))) \<le> t \<and> t \<le> hi \<and>
    map tparams (ts_list (z_pdata z')) = map tparams (ts_list (z_pdata z))"
proof -
  let ?ts = "ts_list (z_pdata z)"
  have z: "list_all (sensor_ok lo hi) ?ts" "sum_list (map td_weight ?ts) = DMF" "\<not> is_fod_zone z" "trips (z_pdata z) \<noteq> []"
    using assms(1) by (simp_all add: zone_ok_def)
  obtain tempv ts' where r: "sensors_step False (time_now env) (z_polling_delay z) (sensors env) ?ts f 0 = Some (tempv, ts', f)"
    "list_all (sensor_ok lo hi) ts'" "map tparams ts' = map tparams ?ts" "0 \<le> tempv" "1000 * tempv \<le> DMF * hi"
    "DMF * lo - 999 * int (length ?ts) \<le> 1000 * tempv"
    using sensors_step_ok [OF assms(2) z(1) assms(3,4), of 0 "time_now env" "z_polling_delay z" f] by (auto simp: z(2))
  have t: "lo - int (length ?ts) \<le> tempv" "tempv \<le> hi" "s32 tempv = tempv" using r(4-6) assms(4) by auto
  obtain t0 where t0: "arr_get (trips (z_pdata z)) 0 = Some t0" using z(4) by (simp add: arr_get_def)
  have "sum_list (map td_weight ts') = DMF" using weights_tparams [OF r(3)] z(2) by simp
  then show ?thesis
    using r(1-3) t t0 z by (simp add: virtual_sensor_thermal_get_temp_def zone_ok_def is_fod_zone_def)
qed

lemma zone_reads_ok:
  assumes "zone_ok lo hi z" "\<forall>env \<in> set envs. list_all (input_ok lo hi (sensors env)) (ts_list (z_pdata z))" "0 \<le> lo" "hi < 2147483648"
  shows "\<exists>rs z'. zone_reads envs z f = Some (map Inr rs, z', f) \<and> length rs = length envs \<and>
    (\<forall>t \<in> set rs. lo - int (length (ts_list (z_pdata z))) \<le> t \<and> t \<le> hi)"
  using assms(1,2)
proof (induction envs arbitrary: z)
  case (Cons env envs)
  obtain t z1 where s: "virtual_sensor_thermal_get_temp env z f = Some (Inr t, z1, f)" "zone_ok lo hi z1"
    "lo - int (length (ts_list (z_pdata z))) \<le> t" "t \<le> hi" "map tparams (ts_list (z_pdata z1)) = map tparams (ts_list (z_pdata z))"
    using get_temp_ok [OF Cons.prems(1) _ assms(3,4), of env f] Cons.prems(2) by auto
  have l: "length (ts_list (z_pdata z1)) = length (ts_list (z_pdata z))" using s(5) by (metis length_map)
  have "\<forall>env \<in> set envs. list_all (input_ok lo hi (sensors env)) (ts_list (z_pdata z1))"
    using Cons.prems(2) list_all_tparams [OF s(5)] by simp
  then obtain rs z' where "zone_reads envs z1 f = Some (map Inr rs, z', f)" "length rs = length envs"
    "\<forall>t \<in> set rs. lo - int (length (ts_list (z_pdata z))) \<le> t \<and> t \<le> hi"
    using Cons.IH [OF s(2)] l by auto
  then show ?case using s by (intro exI [of _ "t # rs"]) simp
qed simp

section \<open>Properties\<close>


definition ex_sensor :: "int \<Rightarrow> int \<Rightarrow> int \<Rightarrow> thermal_dev" where
  "ex_sensor sid index weight =
     \<lparr>td_name = ''pmic'', td_offset = 0, td_alpha = 300, td_weight = weight, td_select = 0, td_sensor_id = sid, td_aux = index,
      td_off_temp = 0, td_first = False\<rparr>"

definition ex_zone :: "string \<Rightarrow> thermal_dev list \<Rightarrow> vs_zone" where
  "ex_zone ty ts =
     \<lparr>z_id = 1, z_type = ty, z_trips = 2, z_disabled = 0, z_temperature = 0, z_last_temperature = 0, z_polling_delay = 1000, z_poll = None,
      z_work = False, z_query_count = 0, z_mask = 0, z_tbps = [],
      z_pdata = \<lparr>num_trips = 2, mode = THERMAL_DEVICE_ENABLED, pd_polling_delay = 1000, ts_list = ts,
        trips = [\<lparr>tr_temp = 45000, tr_type = THERMAL_TRIP_PASSIVE, tr_hyst = 2000\<rparr>,
          \<lparr>tr_temp = 60000, tr_type = THERMAL_TRIP_CRITICAL, tr_hyst = 0\<rparr>],
        num_cdevs = 1, cdev_names = [''bcct'']\<rparr>\<rparr>"

definition ex_sensor_env :: "int \<Rightarrow> int \<Rightarrow> sensor_env" where
  "ex_sensor_env bat pmic =
     \<lparr>bat_temp = Some (Inr bat), wpc_temp = None, chg_temp = None, pmic_temp = (\<lambda>_. pmic), gadc_temp = (\<lambda>_. 0)\<rparr>"

definition ex_zone_env :: "int \<Rightarrow> int \<Rightarrow> zone_env" where
  "ex_zone_env bat pmic = \<lparr>sensors = ex_sensor_env bat pmic, time_now = (5, 1), caller_ok = True\<rparr>"

definition ex_fod :: "int list \<Rightarrow> fod_algo" where
  "ex_fod ring =
     \<lparr>work_delay = 0, window_size = int (length ring), polling_interval = 1000, wpc_online_status = 1, fod_temp_cnt = 0,
      fod_ring = ring, fod_cur = 0, timer_start = (4, 1), fod_locked = False\<rparr>"

lemmas ex_zone_defs = ex_sensor_def ex_zone_def ex_sensor_env_def ex_zone_env_def ex_fod_def


text \<open>
  C16: The ring of temperatures computes the rate of rise of the reference definition \<^const>\<open>rate_spec\<close>.  For a window of
  \<open>w\<close> samples taken every \<open>delay\<close> milliseconds, the first \<open>w\<close> samples give 0, and every later one the difference
  between it and the sample \<open>w - 1\<close> before it, in units per minute: the node that is overwritten next always holds
  the oldest sample of the window, however often the ring has wrapped around.
\<close>

theorem rate_of_rise_is_windowed_difference:
  assumes "window_size f = int w" "length (fod_ring f) = w" "fod_cur f < w" "fod_temp_cnt f = 0" "work_delay f = 0"
    and "fst (timer_start f) \<noteq> 0" "snd (timer_start f) \<noteq> 0"
    and "2 \<le> w" "w < 2147483648" "0 < delay" "1000 \<le> delay * (int w - 1)" "delay * (int w - 1) < 2147483648"
    and "\<forall>y \<in> set (map snd xs). \<bar>y\<bar> \<le> 10000000"
  shows "\<exists>f'. fod_run delay xs f = Some (map (rate_spec delay w (map snd xs)) [0..<length xs], f')"
proof -
  have "window_inv w (fod_cur f) [] f" using assms(1-7) by (simp add: window_inv_def)
  from fod_run_spec [OF this assms(8-10,12,11), of xs] show ?thesis using assms(13) by auto
qed

theorem rate_of_rise_is_windowed_difference_witness:
  "\<exists>f'. fod_run 1000 [((5, 1), 30000), ((6, 1), 30100), ((7, 1), 30300), ((8, 1), 30600), ((9, 1), 30500)] (ex_fod [0, 0, 0]) =
     Some ([0, 0, 0, 15000, 6000], f')"
  using rate_of_rise_is_windowed_difference [of "ex_fod [0, 0, 0]" 3 1000
    "[((5, 1), 30000), ((6, 1), 30100), ((7, 1), 30300), ((8, 1), 30600), ((9, 1), 30500)]"]
  by (simp add: ex_fod_def rate_spec_def upt_rec del: fod_run.simps)

text \<open>
  The divisor is the length of the window in whole seconds, and nothing keeps it from being 0: when the polling delay
  of the zone times the number of steps of the window is below one second, the first sample after the window is full
  divides by zero.
\<close>

theorem short_window_divides_by_zero:
  assumes "fod_temp_cnt f = window_size f" "0 < window_size f" "window_size f < 2147483648"
    and "0 < delay" "delay * (window_size f - 1) < 1000"
  shows "calculate_raising_rate now data delay f = None"
  using assms by (auto simp: calculate_raising_rate_def fod_next_def arr_set_def arr_get_def Let_def)

theorem short_window_divides_by_zero_witness:
  "calculate_raising_rate (9, 1) 30500 400 (ex_fod [0, 0, 0]\<lparr>fod_temp_cnt := 3\<rparr>) = None"
  using short_window_divides_by_zero [of "ex_fod [0, 0, 0]\<lparr>fod_temp_cnt := 3\<rparr>" 400 "(9, 1)" 30500] by (simp add: ex_fod_def)

end
