(* ===== verification/Vs_Gov.thy ===== *)
theory Vs_Gov
  imports Vs_Zone
begin

text \<open>
  The governor of the virtual sensor zones, \<^verbatim>\<open>virtual_sensor_gov.c\<close>: \<^verbatim>\<open>virtual_sensor_throttle\<close>, which the thermal
  framework calls for every trip point of a zone after every reading.  The operations of the cooling devices are
  function pointers in the source and arguments here (\<open>cur\<close>, \<open>mx\<close>, \<open>set_state\<close>, and \<open>cty\<close> for the type of a device).

  The proofs are done once for all cooling devices with the contract \<open>cooling_device\<close>, against an abstract
  hysteresis controller, and used for the drivers of \<open>Vs_Cooler\<close>.
\<close>

section \<open>The governor\<close>

text \<open>What leaves the kernel: a line for the metrics, a counter for the vitals, and an event for user space.\<close>

datatype gov_event =
    Metric string
  | Vitals string int string
  | Uevent "string list"

text \<open>
  The inner loop: all instances of the device, whichever zone they belong to.  The last one whose trip is reached
  gives the target, and every instance with a trip below the number of trips of the zone loses its own target.
\<close>

fun cd_scan :: "vs_zone \<Rightarrow> nat \<Rightarrow> int \<Rightarrow> thermal_instance list \<Rightarrow> (int \<times> thermal_instance list) option" where
  "cd_scan z c target [] = Some (target, [])"
| "cd_scan z c target (cd_instance # l) =
     (if ti_cdev cd_instance \<noteq> c \<or> ti_trip cd_instance \<ge> z_trips z
      then do { (target, l) \<leftarrow> cd_scan z c target l; Some (target, cd_instance # l) }
      else do {
        trip_temp \<leftarrow> virtual_sensor_thermal_get_trip_temp z (ti_trip cd_instance);
        let target = (if z_temperature z \<ge> trip_temp then u64 (ti_trip cd_instance + 1) else target);
        (target, l) \<leftarrow> cd_scan z c target l;
        Some (target, cd_instance\<lparr>ti_target := THERMAL_NO_TARGET\<rparr> # l)
      })"

text \<open>The instance at position \<open>n\<close> is given a target, and the device is marked for an update.\<close>

definition set_target :: "nat \<Rightarrow> nat \<Rightarrow> int \<Rightarrow> 's thermal_state \<Rightarrow> 's thermal_state" where
  "set_target n c target ts =
     ts\<lparr>insts := (insts ts)[n := (insts ts ! n)\<lparr>ti_target := target\<rparr>], updated := (updated ts)(c := False)\<rparr>"

text \<open>
  Up at once, down only when the temperature is below the trip of the current state by its hysteresis.  The
  hysteresis is an \<^verbatim>\<open>unsigned long\<close>, so the comparison is unsigned.
\<close>

definition decide :: "vs_zone \<Rightarrow> nat \<Rightarrow> nat \<Rightarrow> int \<Rightarrow> int \<Rightarrow> 's thermal_state \<Rightarrow> (int \<times> 's thermal_state) option" where
  "decide z n c cur_state target ts =
     (if cur_state < target then Some (target, set_target n c target ts)
      else if cur_state > target then do {
        trip_temp \<leftarrow> virtual_sensor_thermal_get_trip_temp z (s32 (cur_state - 1));
        t \<leftarrow> arr_get (trips (z_pdata z)) (cur_state - 1);
        if u64 (z_temperature z) \<le> u64 (trip_temp - tr_hyst t)
        then Some (target, set_target n c target ts)
        else Some (cur_state, ts)
      }
      else Some (target, ts))"

definition gov_metrics :: "bool \<Rightarrow> string \<Rightarrow> vs_zone \<Rightarrow> int \<Rightarrow> int \<Rightarrow> gov_event list" where
  "gov_metrics logger ty z temp target =
     (let word = (if target \<noteq> 0 then ''_throttling'' else ''_unthrottling'') in
      if logger
      then [Metric (scnprintf 128 (''thermalthrottle:def:vs_cooler_'' @ ty @ word @ ''=1;CT;1,cur_temp='' @ print_d (z_temperature z) @
              '';CT;1,trip_temp='' @ print_d temp @ '';CT;1,target='' @ print_d target @ '';CT;1:NR'')),
            Vitals (scnprintf 128 (''vs_cooler_'' @ ty @ word)) (z_temperature z)
              (scnprintf 128 ([CHR 0x22] @ ''trip_temp'' @ [CHR 0x22, CHR 0x23, CHR 0x22] @ print_d temp @
                [CHR 0x22, CHR 0x24, CHR 0x22] @ ''target'' @ [CHR 0x22, CHR 0x23, CHR 0x22] @ print_d target @ [CHR 0x22]))]
      else [])"

definition gov_uevent :: "string \<Rightarrow> int \<Rightarrow> gov_event" where
  "gov_uevent ty target =
     Uevent [scnprintf 25 (''TRIP='' @ print_d (s64 (target - 1))), scnprintf 25 (''THERMAL_STATE='' @ print_d (s64 target)),
             scnprintf 25 (''CDEV_TYPE='' @ ty)]"

text \<open>One turn of the outer loop; \<open>target\<close> is the variable of the source, which keeps its value from turn to turn.\<close>

definition throttle_one ::
    "(nat \<Rightarrow> 's \<Rightarrow> int) \<Rightarrow> (nat \<Rightarrow> 's \<Rightarrow> int) \<Rightarrow> (nat \<Rightarrow> int \<Rightarrow> 's \<Rightarrow> (int \<times> 's) option) \<Rightarrow> (nat \<Rightarrow> 's \<Rightarrow> string) \<Rightarrow> bool \<Rightarrow>
     vs_zone \<Rightarrow> nat \<Rightarrow> int \<Rightarrow> 's thermal_state \<Rightarrow> (int \<times> gov_event list \<times> 's thermal_state) option" where
  "throttle_one cur mx set_state cty logger z n target ts = do {
     let c = ti_cdev (insts ts ! n);
     let max_state = mx c (devs ts);
     (target, l) \<leftarrow> cd_scan z c target (insts ts);
     let target = (if target > max_state then max_state else target);
     let cur_state = cur c (devs ts);
     (target, ts) \<leftarrow> decide z n c cur_state target (ts\<lparr>insts := l\<rparr>);
     if cur_state \<noteq> target
     then do {
       ts \<leftarrow> thermal_cdev_update set_state c ts;
       temp \<leftarrow> virtual_sensor_thermal_get_trip_temp z (s32 (if target \<noteq> 0 then target - 1 else target));
       Some (target, gov_metrics logger (cty c (devs ts)) z temp target @ [gov_uevent (cty c (devs ts)) target], ts)
     }
     else Some (target, [], ts)
   }"

fun throttle_loop ::
    "(nat \<Rightarrow> 's \<Rightarrow> int) \<Rightarrow> (nat \<Rightarrow> 's \<Rightarrow> int) \<Rightarrow> (nat \<Rightarrow> int \<Rightarrow> 's \<Rightarrow> (int \<times> 's) option) \<Rightarrow> (nat \<Rightarrow> 's \<Rightarrow> string) \<Rightarrow> bool \<Rightarrow>
     vs_zone \<Rightarrow> nat list \<Rightarrow> int \<Rightarrow> 's thermal_state \<Rightarrow> (gov_event list \<times> 's thermal_state) option" where
  "throttle_loop cur mx set_state cty logger z [] target ts = Some ([], ts)"
| "throttle_loop cur mx set_state cty logger z (n # ns) target ts =
     (if ti_tz (insts ts ! n) \<noteq> z_id z \<or> ti_trip (insts ts ! n) \<noteq> 0
      then throttle_loop cur mx set_state cty logger z ns target ts
      else do {
        (target, es, ts) \<leftarrow> throttle_one cur mx set_state cty logger z n target ts;
        (es', ts) \<leftarrow> throttle_loop cur mx set_state cty logger z ns target ts;
        Some (es @ es', ts)
      })"

definition virtual_sensor_throttle ::
    "(nat \<Rightarrow> 's \<Rightarrow> int) \<Rightarrow> (nat \<Rightarrow> 's \<Rightarrow> int) \<Rightarrow> (nat \<Rightarrow> int \<Rightarrow> 's \<Rightarrow> (int \<times> 's) option) \<Rightarrow> (nat \<Rightarrow> 's \<Rightarrow> string) \<Rightarrow> bool \<Rightarrow>
     vs_zone \<Rightarrow> int \<Rightarrow> 's thermal_state \<Rightarrow> (int \<times> gov_event list \<times> 's thermal_state) option" where
  "virtual_sensor_throttle cur mx set_state cty logger z trip ts =
     (if trip \<noteq> 0 then Some (0, [], ts)
      else do {
        (es, ts) \<leftarrow> throttle_loop cur mx set_state cty logger z [0..<length (insts ts)] 0 ts;
        Some (0, es, ts)
      })"

section \<open>The abstract controller\<close>

text \<open>The number of trip points that the temperature has reached, and whether it is below one by its hysteresis.\<close>

definition threshold :: "vs_zone \<Rightarrow> int \<Rightarrow> int" where
  "threshold z k = tr_temp (trips (z_pdata z) ! nat k)"

definition reached :: "vs_zone \<Rightarrow> int" where
  "reached z = int (length (filter (\<lambda>k. threshold z k \<le> z_temperature z) [0..z_trips z - 1]))"

definition cooled :: "vs_zone \<Rightarrow> int \<Rightarrow> bool" where
  "cooled z st \<longleftrightarrow> z_temperature z \<le> threshold z (st - 1) - tr_hyst (trips (z_pdata z) ! nat (st - 1))"

definition next_level :: "vs_zone \<Rightarrow> int \<Rightarrow> int \<Rightarrow> int \<Rightarrow> int" where
  "next_level z m carry st =
     (let d = min m (if reached z > 0 then reached z else carry)
      in if st > d \<and> \<not> cooled z st then st else d)"

fun controller :: "vs_zone \<Rightarrow> (nat \<Rightarrow> int) \<Rightarrow> nat list \<Rightarrow> int \<Rightarrow> (nat \<Rightarrow> int) \<Rightarrow> nat \<Rightarrow> int" where
  "controller z m [] carry st = st"
| "controller z m (c # cs) carry st =
     controller z m cs (next_level z (m c) carry (st c)) (st(c := next_level z (m c) carry (st c)))"


section \<open>What the governor needs of a zone\<close>

text \<open>
  Hystereses that are not larger than the trip temperatures, a temperature that is not negative, and trip
  temperatures in ascending order.  The devices of the zone are bound to all of its trip points in ascending order,
  which is what the framework does for the mask that the zone driver gives it; an instance for a trip above the
  number of trips of the zone (the zone is registered with the maximum) has no target.
\<close>

definition zone_range :: "vs_zone \<Rightarrow> bool" where
  "zone_range z \<longleftrightarrow> 0 < z_trips z \<and> z_trips z \<le> int THERMAL_MAX_TRIPS \<and> nat (z_trips z) \<le> length (trips (z_pdata z)) \<and>
     0 \<le> z_temperature z \<and> z_temperature z < 2147483648 \<and>
     list_all (\<lambda>t. 0 \<le> tr_hyst t \<and> tr_hyst t \<le> tr_temp t \<and> tr_temp t < 2147483648) (trips (z_pdata z))"

definition gov_zone :: "vs_zone \<Rightarrow> bool" where
  "gov_zone z \<longleftrightarrow> zone_range z \<and> sorted (map tr_temp (take (nat (z_trips z)) (trips (z_pdata z))))"

definition trips_of :: "int \<Rightarrow> nat \<Rightarrow> thermal_instance list \<Rightarrow> int list" where
  "trips_of n c l = map ti_trip (filter (\<lambda>t. ti_cdev t = c \<and> ti_trip t < n) l)"

definition idle :: "int \<Rightarrow> nat \<Rightarrow> thermal_instance list \<Rightarrow> bool" where
  "idle n c l \<longleftrightarrow> list_all (\<lambda>t. ti_cdev t = c \<and> ti_trip t \<ge> n \<longrightarrow> ti_target t = THERMAL_NO_TARGET) l"

definition wired :: "vs_zone \<Rightarrow> thermal_instance list \<Rightarrow> bool" where
  "wired z l \<longleftrightarrow> list_all (\<lambda>t. ti_tz t = z_id z \<and> ti_trip t = 0 \<longrightarrow> trips_of (z_trips z) (ti_cdev t) l = [0..z_trips z - 1]) l"

definition shape :: "thermal_instance list \<Rightarrow> (nat \<times> nat \<times> int) list" where
  "shape l = map (\<lambda>t. (ti_tz t, ti_cdev t, ti_trip t)) l"

lemma trips_of_shape: "shape l' = shape l \<Longrightarrow> trips_of n c l' = trips_of n c l"
proof -
  have "trips_of n c l = map (\<lambda>x. snd (snd x)) (filter (\<lambda>x. fst (snd x) = c \<and> snd (snd x) < n) (shape l))" for l
    by (simp add: trips_of_def shape_def filter_map comp_def)
  then show "shape l' = shape l \<Longrightarrow> trips_of n c l' = trips_of n c l" by simp
qed

lemma shape_nth:
  assumes "shape l' = shape l" "n < length l"
  shows "ti_tz (l' ! n) = ti_tz (l ! n)" "ti_cdev (l' ! n) = ti_cdev (l ! n)" "ti_trip (l' ! n) = ti_trip (l ! n)"
proof -
  have "length l' = length l" using assms(1) by (metis length_map shape_def)
  then have "(ti_tz (l' ! n), ti_cdev (l' ! n), ti_trip (l' ! n)) = (ti_tz (l ! n), ti_cdev (l ! n), ti_trip (l ! n))"
    using assms by (metis (no_types, lifting) nth_map shape_def)
  then show "ti_tz (l' ! n) = ti_tz (l ! n)" "ti_cdev (l' ! n) = ti_cdev (l ! n)" "ti_trip (l' ! n) = ti_trip (l ! n)" by simp_all
qed

lemma shape_length: "shape l' = shape l \<Longrightarrow> length l' = length l"
  by (metis length_map shape_def)

lemma wired_shape:
  assumes "shape l' = shape l" "wired z l"
  shows "wired z l'"
  unfolding wired_def list_all_length
proof (intro allI impI)
  fix n
  assume n: "n < length l'" and t: "ti_tz (l' ! n) = z_id z \<and> ti_trip (l' ! n) = 0"
  have "n < length l" using n shape_length [OF assms(1)] by simp
  then show "trips_of (z_trips z) (ti_cdev (l' ! n)) l' = [0..z_trips z - 1]"
    using t assms(2) shape_nth [OF assms(1)] trips_of_shape [OF assms(1)] by (simp add: wired_def list_all_length)
qed

lemma zone_trip:
  assumes "zone_range z" "0 \<le> k" "k < z_trips z"
  shows "virtual_sensor_thermal_get_trip_temp z k = Some (threshold z k)" "arr_get (trips (z_pdata z)) k = Some (trips (z_pdata z) ! nat k)"
    "0 \<le> threshold z k" "threshold z k < 2147483648" "0 \<le> tr_hyst (trips (z_pdata z) ! nat k)" "tr_hyst (trips (z_pdata z) ! nat k) \<le> threshold z k"
proof -
  have n: "nat k < length (trips (z_pdata z))" "nat k < nat (z_trips z)" using assms by (auto simp: zone_range_def)
  then have t: "0 \<le> tr_hyst (trips (z_pdata z) ! nat k)" "tr_hyst (trips (z_pdata z) ! nat k) \<le> threshold z k" "threshold z k < 2147483648"
    using assms(1) by (auto simp: zone_range_def list_all_length threshold_def)
  then show "0 \<le> threshold z k" "threshold z k < 2147483648" "0 \<le> tr_hyst (trips (z_pdata z) ! nat k)"
    "tr_hyst (trips (z_pdata z) ! nat k) \<le> threshold z k" by linarith+
  show a: "arr_get (trips (z_pdata z)) k = Some (trips (z_pdata z) ! nat k)" using n assms(2) by (intro arr_get_ok) auto
  show "virtual_sensor_thermal_get_trip_temp z k = Some (threshold z k)"
    unfolding virtual_sensor_thermal_get_trip_temp_def a using t by (simp add: threshold_def)
qed

lemma threshold_mono:
  assumes "gov_zone z" "0 \<le> j" "j \<le> k" "k < z_trips z"
  shows "threshold z j \<le> threshold z k"
proof -
  let ?ts = "map tr_temp (take (nat (z_trips z)) (trips (z_pdata z)))"
  have n: "nat k < length ?ts" "nat j \<le> nat k" using assms by (auto simp: gov_zone_def zone_range_def)
  then have "?ts ! nat j \<le> ?ts ! nat k" using assms(1) sorted_nth_mono [of ?ts "nat j" "nat k"] by (simp add: gov_zone_def)
  moreover have "nat j < length ?ts" using n by linarith
  ultimately show ?thesis using n by (simp add: threshold_def)
qed

section \<open>The scan\<close>

definition clear_targets :: "int \<Rightarrow> nat \<Rightarrow> thermal_instance list \<Rightarrow> thermal_instance list" where
  "clear_targets n c l = map (\<lambda>t. if ti_cdev t = c \<and> ti_trip t < n then t\<lparr>ti_target := THERMAL_NO_TARGET\<rparr> else t) l"

definition pick :: "vs_zone \<Rightarrow> int \<Rightarrow> int list \<Rightarrow> int" where
  "pick z target ks = foldl (\<lambda>tg k. if threshold z k \<le> z_temperature z then k + 1 else tg) target ks"

lemma cd_scan_eq:
  assumes "zone_range z" "\<forall>k \<in> set (trips_of (z_trips z) c l). 0 \<le> k"
  shows "cd_scan z c target l = Some (pick z target (trips_of (z_trips z) c l), clear_targets (z_trips z) c l)"
  using assms(2)
proof (induction l arbitrary: target)
  case (Cons t l)
  have ih: "cd_scan z c tg l = Some (pick z tg (trips_of (z_trips z) c l), clear_targets (z_trips z) c l)" for tg
    using Cons by (auto simp: trips_of_def)
  show ?case
  proof (cases "ti_cdev t = c \<and> ti_trip t < z_trips z")
    case True
    then have k: "0 \<le> ti_trip t" "ti_trip t < z_trips z" using Cons.prems by (simp_all add: trips_of_def)
    moreover have "ti_trip t < 12" using k assms(1) by (simp add: zone_range_def)
    ultimately show ?thesis
      using True zone_trip(1) [OF assms(1) k] ih by (simp add: pick_def trips_of_def clear_targets_def)
  next
    case False
    then have "ti_cdev t \<noteq> c \<or> ti_trip t \<ge> z_trips z" by auto
    then show ?thesis by (auto simp: ih trips_of_def clear_targets_def)
  qed
qed (simp add: pick_def trips_of_def clear_targets_def)

lemma filter_reached:
  assumes "gov_zone z" "m < z_trips z" "threshold z m \<le> z_temperature z"
  shows "filter (\<lambda>k. threshold z k \<le> z_temperature z) [0..m] = [0..m]"
proof (rule filter_True, rule ballI)
  fix k
  assume "k \<in> set [0..m]"
  then show "threshold z k \<le> z_temperature z" using threshold_mono [OF assms(1), of k m] assms(2,3) by simp
qed

lemma pick_upto:
  assumes "gov_zone z" "int m \<le> z_trips z"
  defines "r \<equiv> int (length (filter (\<lambda>k. threshold z k \<le> z_temperature z) [0..int m - 1]))"
  shows "pick z target [0..int m - 1] = (if r > 0 then r else target)"
  using assms(2) unfolding r_def
proof (induction m)
  case (Suc m)
  have u: "[0..int (Suc m) - 1] = [0..int m - 1] @ [int m]" using upto_rec2 [of 0 "int m"] by simp
  show ?case
  proof (cases "threshold z (int m) \<le> z_temperature z")
    case True
    have "filter (\<lambda>k. threshold z k \<le> z_temperature z) [0..int m] = [0..int m]"
      using filter_reached [OF assms(1) _ True] Suc.prems by simp
    then show ?thesis using True u by (simp add: pick_def)
  next
    case False
    then show ?thesis using Suc u by (simp add: pick_def)
  qed
qed (simp add: pick_def)

lemma pick_reached: "gov_zone z \<Longrightarrow> pick z target [0..z_trips z - 1] = (if reached z > 0 then reached z else target)"
  using pick_upto [of z "nat (z_trips z)" target] by (simp add: gov_zone_def zone_range_def reached_def)

lemma reached_nonneg: "0 \<le> reached z"
  by (simp add: reached_def)

lemma shape_clear: "shape (clear_targets n c l) = shape l"
  by (simp add: shape_def clear_targets_def)

lemma shape_update: "shape (l[n := (l ! n)\<lparr>ti_target := v\<rparr>]) = shape l"
  by (cases "n < length l") (simp_all add: shape_def map_update list_update_same_conv list_update_beyond)

lemma idle_clear: "idle n c l \<Longrightarrow> idle n c (clear_targets m d l)"
  by (simp add: idle_def clear_targets_def list_all_length)

lemma idle_update:
  assumes "idle m c l" "ti_trip (l ! n) < m"
  shows "idle m c (l[n := (l ! n)\<lparr>ti_target := v\<rparr>])"
proof -
  have "t = (l ! n)\<lparr>ti_target := v\<rparr> \<or> t \<in> set l" if "t \<in> set (l[n := (l ! n)\<lparr>ti_target := v\<rparr>])" for t
    using that set_update_subset_insert [of l n "(l ! n)\<lparr>ti_target := v\<rparr>"] by blast
  then show ?thesis using assms unfolding idle_def list_all_iff by fastforce
qed

lemma clear_idle:
  assumes "idle n c l" "t \<in> set (clear_targets n c l)" "ti_cdev t = c"
  shows "ti_target t = THERMAL_NO_TARGET"
proof -
  obtain u where "u \<in> set l" "t = (if ti_cdev u = c \<and> ti_trip u < n then u\<lparr>ti_target := THERMAL_NO_TARGET\<rparr> else u)"
    using assms(2) unfolding clear_targets_def list.set_map by blast
  then show ?thesis using assms(1,3) by (auto simp: idle_def list_all_iff split: if_splits)
qed

lemma deepest_target:
  assumes "idle m c l" "n < length l" "ti_cdev (l ! n) = c" "0 \<le> v" "v < THERMAL_NO_TARGET"
  shows "deepest c ((clear_targets m c l)[n := (clear_targets m c l ! n)\<lparr>ti_target := v\<rparr>]) 0 = v"
proof -
  let ?l = "clear_targets m c l"
  have n: "n < length ?l" using assms(2) by (simp add: clear_targets_def)
  have "\<forall>t \<in> set ?l. ti_cdev t = c \<longrightarrow> ti_target t = THERMAL_NO_TARGET" using clear_idle [OF assms(1)] by blast
  then have "\<forall>t \<in> set (take n ?l @ drop (Suc n) ?l). ti_cdev t = c \<longrightarrow> ti_target t = THERMAL_NO_TARGET"
    using set_take_subset [of n ?l] set_drop_subset [of "Suc n" ?l] unfolding set_append by blast
  moreover have "ti_cdev (?l ! n) = c" using assms(2,3) by (simp add: clear_targets_def)
  ultimately show ?thesis
    using deepest_one [of "take n ?l" "drop (Suc n) ?l" c "(?l ! n)\<lparr>ti_target := v\<rparr>"] assms(4,5) n
    by (simp add: upd_conv_take_nth_drop)
qed

section \<open>The governor is the controller\<close>

lemma decide_eq:
  assumes "zone_range z" "0 \<le> st" "st \<le> z_trips z" "0 \<le> d"
  shows "decide z n c st d ts =
    Some (if st > d \<and> \<not> cooled z st then (st, ts) else if st = d then (d, ts) else (d, set_target n c d ts))"
proof (cases "st > d")
  case True
  then have k: "0 \<le> st - 1" "st - 1 < z_trips z" "s32 (st - 1) = st - 1" using assms by (auto simp: zone_range_def)
  have "0 \<le> z_temperature z" "z_temperature z < 2147483648" using assms(1) by (simp_all add: zone_range_def)
  then have "u64 (z_temperature z) \<le> u64 (threshold z (st - 1) - tr_hyst (trips (z_pdata z) ! nat (st - 1))) \<longleftrightarrow> cooled z st"
    using zone_trip(3-6) [OF assms(1) k(1,2)] by (simp add: cooled_def u64_def)
  then show ?thesis using True k(3) zone_trip(1,2) [OF assms(1) k(1,2)] by (simp add: decide_def)
qed (auto simp: decide_def)

text \<open>The devices of a zone, in the order in which the governor meets them.\<close>

definition zone_devs :: "vs_zone \<Rightarrow> thermal_instance list \<Rightarrow> nat list" where
  "zone_devs z l = map ti_cdev (filter (\<lambda>t. ti_tz t = z_id z \<and> ti_trip t = 0) l)"

definition devs_at :: "vs_zone \<Rightarrow> thermal_instance list \<Rightarrow> nat list \<Rightarrow> nat list" where
  "devs_at z l ns = map (\<lambda>n. ti_cdev (l ! n)) (filter (\<lambda>n. ti_tz (l ! n) = z_id z \<and> ti_trip (l ! n) = 0) ns)"

lemma devs_at_all: "devs_at z l [0..<length l] = zone_devs z l"
proof -
  have "zone_devs z l = zone_devs z (map ((!) l) [0..<length l])" by (simp add: map_nth)
  then show ?thesis by (simp add: zone_devs_def devs_at_def filter_map comp_def)
qed

lemma devs_at_shape:
  assumes "shape l' = shape l" "\<forall>n \<in> set ns. n < length l"
  shows "devs_at z l' ns = devs_at z l ns"
  using assms(2) shape_nth [OF assms(1)] by (induction ns) (auto simp: devs_at_def)

lemma zone_devs_shape: "shape l' = shape l \<Longrightarrow> zone_devs z l' = zone_devs z l"
  using devs_at_shape [of l' l "[0..<length l]" z] shape_length [of l' l] by (simp add: devs_at_all [symmetric])

definition gov_ready :: "('s \<Rightarrow> bool) \<Rightarrow> (nat \<Rightarrow> 's \<Rightarrow> bool) \<Rightarrow> (nat \<Rightarrow> 's \<Rightarrow> int) \<Rightarrow> vs_zone \<Rightarrow> 's thermal_state \<Rightarrow> bool" where
  "gov_ready ok plain mx z ts \<longleftrightarrow> ok (devs ts) \<and> wired z (insts ts) \<and>
     list_all (\<lambda>c. plain c (devs ts) \<and> mx c (devs ts) \<le> z_trips z \<and> idle (z_trips z) c (insts ts)) (zone_devs z (insts ts))"

context cooling_device
begin

lemma throttle_one_ok:
  fixes ts n z c carry
  assumes "gov_zone z" "inv (devs ts)" "good e" "plain c (devs ts)" "n < length (insts ts)" "ti_cdev (insts ts ! n) = c"
    and "trips_of (z_trips z) c (insts ts) = [0..z_trips z - 1]" "mx c (devs ts) \<le> z_trips z" "0 \<le> carry"
    and "idle (z_trips z) c (insts ts)" "ti_trip (insts ts ! n) = 0"
  defines "v \<equiv> next_level z (mx c (devs ts)) carry (cur c (devs ts))"
  shows "\<exists>es ts'. throttle_one cur mx (set_state e) cty logger z n carry ts = Some (v, es, ts') \<and> 0 \<le> v \<and>
    shape (insts ts') = shape (insts ts) \<and> inv (devs ts') \<and> cur c (devs ts') = v \<and>
    (\<forall>j. j \<noteq> c \<longrightarrow> cur j (devs ts') = cur j (devs ts)) \<and> (\<forall>j. mx j (devs ts') = mx j (devs ts)) \<and>
    (\<forall>j. plain j (devs ts') = plain j (devs ts)) \<and> (\<forall>j. idle (z_trips z) j (insts ts) \<longrightarrow> idle (z_trips z) j (insts ts'))"
proof -
  have zr: "zone_range z" "0 < z_trips z" using assms(1) by (simp_all add: gov_zone_def zone_range_def)
  define st where "st = cur c (devs ts)"
  define m where "m = mx c (devs ts)"
  define q where "q = (if reached z > 0 then reached z else carry)"
  define d where "d = min m q"
  define l where "l = clear_targets (z_trips z) c (insts ts)"
  have range: "0 \<le> st" "st \<le> m" "m < THERMAL_NO_TARGET" "m \<le> z_trips z"
    using cur_range [OF assms(2,4)] assms(8) by (simp_all add: st_def m_def)
  have d: "0 \<le> d" "d \<le> m" using range assms(9) reached_nonneg [of z] by (auto simp: d_def q_def)
  have v: "v = (if st > d \<and> \<not> cooled z st then st else d)" by (simp add: v_def next_level_def d_def q_def m_def st_def Let_def)
  have scan: "cd_scan z c carry (insts ts) = Some (q, l)"
    using cd_scan_eq [OF zr(1), of c "insts ts" carry] assms(7) pick_reached [OF assms(1)] by (simp add: l_def q_def)
  have cap: "(if q > mx c (devs ts) then mx c (devs ts) else q) = d" by (auto simp: d_def m_def)
  note dec = decide_eq [OF zr(1) range(1) order_trans [OF range(2,4)] d(1), of n c "ts\<lparr>insts := l\<rparr>"]
  show ?thesis
  proof (cases "v = st")
    case True
    then have "decide z n c st d (ts\<lparr>insts := l\<rparr>) = Some (v, ts\<lparr>insts := l\<rparr>)" using dec v by (auto split: if_splits)
    then have "throttle_one cur mx (set_state e) cty logger z n carry ts = Some (v, [], ts\<lparr>insts := l\<rparr>)"
      using scan True by (simp add: throttle_one_def assms(6) st_def [symmetric] cap Let_def split del: if_split)
    then show ?thesis using True range assms(2) by (simp add: shape_clear idle_clear l_def st_def)
  next
    case False
    then have vd: "v = d" "st \<noteq> d" using v by (auto split: if_splits)
    define t1 where "t1 = set_target n c d (ts\<lparr>insts := l\<rparr>)"
    have e: "decide z n c st d (ts\<lparr>insts := l\<rparr>) = Some (d, t1)" using dec vd v by (auto simp: t1_def split: if_splits)
    have "deepest c (insts t1) 0 = d" using deepest_target [OF assms(10,5,6) d(1)] d(2) range(3) by (simp add: t1_def set_target_def l_def)
    then obtain t2 where t2: "thermal_cdev_update (set_state e) c t1 = Some t2" "insts t2 = insts t1" "inv (devs t2)"
      "cur c (devs t2) = min d (mx c (devs t1))" "\<forall>j. j \<noteq> c \<longrightarrow> cur j (devs t2) = cur j (devs t1)"
      "\<forall>j. mx j (devs t2) = mx j (devs t1)" "\<forall>j. plain j (devs t2) = plain j (devs t1)"
      using update_law [of t1 e c d] assms(2-4) d(1) by (auto simp: t1_def set_target_def)
    have k: "0 \<le> (if d \<noteq> 0 then d - 1 else d)" "(if d \<noteq> 0 then d - 1 else d) < z_trips z" "s32 (if d \<noteq> 0 then d - 1 else d) = (if d \<noteq> 0 then d - 1 else d)"
      using d range(4) zr by (auto simp: zone_range_def)
    have "\<exists>es. throttle_one cur mx (set_state e) cty logger z n carry ts = Some (d, es, t2)"
      using scan e vd(2) t2(1) zone_trip(1) [OF zr(1) k(1,2)] k(3)
      by (simp add: throttle_one_def assms(6) st_def [symmetric] cap Let_def split del: if_split)
    moreover have "shape (insts t2) = shape (insts ts)" by (simp add: t2(2) t1_def set_target_def shape_update shape_clear l_def)
    moreover have "devs t1 = devs ts" by (simp add: t1_def set_target_def)
    moreover have "idle (z_trips z) j (insts t2)" if "idle (z_trips z) j (insts ts)" for j
    proof -
      have "ti_trip (l ! n) < z_trips z" using assms(5,11) zr(2) by (simp add: l_def clear_targets_def)
      then show ?thesis using idle_update [of "z_trips z" j l n d] idle_clear [OF that] by (simp add: t2(2) t1_def set_target_def l_def)
    qed
    ultimately show ?thesis using t2 vd(1) d by (auto simp: m_def)
  qed
qed


lemma throttle_loop_ok:
  assumes "gov_zone z" "good e" "gov_ready inv plain mx z ts" "\<forall>n \<in> set ns. n < length (insts ts)" "0 \<le> carry"
  shows "\<exists>es ts'. throttle_loop cur mx (set_state e) cty logger z ns carry ts = Some (es, ts') \<and> gov_ready inv plain mx z ts' \<and>
    shape (insts ts') = shape (insts ts) \<and> (\<forall>j. mx j (devs ts') = mx j (devs ts)) \<and>
    (\<lambda>j. cur j (devs ts')) = controller z (\<lambda>c. mx c (devs ts)) (devs_at z (insts ts) ns) carry (\<lambda>j. cur j (devs ts))"
  using assms(3-5)
proof (induction ns arbitrary: ts carry)
  case (Cons n ns)
  let ?t = "insts ts ! n"
  show ?case
  proof (cases "ti_tz ?t = z_id z \<and> ti_trip ?t = 0")
    case False
    then show ?thesis using Cons.IH [OF Cons.prems(1) _ Cons.prems(3)] Cons.prems(2) by (auto simp: devs_at_def)
  next
    case True
    define c where "c = ti_cdev ?t"
    define v where "v = next_level z (mx c (devs ts)) carry (cur c (devs ts))"
    have n: "n < length (insts ts)" using Cons.prems(2) by simp
    then have mem: "?t \<in> set (insts ts)" by simp
    have c: "trips_of (z_trips z) c (insts ts) = [0..z_trips z - 1]" "c \<in> set (zone_devs z (insts ts))"
      using Cons.prems(1) mem True by (auto simp: gov_ready_def wired_def list_all_iff c_def zone_devs_def)
    have p: "inv (devs ts)" "plain c (devs ts)" "mx c (devs ts) \<le> z_trips z" "idle (z_trips z) c (insts ts)"
      using Cons.prems(1) c(2) by (simp_all add: gov_ready_def list_all_iff)
    obtain es ts1 where s1: "throttle_one cur mx (set_state e) cty logger z n carry ts = Some (v, es, ts1)" "0 \<le> v"
      "shape (insts ts1) = shape (insts ts)" "inv (devs ts1)" "cur c (devs ts1) = v"
      "\<forall>j. j \<noteq> c \<longrightarrow> cur j (devs ts1) = cur j (devs ts)" "\<forall>j. mx j (devs ts1) = mx j (devs ts)"
      "\<forall>j. plain j (devs ts1) = plain j (devs ts)" "\<forall>j. idle (z_trips z) j (insts ts) \<longrightarrow> idle (z_trips z) j (insts ts1)"
      using throttle_one_ok [OF assms(1) p(1) assms(2) p(2) n c_def [symmetric] c(1) p(3) Cons.prems(3) p(4) conjunct2 [OF True]] unfolding v_def by blast
    have r1: "gov_ready inv plain mx z ts1"
      using Cons.prems(1) s1 wired_shape [OF s1(3)] zone_devs_shape [OF s1(3)] by (simp add: gov_ready_def list_all_iff)
    have b: "\<forall>n \<in> set ns. n < length (insts ts1)" using Cons.prems(2) shape_length [OF s1(3)] by simp
    have cur1: "(\<lambda>j. cur j (devs ts1)) = (\<lambda>j. cur j (devs ts))(c := v)" using s1(5,6) by auto
    have d1: "devs_at z (insts ts1) ns = devs_at z (insts ts) ns" using devs_at_shape [OF s1(3)] Cons.prems(2) by simp
    obtain es2 ts2 where s2: "throttle_loop cur mx (set_state e) cty logger z ns v ts1 = Some (es2, ts2)" "gov_ready inv plain mx z ts2"
      "shape (insts ts2) = shape (insts ts1)" "\<forall>j. mx j (devs ts2) = mx j (devs ts1)"
      "(\<lambda>j. cur j (devs ts2)) = controller z (\<lambda>c. mx c (devs ts1)) (devs_at z (insts ts1) ns) v (\<lambda>j. cur j (devs ts1))"
      using Cons.IH [OF r1 b s1(2)] by blast
    have "throttle_loop cur mx (set_state e) cty logger z (n # ns) carry ts = Some (es @ es2, ts2)" using True s1(1) s2(1) by simp
    moreover have "devs_at z (insts ts) (n # ns) = c # devs_at z (insts ts) ns" using True by (simp add: devs_at_def c_def)
    ultimately show ?thesis using s2 s1(3,7) cur1 d1 by (simp add: v_def)
  qed
qed (simp add: devs_at_def)

lemma governor_is_controller:
  assumes "gov_zone z" "good e" "gov_ready inv plain mx z ts"
  shows "\<exists>es ts'. virtual_sensor_throttle cur mx (set_state e) cty logger z 0 ts = Some (0, es, ts') \<and> gov_ready inv plain mx z ts' \<and>
    shape (insts ts') = shape (insts ts) \<and> (\<forall>j. mx j (devs ts') = mx j (devs ts)) \<and>
    (\<lambda>j. cur j (devs ts')) = controller z (\<lambda>c. mx c (devs ts)) (zone_devs z (insts ts)) 0 (\<lambda>j. cur j (devs ts))"
  using throttle_loop_ok [OF assms, of "[0..<length (insts ts)]" 0 cty logger]
  by (auto simp: virtual_sensor_throttle_def devs_at_all)

end

section \<open>The controller\<close>

text \<open>When a trip is reached, what a device is told does not depend on the devices before it.\<close>

lemma next_level_hot: "reached z > 0 \<Longrightarrow> next_level z m carry st = next_level z m 0 st"
  by (simp add: next_level_def)

lemma next_level_again: "reached z > 0 \<Longrightarrow> next_level z m 0 (next_level z m carry st) = next_level z m 0 st"
  by (auto simp: next_level_def Let_def)

lemma controller_hot:
  assumes "reached z > 0"
  shows "controller z m cs carry st c = (if c \<in> set cs then next_level z (m c) 0 (st c) else st c)"
proof (induction cs arbitrary: carry st)
  case (Cons a cs)
  show ?case using next_level_again [OF assms] by (simp add: Cons.IH next_level_hot [OF assms, of _ carry])
qed simp

lemma controller_cool:
  assumes "reached z = 0" "\<forall>c \<in> set cs. 0 \<le> m c \<and> (st c = 0 \<or> 0 < st c \<and> cooled z (st c))"
  shows "controller z m cs 0 st c = (if c \<in> set cs then 0 else st c)"
  using assms(2)
proof (induction cs arbitrary: st)
  case (Cons a cs)
  have "next_level z (m a) 0 (st a) = 0" using Cons.prems assms(1) by (auto simp: next_level_def)
  moreover have "controller z m cs 0 (st(a := 0)) c = (if c \<in> set cs then 0 else (st(a := 0)) c)"
    by (rule Cons.IH) (use Cons.prems in auto)
  ultimately show ?case by simp
qed simp

section \<open>Binding\<close>

lemma bind_new:
  assumes "0 \<le> k" "k < n" "\<forall>t \<in> set l. ti_cdev t = c \<longrightarrow> ti_trip t \<noteq> k"
  shows "snd (thermal_zone_bind_cooling_device 0 n tz k c l) = l @ [\<lparr>ti_tz = tz, ti_cdev = c, ti_trip = k, ti_target = THERMAL_NO_TARGET\<rparr>]"
  using assms by (auto simp: thermal_zone_bind_cooling_device_def list_ex_iff)

definition fresh_insts :: "nat \<Rightarrow> nat \<Rightarrow> int list \<Rightarrow> thermal_instance list" where
  "fresh_insts tz c ks = map (\<lambda>k. \<lparr>ti_tz = tz, ti_cdev = c, ti_trip = k, ti_target = THERMAL_NO_TARGET\<rparr>) ks"

lemma bind_from_fresh:
  assumes "\<forall>k \<in> set ks. 0 \<le> k \<and> k < n \<and> msk AND push_bit (nat k) 1 \<noteq> 0" "distinct ks"
    and "\<forall>t \<in> set l. ti_cdev t = c \<longrightarrow> ti_trip t \<notin> set ks"
  shows "bind_from (\<lambda>_. 0) n msk tz c ks l = l @ fresh_insts tz c ks"
  using assms
proof (induction ks arbitrary: l)
  case (Cons k ks)
  have "snd (thermal_zone_bind_cooling_device 0 n tz k c l) = l @ fresh_insts tz c [k]"
    unfolding fresh_insts_def using bind_new [of k n l c tz] Cons.prems by auto
  moreover have "bind_from (\<lambda>_. 0) n msk tz c ks (l @ fresh_insts tz c [k]) = (l @ fresh_insts tz c [k]) @ fresh_insts tz c ks"
    by (rule Cons.IH) (use Cons.prems in \<open>auto simp: fresh_insts_def\<close>)
  ultimately show ?case using Cons.prems by (simp add: fresh_insts_def)
qed (simp add: fresh_insts_def)

lemma trip_mask_bits: "0 \<le> k \<Longrightarrow> k < 12 \<Longrightarrow> (0xFFF::int) AND push_bit (nat k) 1 \<noteq> 0"
proof -
  assume k: "0 \<le> k" "k < 12"
  have "nat k < 12" using k by linarith
  then have "bit ((0xFFF::int) AND push_bit (nat k) 1) (nat k)"
    using bit_mask_iff [of 12 "nat k", where ?'a = int] by (simp add: bit_and_iff bit_exp_iff mask_eq_exp_minus_1)
  then show ?thesis by (metis bit_0_eq bot_apply bot_bool_def)
qed

lemma filter_upto: "0 \<le> n \<Longrightarrow> n \<le> m \<Longrightarrow> filter (\<lambda>k. k < n) [0..m - 1] = [0..n - (1::int)]"
proof -
  assume n: "0 \<le> n" "n \<le> m"
  have "[0..m - 1] = [0..n - 1] @ [n..m - 1]" using upto_split1 [of 0 n "m - 1"] n by (cases "n = m") auto
  moreover have "filter (\<lambda>k. k < n) [0..n - 1] = [0..n - 1]" "filter (\<lambda>k. k < n) [n..m - 1] = []"
    by (simp_all add: filter_id_conv filter_empty_conv)
  ultimately show ?thesis by simp
qed

lemma bind_trips_wired:
  assumes "wired z l" "\<forall>t \<in> set l. ti_cdev t \<noteq> c" "0 < z_trips z" "z_trips z \<le> n" "n \<le> 12"
  defines "l' \<equiv> bind_trips (\<lambda>_. 0) n 0xFFF (z_id z) c l"
  shows "wired z l' \<and> zone_devs z l' = zone_devs z l @ [c] \<and> (\<forall>d. idle (z_trips z) d l \<longrightarrow> idle (z_trips z) d l')"
proof -
  let ?f = "fresh_insts (z_id z) c [0..n - 1]"
  have l': "l' = l @ ?f"
    unfolding l'_def bind_trips_def by (rule bind_from_fresh) (use trip_mask_bits assms in auto)
  have tc: "trips_of (z_trips z) c l' = [0..z_trips z - 1]"
    using assms(2-4) filter_upto [of "z_trips z" n] by (simp add: l' trips_of_def fresh_insts_def filter_map comp_def)
  have other: "trips_of m d l' = trips_of m d l" if "d \<noteq> c" for m d using that by (simp add: l' trips_of_def fresh_insts_def filter_map comp_def)
  have "wired z l'"
    unfolding wired_def list_all_iff
  proof (intro ballI impI)
    fix t
    assume "t \<in> set l'" and t: "ti_tz t = z_id z \<and> ti_trip t = 0"
    then consider "t \<in> set l" | "ti_cdev t = c" by (auto simp: l' fresh_insts_def)
    then show "trips_of (z_trips z) (ti_cdev t) l' = [0..z_trips z - 1]"
      using t tc other assms(1,2) by cases (auto simp: wired_def list_all_iff)
  qed
  moreover have "filter (\<lambda>t. ti_tz t = z_id z \<and> ti_trip t = 0) ?f = fresh_insts (z_id z) c [0]"
    using assms(3,4) by (simp add: fresh_insts_def filter_map comp_def upto_rec1 [of 0])
  moreover have "idle (z_trips z) d l \<longrightarrow> idle (z_trips z) d l'" for d by (auto simp: idle_def l' fresh_insts_def list_all_iff)
  ultimately show ?thesis by (simp add: zone_devs_def l' fresh_insts_def)
qed

section \<open>Properties\<close>

text \<open>The governor with the operations of the drivers of \<open>Vs_Cooler\<close>.\<close>

definition cooler_type :: "nat \<Rightarrow> vs_coolers \<Rightarrow> string" where
  "cooler_type i s = c_type (pdatas s i)"

abbreviation vs_throttle :: "vs_env \<Rightarrow> bool \<Rightarrow> vs_zone \<Rightarrow> int \<Rightarrow> vs_coolers thermal_state \<Rightarrow> (int \<times> gov_event list \<times> vs_coolers thermal_state) option" where
  "vs_throttle env logger \<equiv>
     virtual_sensor_throttle virtual_sensor_get_cur_state virtual_sensor_get_max_state (set_cur_state env) cooler_type logger"

abbreviation vs_ready :: "vs_zone \<Rightarrow> vs_coolers thermal_state \<Rightarrow> bool" where
  "vs_ready \<equiv> gov_ready coolers_ok plain_cooler virtual_sensor_get_max_state"

abbreviation level :: "vs_coolers thermal_state \<Rightarrow> nat \<Rightarrow> int" where
  "level ts \<equiv> \<lambda>c. virtual_sensor_get_cur_state c (devs ts)"

abbreviation max_of :: "vs_coolers thermal_state \<Rightarrow> nat \<Rightarrow> int" where
  "max_of ts \<equiv> \<lambda>c. virtual_sensor_get_max_state c (devs ts)"

lemma ready_range:
  assumes "vs_ready z ts" "c \<in> set (zone_devs z (insts ts))"
  shows "0 \<le> level ts c" "0 \<le> max_of ts c"
proof -
  have "coolers_ok (devs ts)" "plain_cooler c (devs ts)" using assms by (simp_all add: gov_ready_def list_all_iff)
  then show "0 \<le> level ts c" "0 \<le> max_of ts c" using cooler_range [of "devs ts" c] by linarith+
qed

text \<open>A zone with two charging devices, bound to its two trip points.\<close>

definition ex_gov_zone :: "int \<Rightarrow> vs_zone" where
  "ex_gov_zone t = (ex_zone ''virtual_sensor1'' [])\<lparr>z_temperature := t\<rparr>"

definition ex_ts :: "int \<Rightarrow> vs_coolers thermal_state" where
  "ex_ts st = \<lparr>insts = fresh_insts 1 0 [0, 1] @ fresh_insts 1 1 [0, 1], updated = (\<lambda>_. True),
     devs = ex_coolers\<lparr>pdatas := (\<lambda>j. if j = 0 then (ex_pd [150000, 100000])\<lparr>c_state := st\<rparr> else ex_pd [120000])\<rparr>\<rparr>"

lemmas ex_gov_defs = ex_gov_zone_def ex_zone_def ex_ts_def fresh_insts_def zone_devs_def

lemma ex_gov_zone_ok: "0 \<le> t \<Longrightarrow> t < 2147483648 \<Longrightarrow> gov_zone (ex_gov_zone t)"
  by (simp add: ex_gov_defs gov_zone_def zone_range_def)

lemma ex_zone_devs: "zone_devs (ex_gov_zone t) (insts (ex_ts st)) = [0, 1]"
  by (simp add: ex_gov_defs)

lemma ex_ts_ready: "0 \<le> st \<Longrightarrow> st \<le> 2 \<Longrightarrow> vs_ready (ex_gov_zone t) (ex_ts st)"
proof -
  assume "0 \<le> st" "st \<le> 2"
  then have "coolers_ok (devs (ex_ts st))" "plain_cooler 0 (devs (ex_ts st))" "plain_cooler 1 (devs (ex_ts st))"
    using ex_coolers_ok by (auto simp: coolers_ok_def ex_ts_def ex_coolers_def cpufreq_ok_def pd_ok_def ex_pd_def plain_cooler_def bound_cooler_def)
  moreover have "wired (ex_gov_zone t) (insts (ex_ts st))" by (simp add: ex_gov_defs wired_def trips_of_def upto_rec1 [of 0])
  ultimately show ?thesis
    unfolding gov_ready_def ex_zone_devs by (simp add: ex_gov_defs virtual_sensor_get_max_state_def ex_pd_def idle_def)
qed

lemma ex_level: "level (ex_ts st) 0 = st" "level (ex_ts st) 1 = 0" "max_of (ex_ts st) 0 = 2" "max_of (ex_ts st) 1 = 1"
  by (simp_all add: virtual_sensor_get_cur_state_def virtual_sensor_get_max_state_def ex_ts_def ex_pd_def)

lemma ex_reached: "reached (ex_gov_zone 50000) = 1" "reached (ex_gov_zone 44000) = 0" "reached (ex_gov_zone 30000) = 0"
  by (simp_all add: reached_def threshold_def ex_gov_defs upto_rec1 [of 0])

lemma ex_cooled: "cooled (ex_gov_zone 30000) 1" "\<not> cooled (ex_gov_zone 44000) 1"
  by (simp_all add: cooled_def threshold_def ex_gov_defs)

lemmas vs_governor = vs_cdev.governor_is_controller [where cty = cooler_type]

text \<open>
  C1: The governor, running on the cooling device drivers, refines a hysteresis controller that only knows the levels
  of the devices.  For a zone with ascending trip temperatures whose devices are bound to all of its trips, a call
  succeeds, and the level of every device of the system afterwards is the one that \<^const>\<open>controller\<close> computes from
  the temperature, the trip points and the levels before; the scan over the instances, the clearing and setting of
  targets, the update by the framework and the sorting in the drivers are all inside this statement.  The governor
  can then be called again.
\<close>

theorem governor_refines_controller:
  assumes "gov_zone z" "env_ok env" "vs_ready z ts"
  shows "\<exists>es ts'. vs_throttle env logger z 0 ts = Some (0, es, ts') \<and> vs_ready z ts' \<and> zone_devs z (insts ts') = zone_devs z (insts ts) \<and>
    level ts' = controller z (max_of ts) (zone_devs z (insts ts)) 0 (level ts)"
proof -
  obtain es ts' where "vs_throttle env logger z 0 ts = Some (0, es, ts')" "vs_ready z ts'" "shape (insts ts') = shape (insts ts)"
    "level ts' = controller z (max_of ts) (zone_devs z (insts ts)) 0 (level ts)" using vs_governor [OF assms] by blast
  then show ?thesis using zone_devs_shape [of "insts ts'" "insts ts" z] by blast
qed

theorem governor_refines_controller_witness:
  "\<exists>es ts'. vs_throttle ex_vs_env True (ex_gov_zone 50000) 0 (ex_ts 0) = Some (0, es, ts') \<and> vs_ready (ex_gov_zone 50000) ts' \<and>
    zone_devs (ex_gov_zone 50000) (insts ts') = [0, 1] \<and>
    level ts' = controller (ex_gov_zone 50000) (max_of (ex_ts 0)) [0, 1] 0 (level (ex_ts 0))"
  using governor_refines_controller [OF ex_gov_zone_ok ex_vs_env_ok(1) ex_ts_ready, of 50000 0 True] unfolding ex_zone_devs by simp

text \<open>
  C37: A hot zone throttles all of its devices.  When the temperature has reached \<open>n > 0\<close> trip points, every device of the
  zone is afterwards at level \<open>n\<close> or its deepest one, or stays at a deeper level that it already had because the
  temperature is not yet below that level's trip by its hysteresis; a device of no trip of the zone keeps its level.
\<close>

theorem hot_zone_throttles_devices:
  assumes "gov_zone z" "env_ok env" "vs_ready z ts" "0 < reached z"
  shows "\<exists>es ts'. vs_throttle env logger z 0 ts = Some (0, es, ts') \<and>
    (\<forall>c \<in> set (zone_devs z (insts ts)). let d = min (max_of ts c) (reached z) in
       level ts' c = (if level ts c > d \<and> \<not> cooled z (level ts c) then level ts c else d)) \<and>
    (\<forall>c. c \<notin> set (zone_devs z (insts ts)) \<longrightarrow> level ts' c = level ts c)"
proof -
  obtain es ts' where r: "vs_throttle env logger z 0 ts = Some (0, es, ts')"
    "level ts' = controller z (max_of ts) (zone_devs z (insts ts)) 0 (level ts)" using vs_governor [OF assms(1-3)] by blast
  have "level ts' c = (if c \<in> set (zone_devs z (insts ts)) then next_level z (max_of ts c) 0 (level ts c) else level ts c)" for c
    using fun_cong [OF r(2), of c] controller_hot [OF assms(4)] by simp
  then show ?thesis using r(1) assms(4) by (simp add: next_level_def)
qed

theorem hot_zone_throttles_devices_witness:
  "\<exists>es ts'. vs_throttle ex_vs_env True (ex_gov_zone 50000) 0 (ex_ts 0) = Some (0, es, ts') \<and> level ts' 0 = 1 \<and> level ts' 1 = 1 \<and>
    level ts' 7 = level (ex_ts 0) 7"
  using hot_zone_throttles_devices [OF ex_gov_zone_ok ex_vs_env_ok(1) ex_ts_ready, of 50000 0 True]
  unfolding ex_zone_devs ex_reached by (simp add: ex_level [simplified]) fastforce



text \<open>
  C39: The target of one device leaks into the next.  The variable that holds the target is set to 0 once and not for
  each device: in a zone below all of its trips, a first device that the hysteresis holds at its level drags a second
  one, which no trip asks to throttle, up to the same level.
\<close>

theorem held_device_throttles_next:
  assumes "gov_zone z" "env_ok env" "vs_ready z ts" "zone_devs z (insts ts) = [a, b]" "a \<noteq> b" "reached z = 0"
    and "0 < level ts a" "\<not> cooled z (level ts a)" "level ts b = 0"
  shows "\<exists>es ts'. vs_throttle env logger z 0 ts = Some (0, es, ts') \<and> level ts' b = min (max_of ts b) (level ts a)"
proof -
  obtain es ts' where r: "vs_throttle env logger z 0 ts = Some (0, es, ts')"
    "level ts' = controller z (max_of ts) [a, b] 0 (level ts)" using vs_governor [OF assms(1-3)] unfolding assms(4) by blast
  have m: "0 \<le> max_of ts a" "0 \<le> max_of ts b"
    using ready_range(2) [OF assms(3)] assms(4) by simp_all
  have "next_level z (max_of ts a) 0 (level ts a) = level ts a" using assms(6-8) m(1) by (simp add: next_level_def)
  then have "level ts' b = next_level z (max_of ts b) (level ts a) 0" using fun_cong [OF r(2), of b] assms(5,9) by simp
  then show ?thesis using r(1) assms(6,7) m(2) by (auto simp: next_level_def Let_def)
qed

theorem held_device_throttles_next_witness:
  "\<exists>es ts'. vs_throttle ex_vs_env True (ex_gov_zone 44000) 0 (ex_ts 1) = Some (0, es, ts') \<and> level ts' 1 = 1"
  using held_device_throttles_next [OF ex_gov_zone_ok ex_vs_env_ok(1) ex_ts_ready ex_zone_devs _ ex_reached(2), of 1 True] ex_cooled(2)
  by (simp add: ex_level [simplified])

text \<open>
  A negative temperature never releases a device.  The comparison with the trip less its hysteresis is unsigned, so
  below zero the temperature counts as huge and the device keeps its level, however cold the zone is; the rate of rise,
  which the zone of the wireless charger has for its temperature, is negative whenever the charger cools down.
\<close>

theorem negative_temperature_never_releases:
  assumes "z_temperature z < 0" "- 2147483648 \<le> z_temperature z" "target < st" "0 < st" "st \<le> int (length (trips (z_pdata z)))" "st < 2147483648"
    and "\<forall>t \<in> set (trips (z_pdata z)). 0 \<le> tr_hyst t \<and> tr_hyst t \<le> tr_temp t \<and> tr_temp t < 2147483648"
  shows "decide z n c st target ts = Some (st, ts)"
proof -
  define t where "t = trips (z_pdata z) ! nat (st - 1)"
  have a: "arr_get (trips (z_pdata z)) (st - 1) = Some t" unfolding t_def using assms(4,5) by (intro arr_get_ok) auto
  have "t \<in> set (trips (z_pdata z))" unfolding t_def using assms(4,5) by (intro nth_mem) auto
  then have h: "0 \<le> tr_hyst t" "tr_hyst t \<le> tr_temp t" "tr_temp t < 2147483648" using assms(7) by auto
  have "u64 (z_temperature z) = z_temperature z + 18446744073709551616"
    using assms(1,2) mod_add_self2 [of "z_temperature z" 18446744073709551616]
      mod_pos_pos_trivial [of "z_temperature z + 18446744073709551616" 18446744073709551616] by (simp add: u64_def)
  moreover have "s32 (tr_temp t) = tr_temp t" "s32 (st - 1) = st - 1" using h assms(4,6) by (auto intro!: s32_id)
  ultimately show ?thesis
    using h a assms(1-3) by (simp add: decide_def virtual_sensor_thermal_get_trip_temp_def u64_def)
qed

theorem negative_temperature_never_releases_witness:
  "decide (ex_gov_zone (- 500)) 0 0 1 0 (ex_ts 1) = Some (1, ex_ts 1)"
  by (rule negative_temperature_never_releases) (simp_all add: ex_gov_zone_def ex_zone_def)

text \<open>
  C40: Binding wires the devices the way the governor needs it: when a device that is new to the framework is bound with
  the mask that the zone driver gives, to at least as many trips as the zone uses, it comes last among the devices of
  the zone, it and all earlier ones are bound to all trips of the zone in ascending order, and no instance above them
  gets a target.
\<close>

theorem binding_wires_device:
  assumes "wired z l" "\<forall>t \<in> set l. ti_cdev t \<noteq> c" "0 < z_trips z" "z_trips z \<le> n" "n \<le> 12"
  shows "wired z (bind_trips (\<lambda>_. 0) n 0xFFF (z_id z) c l) \<and>
    zone_devs z (bind_trips (\<lambda>_. 0) n 0xFFF (z_id z) c l) = zone_devs z l @ [c] \<and>
    (\<forall>d. idle (z_trips z) d l \<longrightarrow> idle (z_trips z) d (bind_trips (\<lambda>_. 0) n 0xFFF (z_id z) c l))"
  by (rule bind_trips_wired [OF assms])

theorem binding_wires_device_witness:
  "wired (ex_gov_zone 0) (bind_trips (\<lambda>_. 0) 12 0xFFF 1 2 (insts (ex_ts 0))) \<and>
    zone_devs (ex_gov_zone 0) (bind_trips (\<lambda>_. 0) 12 0xFFF 1 2 (insts (ex_ts 0))) = [0, 1, 2]"
proof -
  have w: "wired (ex_gov_zone 0) (insts (ex_ts 0))" using ex_ts_ready [of 0 0] by (simp add: gov_ready_def)
  have z: "z_trips (ex_gov_zone 0) = 2" "z_id (ex_gov_zone 0) = 1" by (simp_all add: ex_gov_zone_def ex_zone_def)
  have c: "\<forall>t \<in> set (insts (ex_ts 0)). ti_cdev t \<noteq> 2" by (simp add: ex_ts_def fresh_insts_def)
  show ?thesis using binding_wires_device [OF w c, of 12] unfolding z ex_zone_devs by simp
qed

text \<open>
  The governor does not leave out the trips that the framework has disabled.  A trip with temperature 0 is disabled
  when the zone is registered, but if it is the last one, the scan takes it for reached at every temperature and asks
  for the deepest level of the device, even when no other trip is reached.  The zone driver registers its zones with
  the maximum of 12 trips and lowers the number only after the framework's first update of the zone.
\<close>

theorem disabled_trip_asks_deepest:
  assumes "zone_range z" "trips_of (z_trips z) c l = [0..z_trips z - 1]" "threshold z (z_trips z - 1) = 0"
  shows "\<exists>l'. cd_scan z c target l = Some (z_trips z, l')"
proof -
  have n: "0 < z_trips z" "0 \<le> z_temperature z" using assms(1) by (simp_all add: zone_range_def)
  have "[0..z_trips z - 1] = [0..z_trips z - 2] @ [z_trips z - 1]" using upto_rec2 [of 0 "z_trips z - 1"] n(1) by simp
  then have "pick z target (trips_of (z_trips z) c l) = z_trips z" using n(2) assms(3) by (simp add: assms(2) pick_def)
  then show ?thesis using cd_scan_eq [OF assms(1), of c l target] assms(2) by simp
qed

theorem disabled_trip_asks_deepest_witness:
  "\<exists>l'. cd_scan (ex_gov_zone 0\<lparr>z_pdata := (z_pdata (ex_gov_zone 0))\<lparr>trips := [\<lparr>tr_temp = 45000, tr_type = THERMAL_TRIP_PASSIVE, tr_hyst = 0\<rparr>,
      \<lparr>tr_temp = 0, tr_type = THERMAL_TRIP_ACTIVE, tr_hyst = 0\<rparr>]\<rparr>\<rparr>) 0 0 (insts (ex_ts 0)) = Some (2, l')"
  using disabled_trip_asks_deepest [of "ex_gov_zone 0\<lparr>z_pdata := (z_pdata (ex_gov_zone 0))\<lparr>trips := [\<lparr>tr_temp = 45000, tr_type = THERMAL_TRIP_PASSIVE, tr_hyst = 0\<rparr>,
      \<lparr>tr_temp = 0, tr_type = THERMAL_TRIP_ACTIVE, tr_hyst = 0\<rparr>]\<rparr>\<rparr>" 0 "insts (ex_ts 0)" 0]
  by (simp add: ex_gov_defs zone_range_def trips_of_def threshold_def upto_rec1 [of 0] del: cd_scan.simps)

end
