(* ===== verification/Vs_Update.thy ===== *)
theory Vs_Update
  imports Vs_Gov Sol_Core
begin

text \<open>
  The control loop of the thermal framework (\<^verbatim>\<open>drivers/thermal/thermal_core.c\<close>: reading a zone, handling its trips,
  queueing the next poll) and the handlers of the virtual sensor zones that run it: the shutdown notification, the
  mode, the attributes, the events of the wireless charger, and the probe
  (\<^verbatim>\<open>virtual_sensor_tablet_thermal.c\<close>, with the registration of sensors of \<^verbatim>\<open>virtual_sensor_interface.c\<close>).

  The state has the platform data and zones by their number, the foreign object detection, the cooling devices with
  their instances, the sign-of-life driver, and what has been asked of the rest of the kernel.  A zone is called by its
  number; \<open>None\<close> is a fault or a lock that is never obtained.  The field \<^verbatim>\<open>passive\<close> of a zone is 0 throughout, as this
  governor never sets it, and the governor of a zone is the one of \<open>Vs_Gov\<close>.
\<close>

section \<open>State\<close>

record vs_sys =
  zones :: "vs_zone list"
  tz_list :: "nat list"
  cdev_list :: "nat list"
  fod :: fod_algo
  wpc_work :: bool
  thermal :: "vs_coolers thermal_state"
  sol :: sol_sys
  power_off_triggered :: bool
  emergency_work :: "int option"
  orderly_poweroff :: bool
  dcap_asked :: bool
  events :: "gov_event list"

record update_env =
  zenv :: zone_env
  cenv :: vs_env
  logger :: bool
  in_suspend :: bool
  wpc_online :: int

abbreviation (input) THERMAL_TEMP_INVALID :: int where "THERMAL_TEMP_INVALID \<equiv> - 274000"
abbreviation (input) CONFIG_THERMAL_EMERGENCY_POWEROFF_DELAY_MS :: int where "CONFIG_THERMAL_EMERGENCY_POWEROFF_DELAY_MS \<equiv> 100"
abbreviation (input) TRIP_MASK :: int where "TRIP_MASK \<equiv> 0xFFF"

definition get_zone :: "nat \<Rightarrow> vs_sys \<Rightarrow> vs_zone option" where
  "get_zone i s = arr_get (zones s) (int i)"

definition put_zone :: "nat \<Rightarrow> vs_zone \<Rightarrow> vs_sys \<Rightarrow> vs_sys" where
  "put_zone i z s = s\<lparr>zones := (zones s)[i := z]\<rparr>"

section \<open>The control loop\<close>

text \<open>The poll that is queued; a long delay is rounded to whole seconds of the clock, which is not modelled.\<close>

definition thermal_zone_device_set_polling :: "int \<Rightarrow> vs_zone \<Rightarrow> vs_zone" where
  "thermal_zone_device_set_polling delay z =
     (if delay > 1000 then z\<lparr>z_poll := Some delay\<rparr>
      else if delay \<noteq> 0 then z\<lparr>z_poll := Some delay\<rparr>
      else z\<lparr>z_poll := None\<rparr>)"

definition monitor_thermal_zone :: "vs_zone \<Rightarrow> vs_zone" where
  "monitor_thermal_zone z =
     (if z_polling_delay z \<noteq> 0 then thermal_zone_device_set_polling (z_polling_delay z) z
      else thermal_zone_device_set_polling 0 z)"

definition handle_non_critical_trips :: "update_env \<Rightarrow> nat \<Rightarrow> int \<Rightarrow> vs_sys \<Rightarrow> vs_sys option" where
  "handle_non_critical_trips env i trip s = do {
     z \<leftarrow> get_zone i s;
     (_, es, th) \<leftarrow> vs_throttle (cenv env) (logger env) z trip (thermal s);
     Some (s\<lparr>thermal := th, events := events s @ es\<rparr>)
   }"

text \<open>The emergency power-off is queued with a configured delay.\<close>

definition thermal_emergency_poweroff :: "vs_sys \<Rightarrow> vs_sys" where
  "thermal_emergency_poweroff s =
     (if CONFIG_THERMAL_EMERGENCY_POWEROFF_DELAY_MS \<le> 0 then s
      else s\<lparr>emergency_work := Some CONFIG_THERMAL_EMERGENCY_POWEROFF_DELAY_MS\<rparr>)"

text \<open>
  The notification of the zone driver; saving the kernel log by a user space helper has no effect on the state, and
  \<open>dcap_asked\<close> records that the charger was asked for its discharge.
\<close>

definition virtual_sensor_thermal_notify :: "nat \<Rightarrow> int \<Rightarrow> thermal_trip_type \<Rightarrow> vs_sys \<Rightarrow> (int \<times> vs_sys) option" where
  "virtual_sensor_thermal_notify i trip ty s = do {
     let s = s\<lparr>events := events s @ [Uevent [scnprintf 20 ''SHUTDOWN_WARNING'']]\<rparr>;
     if ty = THERMAL_TRIP_CRITICAL
     then do {
       z \<leftarrow> get_zone i s;
       trip_temp \<leftarrow> virtual_sensor_thermal_get_trip_temp z trip;
       (_, l) \<leftarrow> life_cycle_set_thermal_shutdown_reason THERMAL_SHUTDOWN_REASON_PCB (sol s);
       Some (0, s\<lparr>sol := l, dcap_asked := True\<rparr>)
     }
     else Some (0, s)
   }"

definition handle_critical_trips :: "nat \<Rightarrow> int \<Rightarrow> thermal_trip_type \<Rightarrow> vs_sys \<Rightarrow> vs_sys option" where
  "handle_critical_trips i trip ty s = do {
     z \<leftarrow> get_zone i s;
     trip_temp \<leftarrow> virtual_sensor_thermal_get_trip_temp z trip;
     if trip_temp \<le> 0 \<or> z_temperature z < trip_temp then Some s
     else do {
       (_, s) \<leftarrow> virtual_sensor_thermal_notify i trip ty s;
       if ty = THERMAL_TRIP_CRITICAL \<and> \<not> power_off_triggered s
       then Some ((thermal_emergency_poweroff s)\<lparr>orderly_poweroff := True, power_off_triggered := True\<rparr>)
       else Some s
     }
   }"

definition handle_thermal_trip :: "update_env \<Rightarrow> nat \<Rightarrow> int \<Rightarrow> vs_sys \<Rightarrow> vs_sys option" where
  "handle_thermal_trip env i trip s = do {
     z \<leftarrow> get_zone i s;
     if bit (z_disabled z) (nat trip) then Some s
     else do {
       ty \<leftarrow> virtual_sensor_thermal_get_trip_type z trip;
       s \<leftarrow> (if ty = THERMAL_TRIP_CRITICAL \<or> ty = THERMAL_TRIP_HOT then handle_critical_trips i trip ty s
             else handle_non_critical_trips env i trip s);
       z \<leftarrow> get_zone i s;
       Some (put_zone i (monitor_thermal_zone z) s)
     }
   }"

text \<open>A reading that fails leaves the temperature of the zone as it was.\<close>

definition update_temperature :: "update_env \<Rightarrow> nat \<Rightarrow> vs_sys \<Rightarrow> vs_sys option" where
  "update_temperature env i s = do {
     z \<leftarrow> get_zone i s;
     (r, z, f) \<leftarrow> virtual_sensor_thermal_get_temp (zenv env) z (fod s);
     let s = s\<lparr>fod := f\<rparr>;
     Some (case r of
             Inl ret \<Rightarrow> put_zone i z s
           | Inr temp \<Rightarrow> put_zone i (z\<lparr>z_last_temperature := z_temperature z, z_temperature := temp\<rparr>) s)
   }"

fun handle_trips :: "update_env \<Rightarrow> nat \<Rightarrow> int list \<Rightarrow> vs_sys \<Rightarrow> vs_sys option" where
  "handle_trips env i [] s = Some s"
| "handle_trips env i (trip # ts) s = do { s \<leftarrow> handle_thermal_trip env i trip s; handle_trips env i ts s }"

definition thermal_zone_device_update :: "update_env \<Rightarrow> nat \<Rightarrow> vs_sys \<Rightarrow> vs_sys option" where
  "thermal_zone_device_update env i s =
     (if in_suspend env then Some s
      else do {
        s \<leftarrow> update_temperature env i s;
        z \<leftarrow> get_zone i s;
        handle_trips env i [0..z_trips z - 1] s
      })"

section \<open>Mode and attributes\<close>

definition forget_data :: "vs_zone \<Rightarrow> vs_zone" where
  "forget_data z = z\<lparr>z_pdata := (z_pdata z)\<lparr>ts_list := map (\<lambda>t. t\<lparr>td_first := False\<rparr>) (ts_list (z_pdata z))\<rparr>\<rparr>"

definition set_pd_mode :: "thermal_device_mode \<Rightarrow> vs_zone \<Rightarrow> vs_zone" where
  "set_pd_mode m z = z\<lparr>z_pdata := (z_pdata z)\<lparr>mode := m\<rparr>\<rparr>"

definition virtual_sensor_thermal_set_mode :: "update_env \<Rightarrow> nat \<Rightarrow> thermal_device_mode \<Rightarrow> vs_sys \<Rightarrow> (int \<times> vs_sys) option" where
  "virtual_sensor_thermal_set_mode env i m s = do {
     z \<leftarrow> get_zone i s;
     let m = (if is_fod_zone z \<and> wpc_online_status (fod s) = 0 then THERMAL_DEVICE_DISABLED else m);
     let z = set_pd_mode m z;
     if m = THERMAL_DEVICE_DISABLED
     then do {
       s \<leftarrow> thermal_zone_device_update env i (put_zone i (z\<lparr>z_polling_delay := 0\<rparr>) s);
       z \<leftarrow> get_zone i s;
       Some (0, put_zone i (forget_data z) s)
     }
     else Some (0, put_zone i (z\<lparr>z_work := True\<rparr>) s)
   }"

definition virtual_sensor_thermal_work :: "update_env \<Rightarrow> nat \<Rightarrow> vs_sys \<Rightarrow> vs_sys option" where
  "virtual_sensor_thermal_work env i s = do {
     z \<leftarrow> get_zone i s;
     let s = put_zone i (z\<lparr>z_work := False\<rparr>) s;
     if mode (z_pdata z) = THERMAL_DEVICE_ENABLED then thermal_zone_device_update env i s else Some s
   }"

text \<open>\<open>scan\<close> is the number \<^verbatim>\<open>sscanf\<close> found, or nothing.\<close>

definition trips_show :: "vs_zone \<Rightarrow> string" where
  "trips_show z = scnprintf 128 (print_d (z_trips z) @ [NL])"

definition trips_store :: "nat \<Rightarrow> int option \<Rightarrow> nat \<Rightarrow> vs_sys \<Rightarrow> (int \<times> vs_sys) option" where
  "trips_store i scan len s = do {
     z \<leftarrow> get_zone i s;
     case scan of
       None \<Rightarrow> Some (- EINVAL, s)
     | Some n \<Rightarrow> if n < 0 then Some (- EINVAL, s)
                 else Some (int len, put_zone i (z\<lparr>z_trips := n, z_pdata := (z_pdata z)\<lparr>num_trips := n\<rparr>\<rparr>) s)
   }"

definition polling_show :: "vs_zone \<Rightarrow> string" where
  "polling_show z = scnprintf 128 (print_d (z_polling_delay z) @ [NL])"

definition polling_store :: "update_env \<Rightarrow> nat \<Rightarrow> int option \<Rightarrow> nat \<Rightarrow> vs_sys \<Rightarrow> (int \<times> vs_sys) option" where
  "polling_store env i scan len s = do {
     z \<leftarrow> get_zone i s;
     case scan of
       None \<Rightarrow> Some (- EINVAL, s)
     | Some delay \<Rightarrow>
         if delay < 0 then Some (- EINVAL, s)
         else do {
           let s = put_zone i (z\<lparr>z_polling_delay := delay, z_pdata := (z_pdata z)\<lparr>pd_polling_delay := delay\<rparr>\<rparr>) s;
           s \<leftarrow> (if is_fod_zone z
                 then let s = s\<lparr>fod := (fod s)\<lparr>polling_interval := delay\<rparr>\<rparr>
                      in if wpc_online env \<noteq> 0 then thermal_zone_device_update env i s else Some s
                 else thermal_zone_device_update env i s);
           Some (int len, s)
         }
   }"

fun params_line :: "(thermal_dev \<Rightarrow> int) \<Rightarrow> thermal_dev list \<Rightarrow> string \<Rightarrow> string" where
  "params_line f [] buf = buf"
| "params_line f (t # ts) buf = params_line f ts (buf @ scnprintf (128 - length buf) (print_d (f t) @ '' ''))"

definition params_show :: "vs_zone \<Rightarrow> string" where
  "params_show z =
     (let ts = ts_list (z_pdata z)
      in scnprintf 390 (params_line td_offset ts ''offsets '' @ [NL] @ params_line td_alpha ts ''alphas '' @ [NL] @
           params_line td_weight ts ''weights '' @ [NL]))"

section \<open>Foreign object detection\<close>

definition fod_delay_show :: "fod_algo \<Rightarrow> string" where
  "fod_delay_show f = scnprintf 128 (print_d (s32 (work_delay f)) @ [NL])"

definition fod_delay_store :: "string \<Rightarrow> fod_algo \<Rightarrow> int \<times> fod_algo" where
  "fod_delay_store buf f =
     (case kstrtouint buf 0 of
        Inl _ \<Rightarrow> (- EINVAL, f)
      | Inr delay \<Rightarrow> (int (length buf), f\<lparr>work_delay := delay\<rparr>))"

definition window_size_show :: "fod_algo \<Rightarrow> string" where
  "window_size_show f = scnprintf 128 (print_d (s32 (window_size f)) @ [NL])"

text \<open>
  The new ring has zeroes in the allocated nodes and keeps the value of the node inside the structure; \<open>allocs\<close> is how
  many nodes can be allocated.  On failure the function returns without unlocking.
\<close>

definition window_size_store :: "string \<Rightarrow> nat \<Rightarrow> fod_algo \<Rightarrow> (int \<times> fod_algo) option" where
  "window_size_store buf allocs f =
     (case kstrtouint buf 0 of
        Inl _ \<Rightarrow> Some (- EINVAL, f)
      | Inr sz \<Rightarrow>
          if sz < 2 then Some (- EINVAL, f)
          else if fod_locked f then None
          else let f = f\<lparr>window_size := sz, fod_cur := 0\<rparr>;
                   ring = (\<lambda>n. take 1 (fod_ring f) @ replicate n 0)
               in if int allocs < sz - 1
                  then Some (- ENOMEM, f\<lparr>fod_ring := ring allocs, fod_locked := True\<rparr>)
                  else Some (int (length buf), f\<lparr>fod_ring := ring (nat (sz - 1)), fod_temp_cnt := 0\<rparr>))"

text \<open>The first device of the zone with the name of the wireless charging cooler is set back to state 0.\<close>

fun reset_wpc_at :: "vs_env \<Rightarrow> nat \<Rightarrow> nat list \<Rightarrow> vs_coolers thermal_state \<Rightarrow> vs_coolers thermal_state option" where
  "reset_wpc_at env tz [] ts = Some ts"
| "reset_wpc_at env tz (n # ns) ts =
     (let t = insts ts ! n; c = ti_cdev t
      in if ti_tz t \<noteq> tz \<or> cooler_type c (devs ts) \<noteq> ''wpc_bcct1'' then reset_wpc_at env tz ns ts
         else if virtual_sensor_get_cur_state c (devs ts) > 0
         then do {
           let ts = ts\<lparr>insts := (insts ts)[n := t\<lparr>ti_target := 0\<rparr>]\<rparr>;
           (_, d) \<leftarrow> set_cur_state env c 0 (devs ts);
           Some (ts\<lparr>devs := d\<rparr>)
         }
         else Some ts)"

definition reset_wpc_cooler :: "vs_env \<Rightarrow> vs_zone \<Rightarrow> vs_coolers thermal_state \<Rightarrow> vs_coolers thermal_state option" where
  "reset_wpc_cooler env z ts = reset_wpc_at env (z_id z) [0..<length (insts ts)] ts"

text \<open>Names are compared up to case, by their first \<^verbatim>\<open>THERMAL_NAME_LENGTH\<close> characters; the zone has to be the only one.\<close>

definition tolower :: "char \<Rightarrow> char" where
  "tolower c =
     (let n = of_char c :: nat
      in if 65 \<le> n \<and> n \<le> 90 \<or> 192 \<le> n \<and> n \<le> 214 \<or> 216 \<le> n \<and> n \<le> 222 then char_of (n + 32) else c)"

fun strncasecmp :: "string \<Rightarrow> string \<Rightarrow> nat \<Rightarrow> int" where
  "strncasecmp s1 s2 0 = 0"
| "strncasecmp [] [] (Suc len) = 0"
| "strncasecmp (c1 # s1) [] (Suc len) = of_char c1"
| "strncasecmp [] (c2 # s2) (Suc len) = - of_char c2"
| "strncasecmp (c1 # s1) (c2 # s2) (Suc len) =
     (if c1 = c2 \<or> tolower c1 = tolower c2 then strncasecmp s1 s2 len
      else of_char (tolower c1) - of_char (tolower c2))"

definition thermal_zone_get_zone_by_name :: "string \<Rightarrow> vs_sys \<Rightarrow> int + nat" where
  "thermal_zone_get_zone_by_name name s =
     (case filter (\<lambda>i. i < length (zones s) \<and> strncasecmp name (z_type (zones s ! i)) THERMAL_NAME_LENGTH = 0) (tz_list s) of
        [] \<Rightarrow> Inl (- ENODEV)
      | [i] \<Rightarrow> Inr i
      | _ \<Rightarrow> Inl (- EEXIST))"

definition wpc_online_work :: "update_env \<Rightarrow> vs_sys \<Rightarrow> vs_sys option" where
  "wpc_online_work env s =
     (let s = s\<lparr>wpc_work := False\<rparr>
      in case thermal_zone_get_zone_by_name ''virtual_sensor4'' s of
           Inl err \<Rightarrow> Some s
         | Inr i \<Rightarrow> do {
             z \<leftarrow> get_zone i s;
             if wpc_online_status (fod s) \<noteq> 0
             then do {
               let z = set_pd_mode THERMAL_DEVICE_ENABLED z;
               let z = (if z_polling_delay z = 0 then z\<lparr>z_polling_delay := s32 (polling_interval (fod s))\<rparr> else z);
               th \<leftarrow> reset_wpc_cooler (cenv env) z (thermal s);
               Some ((put_zone i (z\<lparr>z_work := True\<rparr>) s)\<lparr>thermal := th\<rparr>)
             }
             else do {
               let z = set_pd_mode THERMAL_DEVICE_DISABLED z;
               let f = (if polling_interval (fod s) = 0 then (fod s)\<lparr>polling_interval := wrap_u32 (z_polling_delay z)\<rparr> else fod s);
               let z = forget_data (z\<lparr>z_poll := None, z_polling_delay := 0\<rparr>);
               if fod_locked f then None
               else Some ((put_zone i z s)\<lparr>fod := f\<lparr>fod_cur := 1 mod length (fod_ring f), timer_start := (0, 0), fod_temp_cnt := 0\<rparr>\<rparr>)
             }
           })"

text \<open>\<open>online\<close> is what the power supply answers.\<close>

definition wpc_online_event :: "bool \<Rightarrow> bool \<Rightarrow> string \<Rightarrow> int + int \<Rightarrow> vs_sys \<Rightarrow> vs_sys" where
  "wpc_online_event system_running prop_changed name online s =
     (if \<not> system_running then s
      else if prop_changed \<and> name = ''Wireless''
      then case online of
             Inl ret \<Rightarrow> s
           | Inr v \<Rightarrow> if wpc_online_status (fod s) \<noteq> wrap_u32 v
                      then s\<lparr>fod := (fod s)\<lparr>wpc_online_status := wrap_u32 v\<rparr>, wpc_work := True\<rparr>
                      else s
      else s)"

section \<open>Binding devices\<close>

text \<open>The slots of the bind parameters; a slot that has a device is passed over, the others ask \<^const>\<open>match\<close>.\<close>

fun bind_slots :: "(int \<Rightarrow> int) \<Rightarrow> nat \<Rightarrow> string \<Rightarrow> nat list \<Rightarrow> vs_zone \<Rightarrow> thermal_instance list \<Rightarrow> vs_zone \<times> thermal_instance list" where
  "bind_slots setup c ty [] z l = (z, l)"
| "bind_slots setup c ty (k # ks) z l =
     (if z_tbps z ! k \<noteq> None \<or> match z ty \<noteq> 0 then bind_slots setup c ty ks z l
      else bind_slots setup c ty ks (z\<lparr>z_tbps := (z_tbps z)[k := Some ty]\<rparr>) (bind_trips setup (z_trips z) TRIP_MASK (z_id z) c l))"

fun bind_tz :: "(nat \<Rightarrow> int \<Rightarrow> int) \<Rightarrow> (nat \<Rightarrow> string) \<Rightarrow> nat list \<Rightarrow> vs_zone \<Rightarrow> thermal_instance list \<Rightarrow> vs_zone \<times> thermal_instance list" where
  "bind_tz setup ty [] z l = (z, l)"
| "bind_tz setup ty (c # cs) z l =
     (let (z, l) = bind_slots (setup c) c (ty c) [0..<length (z_tbps z)] z l in bind_tz setup ty cs z l)"

fun bind_cdev :: "(nat \<Rightarrow> int \<Rightarrow> int) \<Rightarrow> nat \<Rightarrow> string \<Rightarrow> nat list \<Rightarrow> vs_zone list \<Rightarrow> thermal_instance list \<Rightarrow> vs_zone list \<times> thermal_instance list" where
  "bind_cdev setup c ty [] zs l = (zs, l)"
| "bind_cdev setup c ty (i # is) zs l =
     (let (z, l) = bind_slots (setup i) c ty [0..<length (z_tbps (zs ! i))] (zs ! i) l
      in bind_cdev setup c ty is (zs[i := z]) l)"

section \<open>Sensors and zones from the device tree\<close>

definition pd_zero :: vs_thermal_platform_data where
  "pd_zero = \<lparr>num_trips = 0, mode = THERMAL_DEVICE_DISABLED, pd_polling_delay = 0, ts_list = [],
     trips = replicate THERMAL_MAX_TRIPS \<lparr>tr_temp = 0, tr_type = THERMAL_TRIP_ACTIVE, tr_hyst = 0\<rparr>,
     num_cdevs = 0, cdev_names = replicate THERMAL_MAX_TRIPS []\<rparr>"

definition zone_zero :: "nat \<Rightarrow> vs_zone" where
  "zone_zero i = \<lparr>z_id = i, z_type = [], z_trips = 0, z_disabled = 0, z_temperature = 0, z_last_temperature = 0, z_polling_delay = 0,
     z_poll = None, z_work = False, z_query_count = 0, z_mask = 0, z_tbps = [], z_pdata = pd_zero\<rparr>"

text \<open>\<open>nodes\<close> is the number of available nodes of the device tree.\<close>

definition init_vs_thermal_platform_data :: "nat \<Rightarrow> bool \<Rightarrow> vs_sys \<Rightarrow> int \<times> vs_sys" where
  "init_vs_thermal_platform_data nodes alloc s =
     (if \<not> alloc then (- ENOMEM, s\<lparr>zones := []\<rparr>) else (0, s\<lparr>zones := map zone_zero [0..<nodes]\<rparr>))"

definition thermal_dev_register :: "thermal_dev \<Rightarrow> vs_sys \<Rightarrow> (int \<times> vs_sys) option" where
  "thermal_dev_register tdev s = do {
     let k = (if td_select tdev < int (length (zones s)) then td_select tdev else 0);
     z \<leftarrow> arr_get (zones s) k;
     Some (0, put_zone (nat k) (z\<lparr>z_pdata := (z_pdata z)\<lparr>ts_list := ts_list (z_pdata z) @ [tdev]\<rparr>\<rparr>) s)
   }"

definition virtual_sensor_thermal_sensor_probe :: "bool \<Rightarrow> bool \<Rightarrow> bool \<Rightarrow> sensor_dt \<Rightarrow> vs_sys \<Rightarrow> (int \<times> vs_sys) option" where
  "virtual_sensor_thermal_sensor_probe alloc1 alloc2 alloc3 np s =
     (if \<not> alloc1 \<or> \<not> alloc2 \<or> \<not> alloc3 then Some (- ENOMEM, s)
      else do {
        let zero = \<lparr>td_name = ''virtual_sensor_thermal_sensor'', td_offset = 0, td_alpha = 0, td_weight = 0, td_select = 0, td_sensor_id = 0,
          td_aux = 0, td_off_temp = 0, td_first = False\<rparr>;
        (ret, s) \<leftarrow> thermal_dev_register (thermal_sensor_dt_to_params np zero) s;
        Some (if ret \<noteq> 0 then - EINVAL else 0, s)
      })"

record zone_dt =
  dt_dev_id :: "int option"
  dt_num_trips :: "int option"
  dt_polling_delay :: "int option"
  dt_num_tbps :: "int option"
  dt_temp :: "int list option"
  dt_trip_type :: "int list option"
  dt_hyst :: "int list option"
  dt_num_cdevs :: "int option"
  dt_cdev_names :: "nat \<Rightarrow> string option"
  tbp_alloc :: bool

definition virtual_sensor_thermal_parse_node_int_array :: "int list option \<Rightarrow> int list \<Rightarrow> int list" where
  "virtual_sensor_thermal_parse_node_int_array prop tripsdata =
     (case prop of None \<Rightarrow> tripsdata | Some arr \<Rightarrow> if length arr < THERMAL_MAX_TRIPS then tripsdata else map wrap_u32 (take THERMAL_MAX_TRIPS arr))"

definition convert_type :: "int \<Rightarrow> trip_t \<Rightarrow> trip_t" where
  "convert_type d t =
     (if d = 0 then t\<lparr>tr_type := THERMAL_TRIP_ACTIVE\<rparr>
      else if d = 1 then t\<lparr>tr_type := THERMAL_TRIP_PASSIVE\<rparr>
      else if d = 2 then t\<lparr>tr_type := THERMAL_TRIP_HOT\<rparr>
      else if d = 3 then t\<lparr>tr_type := THERMAL_TRIP_CRITICAL\<rparr>
      else t)"

definition virtual_sensor_thermal_tripsdata_convert :: "string \<Rightarrow> int list \<Rightarrow> trip_t list \<Rightarrow> trip_t list" where
  "virtual_sensor_thermal_tripsdata_convert ty tripsdata ts =
     (if take 4 ty = ''type'' then map2 convert_type tripsdata ts
      else if take 4 ty = ''temp'' then map2 (\<lambda>d t. t\<lparr>tr_temp := d\<rparr>) tripsdata ts
      else map2 (\<lambda>d t. t\<lparr>tr_hyst := d\<rparr>) tripsdata ts)"

text \<open>The buffer is not cleared between the properties: one that cannot be read takes the values of the one before.\<close>

definition virtual_sensor_thermal_init_trips :: "zone_dt \<Rightarrow> trip_t list \<Rightarrow> trip_t list" where
  "virtual_sensor_thermal_init_trips np ts =
     (let d = virtual_sensor_thermal_parse_node_int_array (dt_temp np) (replicate THERMAL_MAX_TRIPS 0);
          ts = virtual_sensor_thermal_tripsdata_convert ''temp'' d ts;
          d = virtual_sensor_thermal_parse_node_int_array (dt_trip_type np) d;
          ts = virtual_sensor_thermal_tripsdata_convert ''type'' d ts;
          d = virtual_sensor_thermal_parse_node_int_array (dt_hyst np) d
      in virtual_sensor_thermal_tripsdata_convert ''hyst'' d ts)"

fun parse_cdevs :: "(nat \<Rightarrow> string option) \<Rightarrow> nat \<Rightarrow> nat \<Rightarrow> string list \<Rightarrow> string list option" where
  "parse_cdevs names i 0 cs = Some cs"
| "parse_cdevs names i (Suc n) cs = do {
     c \<leftarrow> parse_node_string (names i) THERMAL_NAME_LENGTH (cs ! i);
     parse_cdevs names (i + 1) n (cs[i := c])
   }"

text \<open>
  The mode that the device tree gives is overwritten by the probe before anything reads it, and is left out, as is the
  name of the governor.
\<close>

definition virtual_sensor_thermal_init_cust_data_from_dt :: "zone_dt \<Rightarrow> vs_sys \<Rightarrow> (int \<times> nat \<times> vs_sys) option" where
  "virtual_sensor_thermal_init_cust_data_from_dt np s =
     (let dev_id = thermal_parse_node_int (dt_dev_id np) 0 in
      if wrap_u32 dev_id \<ge> int (length (zones s)) then Some (- 1, 0, s)
      else do {
        z \<leftarrow> get_zone (nat dev_id) s;
        let pd = z_pdata z;
        let n = thermal_parse_node_int (dt_num_cdevs np) (num_cdevs pd);
        let n = (if n > int THERMAL_MAX_TRIPS then int THERMAL_MAX_TRIPS else n);
        names \<leftarrow> parse_cdevs (dt_cdev_names np) 0 (nat n) (cdev_names pd);
        let pd = pd\<lparr>num_trips := thermal_parse_node_int (dt_num_trips np) (num_trips pd),
          pd_polling_delay := thermal_parse_node_int (dt_polling_delay np) (pd_polling_delay pd),
          trips := virtual_sensor_thermal_init_trips np (trips pd), num_cdevs := n, cdev_names := names\<rparr>;
        let num_tbps = thermal_parse_node_int (dt_num_tbps np) 0;
        if \<not> tbp_alloc np then Some (- ENOMEM, nat dev_id, put_zone (nat dev_id) (z\<lparr>z_pdata := pd\<rparr>) s)
        else Some (0, nat dev_id, put_zone (nat dev_id) (z\<lparr>z_pdata := pd, z_tbps := replicate (nat num_tbps) None\<rparr>) s)
      })"

text \<open>The trips that the framework disables: those whose temperature is 0.\<close>

fun disabled_trips :: "int list \<Rightarrow> trip_t list \<Rightarrow> int" where
  "disabled_trips [] ts = 0"
| "disabled_trips (k # ks) ts =
     (if s32 (tr_temp (ts ! nat k)) = 0 then set_bit (nat k) (disabled_trips ks ts) else disabled_trips ks ts)"

record register_env =
  tz_ok :: bool
  tz_error :: int
  inst_setup :: "nat \<Rightarrow> int \<Rightarrow> int"

definition thermal_zone_device_register :: "register_env \<Rightarrow> update_env \<Rightarrow> nat \<Rightarrow> string \<Rightarrow> vs_sys \<Rightarrow> (int \<times> vs_sys) option" where
  "thermal_zone_device_register renv env i ty s =
     (if \<not> tz_ok renv then Some (tz_error renv, s)
      else do {
        z \<leftarrow> get_zone i s;
        let z = z\<lparr>z_type := ty, z_trips := int THERMAL_MAX_TRIPS, z_polling_delay := pd_polling_delay (z_pdata z),
          z_disabled := disabled_trips [0..int THERMAL_MAX_TRIPS - 1] (trips (z_pdata z))\<rparr>;
        let (z, l) = bind_tz (inst_setup renv) (\<lambda>c. cooler_type c (devs (thermal s))) (cdev_list s) z (insts (thermal s));
        let z = z\<lparr>z_temperature := THERMAL_TEMP_INVALID\<rparr>;
        s \<leftarrow> thermal_zone_device_update env i
              ((put_zone i z s)\<lparr>tz_list := tz_list s @ [i], thermal := (thermal s)\<lparr>insts := l\<rparr>\<rparr>);
        Some (0, s)
      })"

text \<open>
  When the registration fails, the probe frees memory that belongs to the device, which is freed with the device again.
\<close>

definition virtual_sensor_thermal_probe :: "register_env \<Rightarrow> update_env \<Rightarrow> bool \<Rightarrow> int \<Rightarrow> zone_dt \<Rightarrow> vs_sys \<Rightarrow> (int \<times> vs_sys) option" where
  "virtual_sensor_thermal_probe renv env alloc sysfs_ret np s = do {
     (ret, i, s) \<leftarrow> virtual_sensor_thermal_init_cust_data_from_dt np s;
     if ret \<noteq> 0 then Some (ret, s)
     else if \<not> alloc then Some (- ENOMEM, s)
     else do {
       (err, s) \<leftarrow> thermal_zone_device_register renv env i (scnprintf 20 (''virtual_sensor'' @ print_d (int i + 1))) s;
       if err \<noteq> 0 then None
       else do {
         z \<leftarrow> get_zone i s;
         let z = z\<lparr>z_trips := num_trips (z_pdata z), z_mask := 0x3FF\<rparr>;
         let z = set_pd_mode (if z_polling_delay z = 0 then THERMAL_DEVICE_DISABLED else THERMAL_DEVICE_ENABLED) z;
         Some (sysfs_ret, put_zone i z s)
       }
     }
   }"

text \<open>The detection of foreign objects; a failed allocation goes to a clean-up that uses the pointer not yet set.\<close>

definition virtual_sensor_fod_init :: "bool \<Rightarrow> int \<Rightarrow> nat \<Rightarrow> (int \<times> fod_algo option) option" where
  "virtual_sensor_fod_init alloc reg_ret nodes =
     (if \<not> alloc then Some (- ENOMEM, None)
      else if reg_ret < 0 then Some (reg_ret, None)
      else if nodes < 4 then None
      else Some (reg_ret, Some \<lparr>work_delay = 0, window_size = 5, polling_interval = 2000, wpc_online_status = 0, fod_temp_cnt = 0,
             fod_ring = replicate 5 0, fod_cur = 0, timer_start = (0, 0), fod_locked = False\<rparr>))"

section \<open>What the control loop depends on\<close>

definition ctl :: "vs_zone \<Rightarrow> nat \<times> int \<times> int \<times> int \<times> int \<times> trip_t list" where
  "ctl z = (z_id z, z_trips z, z_disabled z, z_polling_delay z, z_temperature z, trips (z_pdata z))"

lemma ctlD:
  assumes "ctl z' = ctl z"
  shows "z_id z' = z_id z" "z_trips z' = z_trips z" "z_disabled z' = z_disabled z" "z_polling_delay z' = z_polling_delay z"
    "z_temperature z' = z_temperature z" "trips (z_pdata z') = trips (z_pdata z)"
  using assms by (simp_all add: ctl_def)

lemma ctl_cong:
  assumes "ctl z' = ctl z"
  shows "gov_zone z' = gov_zone z" "threshold z' = threshold z" "reached z' = reached z" "cooled z' = cooled z"
    "zone_devs z' = zone_devs z" "wired z' = wired z"
  using ctlD [OF assms]
  by (simp_all add: gov_zone_def zone_range_def threshold_def [abs_def] reached_def cooled_def [abs_def] zone_devs_def [abs_def] wired_def [abs_def])

lemma ctl_next_level: "ctl z' = ctl z \<Longrightarrow> next_level z' m k st = next_level z m k st"
  using ctl_cong(3,4) [of z' z] by (simp add: next_level_def)

lemma ctl_controller:
  assumes "ctl z' = ctl z"
  shows "controller z' m cs k st = controller z m cs k st"
  by (induction cs arbitrary: k st) (simp_all add: ctl_next_level [OF assms])

lemma ctl_ready: "ctl z' = ctl z \<Longrightarrow> gov_ready ok plain mx z' ts = gov_ready ok plain mx z ts"
  using ctl_cong(5,6) [of z' z] ctlD(2) [of z' z] by (simp add: gov_ready_def)

lemma ctl_monitor: "ctl (monitor_thermal_zone z) = ctl z"
  by (simp add: ctl_def monitor_thermal_zone_def thermal_zone_device_set_polling_def)

definition next_poll :: "vs_zone \<Rightarrow> int option" where
  "next_poll z = (if z_polling_delay z \<noteq> 0 then Some (z_polling_delay z) else None)"

lemma monitor_poll: "z_poll (monitor_thermal_zone z) = next_poll z"
  by (simp add: next_poll_def monitor_thermal_zone_def thermal_zone_device_set_polling_def)

lemma get_put_zone: "get_zone i s = Some z \<Longrightarrow> get_zone i (put_zone i z' s) = Some z'"
  by (auto simp: get_zone_def put_zone_def arr_get_def split: if_splits)

lemma put_zone_simps [simp]:
  "thermal (put_zone i z s) = thermal s" "sol (put_zone i z s) = sol s" "power_off_triggered (put_zone i z s) = power_off_triggered s"
  "orderly_poweroff (put_zone i z s) = orderly_poweroff s" "emergency_work (put_zone i z s) = emergency_work s" "fod (put_zone i z s) = fod s"
  by (simp_all add: put_zone_def)

section \<open>One trip\<close>

definition enabled :: "vs_zone \<Rightarrow> int \<Rightarrow> bool" where
  "enabled z k \<longleftrightarrow> \<not> bit (z_disabled z) (nat k)"

definition trip_type :: "vs_zone \<Rightarrow> int \<Rightarrow> thermal_trip_type" where
  "trip_type z k = tr_type (trips (z_pdata z) ! nat k)"

definition trip_hit :: "vs_zone \<Rightarrow> int \<Rightarrow> bool" where
  "trip_hit z k \<longleftrightarrow> enabled z k \<and> trip_type z k = THERMAL_TRIP_CRITICAL \<and> 0 < threshold z k \<and> threshold z k \<le> z_temperature z"

definition throttles :: "vs_zone \<Rightarrow> int \<Rightarrow> bool" where
  "throttles z k \<longleftrightarrow> k = 0 \<and> enabled z k \<and> trip_type z k \<noteq> THERMAL_TRIP_CRITICAL \<and> trip_type z k \<noteq> THERMAL_TRIP_HOT"

definition pcb_reason :: "(life_reason_type \<times> life_cycle_reason_t) list" where
  "pcb_reason = [(THERMAL_SHUTDOWN, THERMAL_SHUTDOWN_REASON_PCB)]"

definition off_ok :: "vs_sys \<Rightarrow> bool" where
  "off_ok s \<longleftrightarrow> (power_off_triggered s \<longrightarrow> orderly_poweroff s \<and> emergency_work s = Some CONFIG_THERMAL_EMERGENCY_POWEROFF_DELAY_MS)"

text \<open>What one trip does to the system, and what it leaves as it was.\<close>

definition trip_effect :: "vs_zone \<Rightarrow> nat \<Rightarrow> int \<Rightarrow> vs_sys \<Rightarrow> vs_sys \<Rightarrow> bool" where
  "trip_effect z i k s s' \<longleftrightarrow>
     sol_sets (if trip_hit z k then pcb_reason else []) (sol s) = Some (sol s') \<and>
     power_off_triggered s' = (power_off_triggered s \<or> trip_hit z k) \<and> off_ok s' \<and>
     zone_devs z (insts (thermal s')) = zone_devs z (insts (thermal s)) \<and> max_of (thermal s') = max_of (thermal s) \<and>
     level (thermal s') =
       (if throttles z k then controller z (max_of (thermal s)) (zone_devs z (insts (thermal s))) 0 (level (thermal s))
        else level (thermal s))"

lemma critical_trip_ok:
  assumes "get_zone i s = Some z" "gov_zone z" "running (sol s)" "0 \<le> k" "k < z_trips z" "off_ok s" "enabled z k"
    and "trip_type z k = THERMAL_TRIP_CRITICAL \<or> trip_type z k = THERMAL_TRIP_HOT"
  shows "\<exists>s'. handle_critical_trips i k (trip_type z k) s = Some s' \<and> trip_effect z i k s s' \<and> running (sol s') \<and>
    get_zone i s' = Some z \<and> thermal s' = thermal s"
proof -
  have zr: "zone_range z" using assms(2) by (simp add: gov_zone_def)
  note t = zone_trip(1) [OF zr assms(4,5)]
  have gz: "get_zone i (s\<lparr>events := e\<rparr>) = Some z" for e using assms(1) by (simp add: get_zone_def)
  have st: "sol_set THERMAL_SHUTDOWN THERMAL_SHUTDOWN_REASON_PCB (sol s) =
      Some (0, (sol s)\<lparr>platform := snd (sol_write THERMAL_SHUTDOWN THERMAL_SHUTDOWN_REASON_PCB (platform (sol s)))\<rparr>)"
    using sol_set_running [OF assms(3)] .
  show ?thesis
  proof (cases "threshold z k \<le> 0 \<or> z_temperature z < threshold z k")
    case True
    then show ?thesis
      using assms t by (auto simp: handle_critical_trips_def trip_effect_def trip_hit_def throttles_def)
  next
    case False
    then show ?thesis
      using assms t gz st
      by (auto simp: handle_critical_trips_def virtual_sensor_thermal_notify_def trip_effect_def trip_hit_def throttles_def
          pcb_reason_def off_ok_def thermal_emergency_poweroff_def get_zone_def simp del: sol_write.simps)
  qed
qed


lemma other_trip_ok:
  assumes "get_zone i s = Some z" "gov_zone z" "env_ok (cenv env)" "vs_ready z (thermal s)" "running (sol s)" "0 \<le> k" "off_ok s"
    and "enabled z k" "trip_type z k \<noteq> THERMAL_TRIP_CRITICAL" "trip_type z k \<noteq> THERMAL_TRIP_HOT"
  shows "\<exists>s'. handle_non_critical_trips env i k s = Some s' \<and> trip_effect z i k s s' \<and> running (sol s') \<and>
    get_zone i s' = Some z \<and> vs_ready z (thermal s')"
proof (cases "k = 0")
  case True
  obtain es th where t: "vs_throttle (cenv env) (logger env) z 0 (thermal s) = Some (0, es, th)" "vs_ready z th"
    "shape (insts th) = shape (insts (thermal s))" "\<forall>j. max_of th j = max_of (thermal s) j"
    "level th = controller z (max_of (thermal s)) (zone_devs z (insts (thermal s))) 0 (level (thermal s))"
    using vs_governor [OF assms(2-4), of "logger env"] by blast
  have "max_of th = max_of (thermal s)" using t(4) by blast
  moreover have "throttles z k" "\<not> trip_hit z k" using True assms(8-10) by (simp_all add: throttles_def trip_hit_def)
  ultimately show ?thesis
    using t zone_devs_shape [OF t(3)] True assms(1,5,7)
    by (simp add: handle_non_critical_trips_def trip_effect_def off_ok_def get_zone_def)
next
  case False
  then show ?thesis
    using assms
    by (simp add: handle_non_critical_trips_def virtual_sensor_throttle_def trip_effect_def throttles_def trip_hit_def off_ok_def get_zone_def)
qed

lemma trip_ok:
  assumes "get_zone i s = Some z" "gov_zone z" "env_ok (cenv env)" "vs_ready z (thermal s)" "running (sol s)" "off_ok s"
    and "0 \<le> k" "k < z_trips z"
  shows "\<exists>s' z'. handle_thermal_trip env i k s = Some s' \<and> trip_effect z i k s s' \<and> running (sol s') \<and>
    get_zone i s' = Some z' \<and> ctl z' = ctl z \<and> z_poll z' = (if enabled z k then next_poll z else z_poll z) \<and> vs_ready z (thermal s')"
proof (cases "enabled z k")
  case False
  then show ?thesis
    using assms by (simp add: handle_thermal_trip_def enabled_def trip_effect_def trip_hit_def throttles_def)
next
  case True
  have zr: "zone_range z" using assms(2) by (simp add: gov_zone_def)
  have ty: "virtual_sensor_thermal_get_trip_type z k = Some (trip_type z k)"
    using zone_trip(2) [OF zr assms(7,8)] by (simp add: virtual_sensor_thermal_get_trip_type_def trip_type_def)
  let ?h = "if trip_type z k = THERMAL_TRIP_CRITICAL \<or> trip_type z k = THERMAL_TRIP_HOT then handle_critical_trips i k (trip_type z k) s
    else handle_non_critical_trips env i k s"
  obtain s1 where s1: "?h = Some s1" "trip_effect z i k s s1" "running (sol s1)" "get_zone i s1 = Some z" "vs_ready z (thermal s1)"
  proof (cases "trip_type z k = THERMAL_TRIP_CRITICAL \<or> trip_type z k = THERMAL_TRIP_HOT")
    case c: True
    then show ?thesis using critical_trip_ok [OF assms(1,2,5,7,8,6) True c] assms(4) that by auto
  next
    case c: False
    then show ?thesis using other_trip_ok [OF assms(1-5,7,6) True] that by auto
  qed
  have "handle_thermal_trip env i k s = Some (put_zone i (monitor_thermal_zone z) s1)"
    using assms(1) True ty s1(1,4) by (simp add: handle_thermal_trip_def enabled_def)
  moreover have "trip_effect z i k s (put_zone i (monitor_thermal_zone z) s1)"
    using s1(2) by (simp add: trip_effect_def off_ok_def)
  ultimately show ?thesis
    using s1(3-5) True get_put_zone [OF s1(4)] by (simp add: ctl_monitor monitor_poll)
qed

lemma sol_sets_append: "sol_sets (ws @ ws') l = Option.bind (sol_sets ws l) (sol_sets ws')"
proof (induction ws arbitrary: l)
  case (Cons w ws)
  obtain ty r where w: "w = (ty, r)" by (cases w)
  show ?case by (cases "sol_set ty r l") (simp_all add: w Cons.IH split_def)
qed simp

text \<open>All trips of a list; \<open>n\<close> is how often the reason was set.\<close>

definition trips_effect :: "vs_zone \<Rightarrow> nat \<Rightarrow> int list \<Rightarrow> vs_sys \<Rightarrow> vs_sys \<Rightarrow> vs_zone \<Rightarrow> nat \<Rightarrow> bool" where
  "trips_effect z i ks s s' z' n \<longleftrightarrow> running (sol s') \<and> get_zone i s' = Some z' \<and> ctl z' = ctl z \<and>
    vs_ready z (thermal s') \<and> z_poll z' = (if list_ex (enabled z) ks then next_poll z else z_poll z) \<and>
    (n = 0) = (\<not> list_ex (trip_hit z) ks) \<and>
    sol_sets (concat (replicate n pcb_reason)) (sol s) = Some (sol s') \<and>
    power_off_triggered s' = (power_off_triggered s \<or> list_ex (trip_hit z) ks) \<and> off_ok s' \<and>
    zone_devs z (insts (thermal s')) = zone_devs z (insts (thermal s)) \<and> max_of (thermal s') = max_of (thermal s) \<and>
    (0 \<notin> set ks \<longrightarrow> level (thermal s') = level (thermal s))"

lemma trips_effect_Cons:
  assumes "trip_effect z i k s s1" "ctl z1 = ctl z" "z_poll z1 = (if enabled z k then next_poll z else z_poll z)"
    and "trips_effect z1 i ks s1 s' z' n"
  shows "trips_effect z i (k # ks) s s' z' (if trip_hit z k then Suc n else n)"
proof -
  note c = ctl_cong [OF assms(2)] ctlD [OF assms(2)]
  have hit: "trip_hit z1 = trip_hit z" "enabled z1 = enabled z" "next_poll z1 = next_poll z"
    using c by (simp_all add: trip_hit_def [abs_def] enabled_def [abs_def] trip_type_def next_poll_def)
  note r = assms(4) [unfolded trips_effect_def hit ctl_ready [OF assms(2)] c(5) assms(2)]
  have "sol_sets (concat (replicate (if trip_hit z k then Suc n else n) pcb_reason)) (sol s) = Some (sol s')"
    using assms(1) r by (auto simp: trip_effect_def sol_sets_append)
  moreover have "0 \<notin> set (k # ks) \<longrightarrow> level (thermal s') = level (thermal s)"
    using assms(1) r by (auto simp: trip_effect_def throttles_def)
  ultimately show ?thesis using assms(1,3) r by (simp add: trips_effect_def trip_effect_def)
qed

lemma trips_ok:
  assumes "get_zone i s = Some z" "gov_zone z" "env_ok (cenv env)" "vs_ready z (thermal s)" "running (sol s)" "off_ok s"
    and "\<forall>k \<in> set ks. 0 \<le> k \<and> k < z_trips z"
  shows "\<exists>s' z' n. handle_trips env i ks s = Some s' \<and> trips_effect z i ks s s' z' n"
  using assms
proof (induction ks arbitrary: s z)
  case Nil
  then show ?case by (intro exI [of _ s] exI [of _ z] exI [of _ 0]) (simp add: trips_effect_def)
next
  case (Cons k ks)
  obtain s1 z1 where s1: "handle_thermal_trip env i k s = Some s1" "trip_effect z i k s s1" "running (sol s1)"
    "get_zone i s1 = Some z1" "ctl z1 = ctl z" "z_poll z1 = (if enabled z k then next_poll z else z_poll z)" "vs_ready z (thermal s1)"
    using trip_ok [OF Cons.prems(1-6), of k] Cons.prems(7) by auto
  have g1: "gov_zone z1" "vs_ready z1 (thermal s1)" "\<forall>k \<in> set ks. 0 \<le> k \<and> k < z_trips z1"
    using Cons.prems(2,7) s1(7) unfolding ctl_cong(1) [OF s1(5)] ctl_ready [OF s1(5)] ctlD(2) [OF s1(5)] by simp_all
  have "off_ok s1" using s1(2) by (simp add: trip_effect_def)
  then obtain s' z' n where r: "handle_trips env i ks s1 = Some s'" "trips_effect z1 i ks s1 s' z' n"
    using Cons.IH [OF s1(4) g1(1) Cons.prems(3) g1(2) s1(3) _ g1(3)] by blast
  then show ?case using s1(1) trips_effect_Cons [OF s1(2,5,6) r(2)] by auto
qed


lemma all_trips_ok:
  assumes "get_zone i s = Some z" "gov_zone z" "env_ok (cenv env)" "vs_ready z (thermal s)" "running (sol s)" "off_ok s"
  shows "\<exists>s' z' n. handle_trips env i [0..z_trips z - 1] s = Some s' \<and> trips_effect z i [0..z_trips z - 1] s s' z' n \<and>
    level (thermal s') =
      (if throttles z 0 then controller z (max_of (thermal s)) (zone_devs z (insts (thermal s))) 0 (level (thermal s))
       else level (thermal s))"
proof -
  have n: "0 < z_trips z" using assms(2) by (simp add: gov_zone_def zone_range_def)
  then have ks: "[0..z_trips z - 1] = 0 # [1..z_trips z - 1]" by (simp add: upto_rec1)
  obtain s1 z1 where s1: "handle_thermal_trip env i 0 s = Some s1" "trip_effect z i 0 s s1" "running (sol s1)"
    "get_zone i s1 = Some z1" "ctl z1 = ctl z" "z_poll z1 = (if enabled z 0 then next_poll z else z_poll z)" "vs_ready z (thermal s1)"
    using trip_ok [OF assms, of 0] n by auto
  have g1: "gov_zone z1" "vs_ready z1 (thermal s1)" "\<forall>k \<in> set [1..z_trips z - 1]. 0 \<le> k \<and> k < z_trips z1" "off_ok s1"
    using assms(2) s1(2,7) unfolding ctl_cong(1) [OF s1(5)] ctl_ready [OF s1(5)] ctlD(2) [OF s1(5)] by (simp_all add: trip_effect_def)
  obtain s' z' n' where r: "handle_trips env i [1..z_trips z - 1] s1 = Some s'" "trips_effect z1 i [1..z_trips z - 1] s1 s' z' n'"
    using trips_ok [OF s1(4) g1(1) assms(3) g1(2) s1(3) g1(4,3)] by blast
  have "level (thermal s') = level (thermal s1)" using r(2) by (simp add: trips_effect_def)
  then show ?thesis
    using s1(1,2) r(1) trips_effect_Cons [OF s1(2,5,6) r(2)] unfolding ks by (auto simp: trip_effect_def)
qed

lemma get_temp_frame:
  assumes "virtual_sensor_thermal_get_temp e z f = Some (r, z1, f1)"
  shows "ctl z1 = ctl z" "z_poll z1 = z_poll z"
proof -
  have "ctl z1 = ctl z \<and> z_poll z1 = z_poll z"
  proof (cases "is_fod_zone z \<and> \<not> caller_ok e")
    case False
    obtain tv ts f' where p: "sensors_step (is_fod_zone z) (time_now e) (z_polling_delay z) (sensors e) (ts_list (z_pdata z)) f 0 = Some (tv, ts, f')"
      using assms False unfolding virtual_sensor_thermal_get_temp_def
      by (cases "sensors_step (is_fod_zone z) (time_now e) (z_polling_delay z) (sensors e) (ts_list (z_pdata z)) f 0") auto
    obtain t0 where t0: "arr_get (trips (z_pdata z)) 0 = Some t0"
      using assms False p unfolding virtual_sensor_thermal_get_temp_def by (cases "arr_get (trips (z_pdata z)) 0") auto
    define z0 where "z0 = z\<lparr>z_query_count := s32 (z_query_count z + 1), z_mask := (if u64 tv > tr_temp t0 then 0x3F else 0x3FF),
        z_pdata := (z_pdata z)\<lparr>ts_list := ts\<rparr>\<rparr>"
    have "virtual_sensor_thermal_get_temp e z f = Some (Inr (s32 tv), z0, f')"
      unfolding virtual_sensor_thermal_get_temp_def z0_def using False p t0 by (simp only: if_False bind.bind_lunit split_conv)
    then have "z1 = z0" using assms by (simp only: option.inject prod.inject)
    then show ?thesis by (simp add: z0_def ctl_def)
  qed (use assms in \<open>simp add: virtual_sensor_thermal_get_temp_def\<close>)
  then show "ctl z1 = ctl z" "z_poll z1 = z_poll z" by simp_all
qed

lemma update_ok:
  assumes "get_zone i s = Some z" "\<not> in_suspend env" "virtual_sensor_thermal_get_temp (zenv env) z (fod s) = Some (Inr t, z1, f1)"
    and "gov_zone (z\<lparr>z_temperature := t\<rparr>)" "env_ok (cenv env)" "vs_ready z (thermal s)" "running (sol s)" "off_ok s"
  defines "zt \<equiv> z\<lparr>z_temperature := t\<rparr>"
  shows "\<exists>s' z' n. thermal_zone_device_update env i s = Some s' \<and> trips_effect zt i [0..z_trips z - 1] s s' z' n \<and>
    level (thermal s') =
      (if throttles zt 0 then controller zt (max_of (thermal s)) (zone_devs z (insts (thermal s))) 0 (level (thermal s))
       else level (thermal s))"
proof -
  define z2 where "z2 = z1\<lparr>z_last_temperature := z_temperature z1, z_temperature := t\<rparr>"
  define s2 where "s2 = put_zone i z2 (s\<lparr>fod := f1\<rparr>)"
  have u: "update_temperature env i s = Some s2" using assms(1,3) by (simp add: update_temperature_def s2_def z2_def)
  have z2: "ctl z2 = ctl zt" "z_poll z2 = z_poll zt"
    using get_temp_frame [OF assms(3)] by (simp_all add: z2_def zt_def ctl_def)
  have g2: "get_zone i s2 = Some z2" using assms(1) get_put_zone [of i "s\<lparr>fod := f1\<rparr>" z] by (simp add: s2_def get_zone_def)
  have s2: "thermal s2 = thermal s" "sol s2 = sol s" "power_off_triggered s2 = power_off_triggered s" "off_ok s2"
    using assms(8) by (simp_all add: s2_def off_ok_def)
  have dv: "zone_devs z2 = zone_devs z" "z_trips z2 = z_trips z" "gov_zone z2"
    using ctl_cong(1,5) [OF z2(1)] ctlD(2) [OF z2(1)] assms(4) by (simp_all add: zt_def zone_devs_def [abs_def])
  have dt: "zone_devs zt = zone_devs z" by (simp add: zt_def zone_devs_def [abs_def])
  have rd: "vs_ready z2 (thermal s2)"
    unfolding ctl_ready [OF z2(1)] using assms(6) by (simp add: s2 zt_def gov_ready_def zone_devs_def wired_def)
  obtain s' z' n where r: "handle_trips env i [0..z_trips z2 - 1] s2 = Some s'" "trips_effect z2 i [0..z_trips z2 - 1] s2 s' z' n"
    "level (thermal s') = (if throttles z2 0 then controller z2 (max_of (thermal s2)) (zone_devs z2 (insts (thermal s2))) 0 (level (thermal s2))
       else level (thermal s2))"
    using all_trips_ok [OF g2 dv(3) assms(5) rd] assms(7) s2 by auto
  have th: "throttles z2 0 = throttles zt 0" using ctlD [OF z2(1)] by (simp add: throttles_def enabled_def trip_type_def)
  have ev: "trip_hit z2 = trip_hit zt" "enabled z2 = enabled zt" "next_poll z2 = next_poll zt"
    using ctl_cong [OF z2(1)] ctlD [OF z2(1)]
    by (simp_all add: trip_hit_def [abs_def] enabled_def [abs_def] trip_type_def next_poll_def)
  have "trips_effect zt i [0..z_trips z - 1] s s' z' n"
    using r(2) unfolding trips_effect_def ev z2 dv dt ctl_ready [OF z2(1)] s2 .
  moreover have "thermal_zone_device_update env i s = Some s'" using assms(2) u g2 r(1) by (simp add: thermal_zone_device_update_def)
  ultimately show ?thesis using r(3) unfolding dv th ctl_controller [OF z2(1)] s2 by blast
qed


text \<open>The table of trips stays as it is, so a trip outside of it is a fault whatever came before.\<close>

lemma trip_frame:
  assumes "handle_thermal_trip env i k s = Some s'" "get_zone i s = Some z"
  shows "\<exists>z'. get_zone i s' = Some z' \<and> ctl z' = ctl z"
proof (cases "bit (z_disabled z) (nat k)")
  case True
  then show ?thesis using assms by (simp add: handle_thermal_trip_def)
next
  case False
  then obtain ty s1 z1 where s1: "(if ty = THERMAL_TRIP_CRITICAL \<or> ty = THERMAL_TRIP_HOT then handle_critical_trips i k ty s
      else handle_non_critical_trips env i k s) = Some s1" "get_zone i s1 = Some z1" "s' = put_zone i (monitor_thermal_zone z1) s1"
    using assms unfolding handle_thermal_trip_def by (auto simp: bind_eq_Some_conv)
  have "zones s1 = zones s"
    using s1(1) by (auto simp: handle_critical_trips_def handle_non_critical_trips_def virtual_sensor_thermal_notify_def
        thermal_emergency_poweroff_def bind_eq_Some_conv Let_def split: if_splits)
  then have "z1 = z" using s1(2) assms(2) by (simp add: get_zone_def)
  then show ?thesis using s1(3) get_put_zone [OF s1(2)] ctl_monitor by blast
qed

lemma trips_fault:
  assumes "get_zone i s = Some z" "int (length (trips (z_pdata z))) \<le> k" "\<not> bit (z_disabled z) (nat k)" "k \<in> set ks"
  shows "handle_trips env i ks s = None"
  using assms
proof (induction ks arbitrary: s z)
  case (Cons j ks)
  show ?case
  proof (cases "handle_thermal_trip env i j s")
    case (Some s1)
    obtain z1 where z1: "get_zone i s1 = Some z1" "ctl z1 = ctl z" using trip_frame [OF Some Cons.prems(1)] by blast
    have "j \<noteq> k"
      using Some Cons.prems(1-3)
      by (auto simp: handle_thermal_trip_def virtual_sensor_thermal_get_trip_type_def arr_get_def bind_eq_Some_conv)
    then show ?thesis using Some Cons.IH [OF z1(1)] Cons.prems(2-4) ctlD [OF z1(2)] by simp
  qed simp
qed simp

lemma update_temperature_frame:
  assumes "update_temperature env i s = Some s'" "get_zone i s = Some z"
  shows "\<exists>z'. get_zone i s' = Some z' \<and> z_trips z' = z_trips z \<and> z_disabled z' = z_disabled z \<and>
    trips (z_pdata z') = trips (z_pdata z)"
proof -
  obtain r z1 f where g: "virtual_sensor_thermal_get_temp (zenv env) z (fod s) = Some (r, z1, f)"
    using assms by (auto simp: update_temperature_def bind_eq_Some_conv)
  note c = ctlD [OF get_temp_frame(1) [OF g]]
  have p: "get_zone i (put_zone i z2 (s\<lparr>fod := f\<rparr>)) = Some z2" for z2
    using get_put_zone [of i "s\<lparr>fod := f\<rparr>" z] assms(2) by (simp add: get_zone_def)
  show ?thesis using assms g c p by (cases r) (auto simp: update_temperature_def)
qed

text \<open>With the bounds on the sensors of \<open>Vs_Zone\<close>.\<close>

lemma gov_zone_temp: "gov_zone z \<Longrightarrow> 0 \<le> t \<Longrightarrow> t < 2147483648 \<Longrightarrow> gov_zone (z\<lparr>z_temperature := t\<rparr>)"
  by (simp add: gov_zone_def zone_range_def)

definition sys_ready :: "int \<Rightarrow> int \<Rightarrow> update_env \<Rightarrow> nat \<Rightarrow> vs_zone \<Rightarrow> vs_sys \<Rightarrow> bool" where
  "sys_ready lo hi env i z s \<longleftrightarrow> get_zone i s = Some z \<and> \<not> in_suspend env \<and> zone_ok lo hi z \<and>
     list_all (input_ok lo hi (sensors (zenv env))) (ts_list (z_pdata z)) \<and> int (length (ts_list (z_pdata z))) \<le> lo \<and> hi < 2147483648 \<and>
     gov_zone z \<and> env_ok (cenv env) \<and> vs_ready z (thermal s) \<and> running (sol s) \<and> off_ok s"

lemma sys_update:
  assumes "sys_ready lo hi env i z s"
  shows "\<exists>t s' z' n. lo - int (length (ts_list (z_pdata z))) \<le> t \<and> t \<le> hi \<and> thermal_zone_device_update env i s = Some s' \<and>
    trips_effect (z\<lparr>z_temperature := t\<rparr>) i [0..z_trips z - 1] s s' z' n \<and>
    level (thermal s') =
      (if throttles (z\<lparr>z_temperature := t\<rparr>) 0
       then controller (z\<lparr>z_temperature := t\<rparr>) (max_of (thermal s)) (zone_devs z (insts (thermal s))) 0 (level (thermal s))
       else level (thermal s))"
proof -
  have h: "get_zone i s = Some z" "\<not> in_suspend env" "zone_ok lo hi z" "list_all (input_ok lo hi (sensors (zenv env))) (ts_list (z_pdata z))"
    "int (length (ts_list (z_pdata z))) \<le> lo" "hi < 2147483648" "gov_zone z" "env_ok (cenv env)" "vs_ready z (thermal s)"
    "running (sol s)" "off_ok s" using assms by (simp_all add: sys_ready_def)
  have "0 \<le> lo" using h(5) by linarith
  then obtain t z1 where t: "virtual_sensor_thermal_get_temp (zenv env) z (fod s) = Some (Inr t, z1, fod s)"
    "lo - int (length (ts_list (z_pdata z))) \<le> t" "t \<le> hi" using get_temp_ok [OF h(3,4) _ h(6), of "fod s"] by auto
  have "gov_zone (z\<lparr>z_temperature := t\<rparr>)" using gov_zone_temp [OF h(7)] t(2,3) h(5,6) by simp
  from update_ok [OF h(1,2) t(1) this h(8-11)] t(2,3) show ?thesis by blast
qed

lemma critical_off:
  assumes "sys_ready lo hi env i z s" "0 \<le> k" "k < z_trips z" "enabled z k" "trip_type z k = THERMAL_TRIP_CRITICAL"
    and "0 < threshold z k" "threshold z k + int (length (ts_list (z_pdata z))) \<le> lo"
  shows "\<exists>s' n. thermal_zone_device_update env i s = Some s' \<and> power_off_triggered s' \<and> orderly_poweroff s' \<and>
    emergency_work s' = Some 100 \<and> 0 < n \<and>
    sol_sets (replicate n (THERMAL_SHUTDOWN, THERMAL_SHUTDOWN_REASON_PCB)) (sol s) = Some (sol s')"
proof -
  obtain t s' z' n where r: "lo - int (length (ts_list (z_pdata z))) \<le> t" "thermal_zone_device_update env i s = Some s'"
    "trips_effect (z\<lparr>z_temperature := t\<rparr>) i [0..z_trips z - 1] s s' z' n" using sys_update [OF assms(1)] by blast
  have "trip_hit (z\<lparr>z_temperature := t\<rparr>) k"
    using assms(4-7) r(1) by (simp add: trip_hit_def enabled_def trip_type_def threshold_def)
  then have "list_ex (trip_hit (z\<lparr>z_temperature := t\<rparr>)) [0..z_trips z - 1]" using assms(2,3) by (auto simp: list_ex_iff)
  moreover have "concat (replicate n pcb_reason) = replicate n (THERMAL_SHUTDOWN, THERMAL_SHUTDOWN_REASON_PCB)"
    by (induction n) (simp_all add: pcb_reason_def)
  ultimately show ?thesis using r(2,3) by (auto simp: trips_effect_def off_ok_def)
qed

section \<open>An example system\<close>

definition ex_sol :: sol_sys where
  "ex_sol = sol_sys_example\<lparr>p_dev_sol :=
     SolPtr \<lparr>version = ''3.0'', life_cycle_reason_idx = 0, sol_ops = life_cycle_platform_init no_ops\<rparr>\<rparr>"

definition ex_uzone :: vs_zone where
  "ex_uzone = ex_zone ''virtual_sensor1'' [ex_sensor 3 0 1000]"

definition ex_sys :: vs_sys where
  "ex_sys = \<lparr>zones = [ex_uzone], tz_list = [0], cdev_list = [0, 1], fod = ex_fod [0, 0, 0], wpc_work = False, thermal = ex_ts 0, sol = ex_sol,
     power_off_triggered = False, emergency_work = None, orderly_poweroff = False, dcap_asked = False, events = []\<rparr>"

definition ex_uenv :: "int \<Rightarrow> update_env" where
  "ex_uenv t = \<lparr>zenv = ex_zone_env 0 t, cenv = ex_vs_env, logger = True, in_suspend = False, wpc_online = 0\<rparr>"

lemma ex_uzone_gov: "gov_zone ex_uzone" "vs_ready ex_uzone (ex_ts 0)" "throttles ex_uzone 0" "ts_list (z_pdata ex_uzone) = [ex_sensor 3 0 1000]"
proof -
  show "gov_zone ex_uzone" by (simp add: ex_uzone_def ex_zone_def gov_zone_def zone_range_def)
  show "vs_ready ex_uzone (ex_ts 0)"
    using ex_ts_ready [of 0 0] by (simp add: gov_ready_def ex_uzone_def ex_gov_zone_def ex_zone_def zone_devs_def wired_def)
qed (simp_all add: ex_uzone_def ex_zone_def throttles_def enabled_def trip_type_def)

lemma ex_sys_ready: "1 \<le> lo \<Longrightarrow> lo \<le> t \<Longrightarrow> t \<le> hi \<Longrightarrow> hi < 2147483648 \<Longrightarrow> sys_ready lo hi (ex_uenv t) 0 ex_uzone ex_sys"
proof -
  assume h: "1 \<le> lo" "lo \<le> t" "t \<le> hi" "hi < 2147483648"
  have "zone_ok lo hi ex_uzone" by (simp add: ex_zone_defs zone_ok_def is_fod_zone_def sensor_ok_def ex_uzone_def)
  moreover have "list_all (input_ok lo hi (sensors (zenv (ex_uenv t)))) (ts_list (z_pdata ex_uzone))"
    using h by (simp add: ex_uzone_gov(4) ex_zone_defs ex_uenv_def input_ok_def virtual_sensor_thermal_sensor_read_temp_def vs_thermal_sensor_get_temp_def)
  moreover have "running ex_sol" by (simp add: running_def ex_sol_def)
  ultimately show ?thesis
    using h ex_uzone_gov ex_vs_env_ok(1) by (simp add: sys_ready_def ex_sys_def ex_uenv_def get_zone_def off_ok_def arr_get_def)
qed

lemma ex_trip: "enabled ex_uzone 1" "trip_type ex_uzone 1 = THERMAL_TRIP_CRITICAL" "threshold ex_uzone 1 = 60000" "z_trips ex_uzone = 2"
  by (simp_all add: ex_uzone_def ex_zone_def enabled_def trip_type_def threshold_def)

section \<open>Properties\<close>





text \<open>
  The number of trips can be set without a bound.  A number larger than the table of trips is accepted, and the next
  update of the zone reaches outside the table.
\<close>

theorem trips_store_unbounded:
  assumes "get_zone i s = Some z" "int (length (trips (z_pdata z))) < n" "\<not> in_suspend env"
    and "int (length (trips (z_pdata z))) \<le> k" "k < n" "\<not> bit (z_disabled z) (nat k)"
  shows "\<exists>s'. trips_store i (Some n) len s = Some (int len, s') \<and> thermal_zone_device_update env i s' = None"
proof -
  let ?z = "z\<lparr>z_trips := n, z_pdata := (z_pdata z)\<lparr>num_trips := n\<rparr>\<rparr>"
  let ?s = "put_zone i ?z s"
  have t: "trips_store i (Some n) len s = Some (int len, ?s)" using assms(1,2) by (simp add: trips_store_def)
  have "thermal_zone_device_update env i ?s = None"
  proof (cases "update_temperature env i ?s")
    case (Some s1)
    obtain z1 where z1: "get_zone i s1 = Some z1" "z_trips z1 = n" "z_disabled z1 = z_disabled z" "trips (z_pdata z1) = trips (z_pdata z)"
      using update_temperature_frame [OF Some get_put_zone [OF assms(1)]] by auto
    then have "handle_trips env i [0..z_trips z1 - 1] s1 = None" using trips_fault [OF z1(1), of k] assms(4-6) by simp
    then show ?thesis using Some z1(1) assms(3) by (simp add: thermal_zone_device_update_def)
  qed (simp add: thermal_zone_device_update_def assms(3))
  then show ?thesis using t by blast
qed

theorem trips_store_unbounded_witness:
  "\<exists>s'. trips_store 0 (Some 13) 3 ex_sys = Some (3, s') \<and> thermal_zone_device_update (ex_uenv 30000) 0 s' = None"
  using trips_store_unbounded [of 0 ex_sys ex_uzone 13 "ex_uenv 30000" 2 3]
  by (simp add: ex_sys_def ex_uenv_def get_zone_def arr_get_def ex_uzone_def ex_zone_def)

text \<open>
  A failed change of the window blocks the zone.  When the nodes of the new window cannot be allocated, the attribute
  returns with the lock of the detection held, and every later reading of the zone with a weighted sensor waits for it
  for ever.
\<close>

theorem window_store_enomem_blocks_zone:
  assumes "kstrtouint buf 0 = Inr n" "2 \<le> n" "int allocs < n - 1" "\<not> fod_locked f" "is_fod_zone z" "caller_ok e"
    and "ts_list (z_pdata z) = tdev # ts" "td_weight tdev \<noteq> 0"
  shows "\<exists>f'. window_size_store buf allocs f = Some (- ENOMEM, f') \<and> virtual_sensor_thermal_get_temp e z f' = None"
proof -
  obtain f' where f': "window_size_store buf allocs f = Some (- ENOMEM, f')" "fod_locked f'"
    using assms(1-4) by (simp add: window_size_store_def Let_def)
  have "sensor_step True now delay env tdev f' = None" for now delay env
    using f'(2) assms(8) by (cases "virtual_sensor_thermal_sensor_read_temp env tdev") (simp_all add: sensor_step_def)
  then show ?thesis using f'(1) assms(5-7) by (simp add: virtual_sensor_thermal_get_temp_def)
qed

theorem window_store_enomem_blocks_zone_witness:
  "\<exists>f'. window_size_store ''6'' 3 (ex_fod [0, 0, 0]) = Some (- ENOMEM, f') \<and>
    virtual_sensor_thermal_get_temp (ex_zone_env 0 0) (ex_zone ''virtual_sensor4'' [ex_sensor 6 0 1000]) f' = None"
proof -
  have "kstrtouint (print_d 6 @ []) 0 = Inr 6" by (subst kstrtouint_print) simp_all
  moreover have "print_d 6 = ''6''" by code_simp
  ultimately have "kstrtouint ''6'' 0 = Inr 6" by simp
  then show ?thesis
    using window_store_enomem_blocks_zone [of "''6''" 6 3 "ex_fod [0, 0, 0]" "ex_zone ''virtual_sensor4'' [ex_sensor 6 0 1000]" "ex_zone_env 0 0"
      "ex_sensor 6 0 1000" "[]"]
    by (simp add: ex_zone_defs is_fod_zone_def)
qed

end
