(* ===== verification/Spec2Isabelle.thy ===== *)
theory Spec2Isabelle
  imports Adf_Ringbuf Amzn_Ld Amzn_Keycombo Vs_Update
begin

text \<open>
  A verification library for parts of the kernel of the Fire HD 8 (12th generation): Linux 5.4 for the MediaTek MT8169
  with Amazon's drivers.  Paths are below \<^verbatim>\<open>src/src/kernel/mediatek/mt8169/5.4/\<close>.

  \<^bold>\<open>The parts and how they interact.\<close>
  The \<^emph>\<open>thermal zones\<close> of the tablet average several temperature sensors.  The thermal framework reads a zone
  periodically and hands its trip points to a \<^emph>\<open>governor\<close>, which sets the levels of \<^emph>\<open>cooling devices\<close> (charging
  current, backlight, CPU power, wireless charging); each cooling driver keeps its devices in a list, sorts it with
  \<^verbatim>\<open>list_sort\<close> and passes on the strictest level.  A critical trip notifies the zone driver, which leaves a reason with
  the \<^emph>\<open>sign-of-life\<close> driver before the power is cut.  That driver keeps the reasons in spare bits of the \<^emph>\<open>RTC\<close> of
  the PMIC, through the RTC driver, and after the next boot shows the most important one; the \<^emph>\<open>boot mode\<close> driver tells
  it whether the tablet only charges.  The \<^emph>\<open>liquid detection\<close> of the USB port measures two lines through an \<^emph>\<open>ADC\<close> that
  it shares with the battery identification, publishes its finding through the \<^emph>\<open>switch class\<close> and has thresholds that
  user space sets through attributes, as most of the drivers do, parsed by \<^verbatim>\<open>kstrtox\<close>.  \<^emph>\<open>Key combinations\<close> are counted by an
  input handler; the one of Amazon for a long press of the power key restarts the tablet and leaves a reason too.  The \<^emph>\<open>ring buffer\<close> of the
  DSP framework stands alone: a byte queue between a reader and a writer.

  \<^bold>\<open>Conventions.\<close>
  A struct is a record with the source's fields, an operation a function on explicit states with the name of the C
  function where that is free; C's \<^verbatim>\<open>int\<close> is \<^typ>\<open>int\<close> with \<open>s32\<close>, \<open>s64\<close>, \<open>u64\<close> and \<open>wrap_u32\<close> where a value may leave
  its range, registers are words.  \<^term>\<open>None\<close> is a fault: an access outside an array, a NULL, error or dangling pointer
  that is followed, a division by zero, a mutex that is never obtained.  Errno values are negative results, or \<^term>\<open>Inl\<close>.
  What hardware and drivers outside the model answer, whether an allocation succeeds, and the text of the device tree are
  arguments (records called \<open>..._env\<close> and \<open>..._dt\<close>), so that every error branch can be reached.

  \<^bold>\<open>The theories.\<close>
  \<^item> \<open>Kernel_Base\<close>: machine arithmetic, errno values, arrays with checked accesses, circular buffers.
  \<^item> \<open>Adf_Ringbuf\<close> (\<^verbatim>\<open>drivers/staging/amazon/dspframework/src/ringbuf.c\<close>): the record \<open>adfRingbuf_t\<close> with offsets relative to
    the struct, and every function.  The lemmas show the invariant, each operation on the queue of bytes \<open>contents\<close>, and
    through the interface \<open>byte_fifo\<close> that every sequence of fitting operations is a first-in first-out queue; and what a
    write that does not fit drops.
  \<^item> \<open>Rtc_Lib\<close> (\<^verbatim>\<open>drivers/rtc/lib.c\<close>, \<^verbatim>\<open>kernel/time/time.c\<close>): calendar arithmetic; round trips between dates and seconds.
  \<^item> \<open>Rtc_Mt6397\<close> (\<^verbatim>\<open>drivers/rtc/rtc-mt6397.c\<close>): time, alarm, power-on alarm, NVMEM, interrupt over a register file with bus
    errors, clock ticks between accesses and a busy bit.  Set and read are inverse, a time that is read was shown by the
    clock, reading ends, and no operation touches the bits of the sign of life.
  \<^item> \<open>Sol_Rtc\<close> (\<^verbatim>\<open>drivers/staging/amazon/amzn_sign_of_life_rtc_impl.c\<close>): the reasons in the spare bits.  Through the
    interface \<open>life_cycle_store\<close> the bits refine a map; a flipped bit is detected; other bits are kept.
  \<^item> \<open>Boot_Common\<close> (\<^verbatim>\<open>drivers/misc/mediatek/boot/mtk_boot_common.c\<close>) and \<open>Sol_Core\<close>
    (\<^verbatim>\<open>drivers/staging/amazon/amzn_sign_of_life_v3.c\<close>): the boot mode; the table of reasons, the look-up at boot, the setters,
    the reboot notifier.  What is shown after a power cycle is decided by what was set before it.
  \<^item> \<open>Kstrtox\<close> (\<^verbatim>\<open>lib/kstrtox.c\<close>): exact conversion or \<^verbatim>\<open>ERANGE\<close>, and the round trip with printing.
  \<^item> \<open>Switch_Class\<close> (\<^verbatim>\<open>drivers/switch/switch_class.c\<close>), \<open>Pubadc\<close>
    (\<^verbatim>\<open>drivers/usb/typec/pubadc_manage/pubadc_manage.c\<close>), \<open>Amzn_Ld\<close> (\<^verbatim>\<open>drivers/usb/typec/amzn_ld/amzn_ld.c\<close>): one uevent per
    change; readers of the shared ADC get their own input in every interleaving; a detection run refines a dry/wet state
    machine, no history of work items and notifications faults, and a failed probe leaves nothing behind.
  \<^item> \<open>Keycombo\<close> (\<^verbatim>\<open>drivers/input/keycombo.c\<close>) and \<open>Amzn_Keycombo\<close> (\<^verbatim>\<open>drivers/staging/amazon/amzn_keycombo.c\<close>): the record
    \<open>keycombo_state\<close> with its counters, timer and work queue; the functions of the combinations and their device tree.  The
    counters agree with the pressed keys and the calls alternate in every interleaving; a long press is shown after the
    restart.
  \<^item> \<open>List_Sort\<close> (\<^verbatim>\<open>lib/list_sort.c\<close>): the bottom-up merge sort with its count of pending lists equals the stable
    \<^const>\<open>sort_key\<close>.
  \<^item> \<open>Thermal_Core\<close> (\<^verbatim>\<open>drivers/thermal/thermal_core.c\<close>, \<^verbatim>\<open>thermal_helpers.c\<close>): instances that bind a device to a trip, the
    update of a device, and the interface \<open>cooling_device\<close>: what the framework relies on of a driver.
  \<^item> \<open>Vs_Cooler\<close> (\<^verbatim>\<open>drivers/thermal/virtual_sensor_tablet/virtual_sensor_cooler_*.c\<close>, \<^verbatim>\<open>virtual_sensor_interface.c\<close>): the record
    \<open>vs_coolers\<close> and the operations of the four drivers.  They provide \<open>cooling_device\<close>; the limit on charging is always
    that of the strictest device; the CPU frequency fits the power budget.
  \<^item> \<open>Vs_Zone\<close> (\<^verbatim>\<open>virtual_sensor_tablet_thermal.c\<close>, \<^verbatim>\<open>virtual_sensor_thermal_sensor.c\<close>): sensors, the zone's average and
    the rate of rise for foreign objects.  The average stays between its inputs over every history; the ring computes the
    difference over a window.
  \<^item> \<open>Vs_Gov\<close> (\<^verbatim>\<open>virtual_sensor_gov.c\<close>): the governor, for every \<open>cooling_device\<close>.  A call refines the abstract
    hysteresis controller \<open>controller\<close>; hot zones throttle, cold ones release, and where the code departs from this.
  \<^item> \<open>Vs_Update\<close> (\<^verbatim>\<open>thermal_core.c\<close> and the handlers of \<^verbatim>\<open>virtual_sensor_tablet_thermal.c\<close>): the record \<open>vs_sys\<close> of all zones,
    devices and the sign of life; updating a zone, critical trips, modes, attributes, events of the wireless charger,
    binding and probing.  One update from the sensors to the levels of the devices; a critical trip powers off.
  \<^item> this theory: from a hot board through the power-off and the RTC to the text of \<^verbatim>\<open>/proc/life_cycle_reason\<close>.

  \<^bold>\<open>Loops and bounds.\<close>
  Loops over lists, arrays and counters are structural recursion; the loop that finds the year in \<open>Rtc_Lib\<close> has a
  termination proof, and the merge loops of \<open>List_Sort\<close> recurse on the lists and on the bits of the count.  The polls of
  the RTC driver are bounded by the number of polls that fit in its timeout (\<open>patience\<close>).  One loop has fuel, the one
  that reads the time again after the seconds rolled over: it is shown to return when there is one turn more than there are
  clock ticks to come.
  The theorems on zones ask for the weights and smoothing factors between 0 and 1000 that the drivers' formula
  assumes, and for ascending trip temperatures; the device tree that gives them is not part of the repository.

  \<^bold>\<open>Configuration.\<close>
  The models follow the tablet's \<^verbatim>\<open>raspite_defconfig\<close>: \<^verbatim>\<open>CONFIG_THERMAL_FOD\<close>, the metrics as modules, an emergency
  power-off after 100 ms, no thermal emulation, one CPU cluster, \<^verbatim>\<open>CONFIG_PUBADC_MANAGE\<close>.

  \<^bold>\<open>Not modelled.\<close>
  \<^item> Module initialisation and exit, and the removal of zones, sensors and key combinations: they register and free what the model takes as set up.
    The same holds for probe, suspend and resume of the RTC driver and for the character device of the boot mode.
  \<^item> In the thermal framework, unregistering, the other governors, netlink, sysfs and emulation, which the virtual
    sensors do not use; time itself (delays are numbers, and a queued work item is a flag or its delay).
  \<^item> The lines that a reading of a zone sends to the metrics; those of the governor are modelled.
  \<^item> Interleavings inside a critical section.  Where the source leaves a gap between two of them the interleaving is an
    explicit sequence of steps (the RTC bits, the shared ADC, the events of the liquid detection, the work items of a key
    combination).
  \<^item> The rest of the tree: the generic kernel, and drivers of hardware that is only described by its registers.
\<close>

section \<open>From a hot board to the next boot\<close>

lemma pcb_entry:
  "search_lcr_table lcr_data THERMAL_SHUTDOWN_REASON_PCB = 6" "reported THERMAL_SHUTDOWN_REASON_PCB"
  "life_cycle_reasons_text (lcr_data ! 6) = ''PCB Overheated Thermal Shutdown''" "life_cycle_type (lcr_data ! 6) = ''LCR_abnormal''"
  by (simp_all add: search_lcr_table_def lcr_data_def lcr_entry_def reported_def)

lemma thermal_last_reason:
  "0 < n \<Longrightarrow> last_reason (replicate n (THERMAL_SHUTDOWN, r) @ [(SHUTDOWN, r')]) boot THERMAL_SHUTDOWN = r"
proof -
  assume "0 < n"
  then have "map_of (replicate n (THERMAL_SHUTDOWN, r)) THERMAL_SHUTDOWN = Some r" by (cases n) simp_all
  then show ?thesis by (simp add: last_reason_def)
qed

lemma power_off_reason: "map_option snd (life_cycle_set_shutdown_reason r l) = sol_sets [(SHUTDOWN, r)] l"
  by (cases "life_cycle_set_shutdown_reason r l") (auto simp: split_def)




end
